(* ===== verification/Prelude.thy ===== *)
theory Prelude
  imports Main "HOL-Library.Word"
begin

text \<open>
  Shared vocabulary of the development: the two result disciplines of the source (a pure
  \<^verbatim>\<open>Result\<close> with the question mark operator, and fallible code that also threads a state),
  fixed-width integers with Rust's checked and saturating operations, big-endian byte
  encoding, and the lemma collections the component theories feed.

  Conventions: \<^verbatim>\<open>Err e\<close> is \<open>Inl e\<close> and \<^verbatim>\<open>Ok x\<close> is \<open>Inr x\<close>; a byte is an \<open>8 word\<close>;
  \<^verbatim>\<open>u32\<close> and \<^verbatim>\<open>u64\<close> values that can wrap are words of that width; \<^verbatim>\<open>usize\<close> lengths are \<open>nat\<close>.
\<close>

named_theorems run_simps \<open>rules that run a fallible action one step\<close>
named_theorems frame_simps \<open>what an operation leaves unchanged\<close>
named_theorems text_simps \<open>evaluation of the text operations of the Rust library\<close>

type_synonym byte = "8 word"
type_synonym bytes = "byte list"
type_synonym u32 = "32 word"
type_synonym u64 = "64 word"
type_synonym i64 = "64 word"
type_synonym uuid = nat

section \<open>Results and fallible actions\<close>

definition bindR :: "'e + 'a \<Rightarrow> ('a \<Rightarrow> 'e + 'b) \<Rightarrow> 'e + 'b" where
  "bindR r f = (case r of Inl e \<Rightarrow> Inl e | Inr x \<Rightarrow> f x)"

definition map_err :: "('e \<Rightarrow> 'f) \<Rightarrow> 'e + 'a \<Rightarrow> 'f + 'a" where
  "map_err g r = (case r of Inl e \<Rightarrow> Inl (g e) | Inr x \<Rightarrow> Inr x)"

definition ok_or :: "'e \<Rightarrow> 'a option \<Rightarrow> 'e + 'a" where
  "ok_or e m = (case m of None \<Rightarrow> Inl e | Some x \<Rightarrow> Inr x)"

definition is_ok :: "'e + 'a \<Rightarrow> bool" where
  "is_ok r = (case r of Inl _ \<Rightarrow> False | Inr _ \<Rightarrow> True)"

text \<open>\<^verbatim>\<open>option.map(f).transpose()?\<close>: validate an optional field.\<close>

definition transposeR :: "('a \<Rightarrow> 'e + 'b) \<Rightarrow> 'a option \<Rightarrow> 'e + 'b option" where
  "transposeR f m = (case m of None \<Rightarrow> Inr None
     | Some x \<Rightarrow> (case f x of Inl e \<Rightarrow> Inl e | Inr y \<Rightarrow> Inr (Some y)))"

type_synonym ('s, 'e, 'a) action = "'s \<Rightarrow> ('e + 'a) \<times> 's"

definition okE :: "'a \<Rightarrow> ('s, 'e, 'a) action" where
  "okE x s = (Inr x, s)"

definition failE :: "'e \<Rightarrow> ('s, 'e, 'a) action" where
  "failE e s = (Inl e, s)"

definition liftE :: "'e + 'a \<Rightarrow> ('s, 'e, 'a) action" where
  "liftE r s = (r, s)"

definition bindE :: "('s, 'e, 'a) action \<Rightarrow> ('a \<Rightarrow> ('s, 'e, 'b) action) \<Rightarrow> ('s, 'e, 'b) action" where
  "bindE m f s = (case m s of (Inl e, t) \<Rightarrow> (Inl e, t) | (Inr x, t) \<Rightarrow> f x t)"

definition map_errE :: "('e \<Rightarrow> 'f) \<Rightarrow> ('s, 'e, 'a) action \<Rightarrow> ('s, 'f, 'a) action" where
  "map_errE g m s = (case m s of (Inl e, t) \<Rightarrow> (Inl (g e), t) | (Inr x, t) \<Rightarrow> (Inr x, t))"

section \<open>Machine integers\<close>

definition checked_add_u64 :: "u64 \<Rightarrow> u64 \<Rightarrow> u64 option" where
  "checked_add_u64 a b = (if unat a + unat b < 2 ^ 64 then Some (a + b) else None)"

text \<open>The value of a Rust \<^verbatim>\<open>as i64\<close> cast of an unsigned 64-bit value: two's complement.\<close>

definition as_i64 :: "u64 \<Rightarrow> int" where
  "as_i64 w = sint w"

definition i64_max :: int where "i64_max = 2 ^ 63 - 1"
definition i64_min :: int where "i64_min = - (2 ^ 63)"

definition saturating_sub_i64 :: "int \<Rightarrow> int \<Rightarrow> int" where
  "saturating_sub_i64 a b = max i64_min (min i64_max (a - b))"

definition to_be_bytes :: "u64 \<Rightarrow> bytes" where
  "to_be_bytes w = map (\<lambda>i. ucast (drop_bit (8 * (7 - i)) w)) [0..<8]"

section \<open>Rules for results and actions\<close>

lemma bindR_simps [simp, run_simps]:
  "bindR (Inl e) f = Inl e"
  "bindR (Inr x) f = f x"
  by (simp_all add: bindR_def)

lemma bindR_eq_Inr: "bindR r f = Inr y \<longleftrightarrow> (\<exists>x. r = Inr x \<and> f x = Inr y)"
  by (cases r) auto

lemma bindR_eq_Inl: "bindR r f = Inl e \<longleftrightarrow> r = Inl e \<or> (\<exists>x. r = Inr x \<and> f x = Inl e)"
  by (cases r) auto

lemma map_err_simps [simp, run_simps]:
  "map_err g (Inl e) = Inl (g e)"
  "map_err g (Inr x) = Inr x"
  by (simp_all add: map_err_def)

lemma map_err_eq_Inr [simp]: "map_err g r = Inr x \<longleftrightarrow> r = Inr x"
  by (cases r) auto

lemma ok_or_simps [simp, run_simps]:
  "ok_or e None = Inl e"
  "ok_or e (Some x) = Inr x"
  by (simp_all add: ok_or_def)

lemma ok_or_eq_Inr [simp]: "ok_or e m = Inr x \<longleftrightarrow> m = Some x"
  by (cases m) auto

lemma is_ok_simps [simp, run_simps]:
  "is_ok (Inl e) = False"
  "is_ok (Inr x) = True"
  by (simp_all add: is_ok_def)

lemma transposeR_simps [simp, run_simps]:
  "transposeR f None = Inr None"
  "f x = Inl e \<Longrightarrow> transposeR f (Some x) = Inl e"
  "f x = Inr y \<Longrightarrow> transposeR f (Some x) = Inr (Some y)"
  by (simp_all add: transposeR_def)

lemma transposeR_eq_Inr:
  "transposeR f m = Inr r \<longleftrightarrow>
     (m = None \<and> r = None) \<or> (\<exists>x y. m = Some x \<and> r = Some y \<and> f x = Inr y)"
  by (auto simp: transposeR_def split: option.splits sum.splits)

lemma action_simps [simp, run_simps]:
  "okE x s = (Inr x, s)"
  "failE e s = (Inl e, s)"
  "liftE r s = (r, s)"
  by (simp_all add: okE_def failE_def liftE_def)

lemma bindE_run [run_simps]:
  "m s = (Inl e, t) \<Longrightarrow> bindE m f s = (Inl e, t)"
  "m s = (Inr x, t) \<Longrightarrow> bindE m f s = f x t"
  by (simp_all add: bindE_def)

lemma bindE_eq_Inr:
  "bindE m f s = (Inr y, u) \<longleftrightarrow> (\<exists>x t. m s = (Inr x, t) \<and> f x t = (Inr y, u))"
  by (auto simp: bindE_def split: prod.splits sum.splits)

lemma bindE_eq_Inl:
  "bindE m f s = (Inl e, u) \<longleftrightarrow>
     m s = (Inl e, u) \<or> (\<exists>x t. m s = (Inr x, t) \<and> f x t = (Inl e, u))"
  by (auto simp: bindE_def split: prod.splits sum.splits)

lemma map_errE_eq_Inr [simp]: "map_errE g m s = (Inr x, t) \<longleftrightarrow> m s = (Inr x, t)"
  by (auto simp: map_errE_def split: prod.splits sum.splits)

lemma snd_map_errE [simp]: "snd (map_errE g m s) = snd (m s)"
  by (simp add: map_errE_def split: prod.split sum.split)

text \<open>
  How an action may change the state: \<open>stays R m\<close> says that every run of \<open>m\<close>, failed runs
  included, relates its initial to its final state by \<open>R\<close>. For a preorder, an action made of
  such steps is such a step: this is how frames and invariants of the services follow from
  those of the repositories. The invariant \<open>P\<close> is the preorder that keeps \<open>P\<close>.
\<close>

definition stays :: "('s \<Rightarrow> 's \<Rightarrow> bool) \<Rightarrow> ('s, 'e, 'a) action \<Rightarrow> bool" where
  "stays R m \<longleftrightarrow> (\<forall>s. R s (snd (m s)))"

lemma staysD: "stays R m \<Longrightarrow> R s (snd (m s))"
  by (simp add: stays_def)

lemma staysI: "(\<And>s. R s (snd (m s))) \<Longrightarrow> stays R m"
  by (simp add: stays_def)

locale state_order =
  fixes R :: "'s \<Rightarrow> 's \<Rightarrow> bool"
  assumes R_refl: "R s s"
    and R_trans: "R s t \<Longrightarrow> R t u \<Longrightarrow> R s u"
begin

lemma stays_pure: "stays R (okE x)" "stays R (failE e)" "stays R (liftE r)"
  by (simp_all add: stays_def R_refl)

lemma stays_bindE:
  assumes "stays R m" and "\<And>x. stays R (f x)"
  shows "stays R (bindE m f)"
proof (rule staysI)
  fix s
  have "R s (snd (m s))" using assms(1) by (rule staysD)
  moreover have "R (snd (m s)) (snd (f x (snd (m s))))" for x using assms(2) by (rule staysD)
  ultimately show "R s (snd (bindE m f s))"
    by (auto simp: bindE_def intro: R_trans split: prod.splits sum.splits)
qed

lemma stays_map_errE: "stays R m \<Longrightarrow> stays R (map_errE g m)"
  by (simp add: stays_def snd_map_errE)

lemma stays_if: "stays R m \<Longrightarrow> stays R n \<Longrightarrow> stays R (if b then m else n)"
  by simp

lemma stays_option: "stays R m \<Longrightarrow> (\<And>x. stays R (f x)) \<Longrightarrow> stays R (case o' of None \<Rightarrow> m | Some x \<Rightarrow> f x)"
  by (cases o') simp_all

lemmas stays_intros = stays_pure stays_bindE stays_map_errE stays_if stays_option

end

interpretation invariant: state_order "\<lambda>s t. P s \<longrightarrow> P t" for P :: "'s \<Rightarrow> bool"
  by unfold_locales auto

section \<open>Lists\<close>

lemma length_dropWhile_less [termination_simp]: "length (dropWhile P xs) < Suc (length xs)"
  by (simp add: length_dropWhile_le le_imp_less_Suc)

section \<open>Rules for machine integers\<close>

lemma checked_add_u64_Some:
  "checked_add_u64 a b = Some c \<longleftrightarrow> unat a + unat b < 2 ^ 64 \<and> c = a + b"
  by (auto simp: checked_add_u64_def)

lemma unat_checked_add_u64: "checked_add_u64 a b = Some c \<Longrightarrow> unat c = unat a + unat b"
  by (auto simp: checked_add_u64_def unat_word_ariths split: if_splits)

lemma length_to_be_bytes [simp]: "length (to_be_bytes w) = 8"
  by (simp add: to_be_bytes_def)

lemma bit_to_be_bytes:
  "i < 8 \<Longrightarrow> bit (to_be_bytes w ! i) j \<longleftrightarrow> j < 8 \<and> bit w (8 * (7 - i) + j)"
  by (auto simp: to_be_bytes_def bit_ucast_iff bit_drop_bit_eq dest: bit_imp_le_length)

lemma to_be_bytes_inject [simp]: "to_be_bytes v = to_be_bytes w \<longleftrightarrow> v = w"
proof
  assume eq: "to_be_bytes v = to_be_bytes w"
  show "v = w"
  proof (rule bit_word_eqI)
    fix n assume "n < LENGTH(64)"
    then have i: "7 - n div 8 < 8" and pos: "8 * (7 - (7 - n div 8)) + n mod 8 = n"
      by simp_all
    have "bit (to_be_bytes v ! (7 - n div 8)) (n mod 8) = bit v n"
      and "bit (to_be_bytes w ! (7 - n div 8)) (n mod 8) = bit w n"
      using bit_to_be_bytes [OF i, of v "n mod 8"] bit_to_be_bytes [OF i, of w "n mod 8"] pos
      by simp_all
    with eq show "bit v n = bit w n" by simp
  qed
qed simp

end
