(* ===== verification/Rust_Text.thy ===== *)
theory Rust_Text
  imports Prelude
begin

text \<open>
  The text operations of the Rust standard library that the server calls. A Rust \<^verbatim>\<open>str\<close> is
  its UTF-8 bytes: a HOL \<open>string\<close>, one \<open>char\<close> per byte, so that \<open>length\<close> is \<^verbatim>\<open>str::len\<close>.
  Operations on Unicode scalar values go through \<open>chars\<close>, which groups each lead byte with
  its continuation bytes. The lossy decoder follows the substitution-of-maximal-subparts
  rule of \<^verbatim>\<open>String::from_utf8_lossy\<close>.
\<close>

section \<open>Definitions\<close>

subsection \<open>Bytes and scalar values\<close>

definition chr :: "byte \<Rightarrow> char" where
  "chr b = char_of (unat b)"

definition ord :: "char \<Rightarrow> byte" where
  "ord c = of_nat (of_char c)"

definition as_bytes :: "string \<Rightarrow> bytes" where
  "as_bytes s = map ord s"

definition is_cont :: "char \<Rightarrow> bool" where
  "is_cont c \<longleftrightarrow> 128 \<le> (of_char c :: nat) \<and> (of_char c :: nat) < 192"

fun chars :: "string \<Rightarrow> string list" where
  "chars [] = []"
| "chars (c # s) = (c # takeWhile is_cont s) # chars (dropWhile is_cont s)"

definition ascii_space :: string where
  "ascii_space = [CHR 0x09, CHR 0x0A, CHR 0x0B, CHR 0x0C, CHR 0x0D, CHR 0x20]"

definition white_space :: "string list" where
  "white_space = map (\<lambda>c. [c]) ascii_space @
     [[CHR 0xC2, CHR 0x85], [CHR 0xC2, CHR 0xA0], [CHR 0xE1, CHR 0x9A, CHR 0x80],
      [CHR 0xE2, CHR 0x80, CHR 0x80], [CHR 0xE2, CHR 0x80, CHR 0x81],
      [CHR 0xE2, CHR 0x80, CHR 0x82], [CHR 0xE2, CHR 0x80, CHR 0x83],
      [CHR 0xE2, CHR 0x80, CHR 0x84], [CHR 0xE2, CHR 0x80, CHR 0x85],
      [CHR 0xE2, CHR 0x80, CHR 0x86], [CHR 0xE2, CHR 0x80, CHR 0x87],
      [CHR 0xE2, CHR 0x80, CHR 0x88], [CHR 0xE2, CHR 0x80, CHR 0x89],
      [CHR 0xE2, CHR 0x80, CHR 0x8A], [CHR 0xE2, CHR 0x80, CHR 0xA8],
      [CHR 0xE2, CHR 0x80, CHR 0xA9], [CHR 0xE2, CHR 0x80, CHR 0xAF],
      [CHR 0xE2, CHR 0x81, CHR 0x9F], [CHR 0xE3, CHR 0x80, CHR 0x80]]"

definition is_whitespace :: "string \<Rightarrow> bool" where
  "is_whitespace g \<longleftrightarrow> g \<in> set white_space"

subsection \<open>Trimming, case, splitting\<close>

definition trim :: "string \<Rightarrow> string" where
  "trim s = concat (rev (dropWhile is_whitespace (rev (dropWhile is_whitespace (chars s)))))"

definition ascii_lower :: "char \<Rightarrow> char" where
  "ascii_lower c =
     (if 65 \<le> (of_char c :: nat) \<and> (of_char c :: nat) \<le> 90
      then char_of ((of_char c :: nat) + 32) else c)"

definition to_ascii_lowercase :: "string \<Rightarrow> string" where
  "to_ascii_lowercase s = map ascii_lower s"

fun split_once :: "char \<Rightarrow> string \<Rightarrow> (string \<times> string) option" where
  "split_once d [] = None"
| "split_once d (c # s) =
     (if c = d then Some ([], s)
      else map_option (\<lambda>(l, r). (c # l, r)) (split_once d s))"

fun split_on :: "char \<Rightarrow> string \<Rightarrow> string list" where
  "split_on d [] = [[]]"
| "split_on d (c # s) =
     (if c = d then [] # split_on d s
      else (c # hd (split_on d s)) # tl (split_on d s))"

fun split_groups :: "string list \<Rightarrow> string list" where
  "split_groups [] = [[]]"
| "split_groups (g # gs) =
     (if is_whitespace g then [] # split_groups gs
      else (g @ hd (split_groups gs)) # tl (split_groups gs))"

definition split_whitespace :: "string \<Rightarrow> string list" where
  "split_whitespace s = filter (\<lambda>w. w \<noteq> []) (split_groups (chars s))"

fun join :: "string \<Rightarrow> string list \<Rightarrow> string" where
  "join sep [] = []"
| "join sep [x] = x"
| "join sep (x # y # xs) = x @ sep @ join sep (y # xs)"

definition starts_with :: "string \<Rightarrow> string \<Rightarrow> bool" where
  "starts_with p s \<longleftrightarrow> take (length p) s = p"

definition strip_prefix :: "string \<Rightarrow> string \<Rightarrow> string option" where
  "strip_prefix p s = (if starts_with p s then Some (drop (length p) s) else None)"

fun contains_str :: "string \<Rightarrow> string \<Rightarrow> bool" where
  "contains_str p [] = (p = [])"
| "contains_str p (c # s) = (starts_with p (c # s) \<or> contains_str p s)"

subsection \<open>Numbers\<close>

fun digits_value :: "nat \<Rightarrow> string \<Rightarrow> nat option" where
  "digits_value n [] = Some n"
| "digits_value n (c # s) =
     (if 48 \<le> (of_char c :: nat) \<and> (of_char c :: nat) \<le> 57
      then digits_value (10 * n + ((of_char c :: nat) - 48)) s else None)"

definition parse_uint :: "nat \<Rightarrow> string \<Rightarrow> nat option" where
  "parse_uint w s =
     (let ds = (if starts_with ''+'' s then tl s else s)
      in if ds = [] then None
         else case digits_value 0 ds of None \<Rightarrow> None
           | Some n \<Rightarrow> if n < 2 ^ w then Some n else None)"

fun show_nat :: "nat \<Rightarrow> string" where
  "show_nat n = (if n < 10 then [char_of (48 + n)] else show_nat (n div 10) @ [char_of (48 + n mod 10)])"

declare show_nat.simps [simp del]

subsection \<open>Lossy UTF-8 decoding\<close>

definition cont_byte :: "byte list \<Rightarrow> nat \<Rightarrow> bool" where
  "cont_byte bs i \<longleftrightarrow> i < length bs \<and> 128 \<le> bs ! i \<and> bs ! i < 192"

definition second_byte :: "byte list \<Rightarrow> bool" where
  "second_byte bs \<longleftrightarrow> 1 < length bs \<and>
     (let b = bs ! 0; c = bs ! 1 in
        (b = 0xE0 \<and> 0xA0 \<le> c \<and> c \<le> 0xBF) \<or> (0xE1 \<le> b \<and> b \<le> 0xEC \<and> 0x80 \<le> c \<and> c \<le> 0xBF) \<or>
        (b = 0xED \<and> 0x80 \<le> c \<and> c \<le> 0x9F) \<or> (0xEE \<le> b \<and> b \<le> 0xEF \<and> 0x80 \<le> c \<and> c \<le> 0xBF) \<or>
        (b = 0xF0 \<and> 0x90 \<le> c \<and> c \<le> 0xBF) \<or> (0xF1 \<le> b \<and> b \<le> 0xF3 \<and> 0x80 \<le> c \<and> c \<le> 0xBF) \<or>
        (b = 0xF4 \<and> 0x80 \<le> c \<and> c \<le> 0x8F))"

text \<open>Whether the next sequence is well-formed, and how many bytes it takes.\<close>

definition utf8_chunk :: "byte list \<Rightarrow> bool \<times> nat" where
  "utf8_chunk bs =
     (let b = bs ! 0 in
      if b < 0x80 then (True, 1)
      else if 0xC2 \<le> b \<and> b \<le> 0xDF then (if cont_byte bs 1 then (True, 2) else (False, 1))
      else if 0xE0 \<le> b \<and> b \<le> 0xEF then
        (if \<not> second_byte bs then (False, 1) else if \<not> cont_byte bs 2 then (False, 2) else (True, 3))
      else if 0xF0 \<le> b \<and> b \<le> 0xF4 then
        (if \<not> second_byte bs then (False, 1) else if \<not> cont_byte bs 2 then (False, 2)
         else if \<not> cont_byte bs 3 then (False, 3) else (True, 4))
      else (False, 1))"

definition replacement :: string where
  "replacement = [CHR 0xEF, CHR 0xBF, CHR 0xBD]"

fun from_utf8_lossy :: "bytes \<Rightarrow> string" where
  "from_utf8_lossy [] = []"
| "from_utf8_lossy (b # bs) =
     (let (ok, n) = utf8_chunk (b # bs)
      in (if ok then map chr (take n (b # bs)) else replacement)
         @ from_utf8_lossy (drop (n - 1) bs))"

fun valid_utf8 :: "bytes \<Rightarrow> bool" where
  "valid_utf8 [] = True"
| "valid_utf8 (b # bs) =
     (let (ok, n) = utf8_chunk (b # bs) in ok \<and> valid_utf8 (drop (n - 1) bs))"

subsection \<open>Sequences of groups\<close>

text \<open>What \<open>chars\<close> produces, and trimming seen on the groups.\<close>

definition char_group :: "string \<Rightarrow> bool" where
  "char_group g \<longleftrightarrow> g \<noteq> [] \<and> list_all is_cont (tl g)"

definition group_seq :: "string list \<Rightarrow> bool" where
  "group_seq gs \<longleftrightarrow> list_all char_group gs \<and> list_all (\<lambda>g. \<not> is_cont (hd g)) (tl gs)"

definition trim_groups :: "string list \<Rightarrow> string list" where
  "trim_groups gs = rev (dropWhile is_whitespace (rev (dropWhile is_whitespace gs)))"

section \<open>Lemmas\<close>

subsection \<open>Bytes\<close>

lemma ord_chr [simp]: "ord (chr b) = b"
proof -
  have "unat b < 2 ^ LENGTH(8)" by (rule unsigned_less)
  then have "unat b < 256" by simp
  then show ?thesis by (simp add: ord_def chr_def)
qed

lemma chr_ord [simp]: "chr (ord c) = c"
proof -
  have "(of_char c :: nat) < 256" by simp
  then show ?thesis by (simp add: ord_def chr_def unat_of_nat)
qed

lemma ord_inject [simp]: "ord c = ord d \<longleftrightarrow> c = d"
  by (metis chr_ord)

lemma length_as_bytes [simp]: "length (as_bytes s) = length s"
  by (simp add: as_bytes_def)

lemma as_bytes_inject [simp]: "as_bytes s = as_bytes t \<longleftrightarrow> s = t"
  by (auto simp: as_bytes_def inj_map_eq_map inj_on_def)

lemma as_bytes_map_chr [simp]: "as_bytes (map chr bs) = bs"
  by (simp add: as_bytes_def comp_def)

subsection \<open>Scalar values and white space\<close>

lemma concat_chars [simp]: "concat (chars s) = s"
  by (induction s rule: chars.induct) simp_all

lemma chars_ascii: "list_all (\<lambda>c. \<not> is_cont c) s \<Longrightarrow> chars s = map (\<lambda>c. [c]) s"
proof (induction s)
  case (Cons c s)
  then have "takeWhile is_cont s = []" and "dropWhile is_cont s = s"
    by (cases s; simp)+
  with Cons show ?case by simp
qed simp

lemma length_chars_le: "length (chars s) \<le> length s"
proof (induction s rule: chars.induct)
  case (2 c s)
  then show ?case using length_dropWhile_le [of is_cont s] by simp
qed simp

lemma chars_eq_Nil [simp]: "chars s = [] \<longleftrightarrow> s = []"
  by (cases s) simp_all

text \<open>A trimmed text neither starts nor ends with white space; a text without any is kept.\<close>

lemma trim_no_whitespace: "\<not> list_ex is_whitespace (chars s) \<Longrightarrow> trim s = s"
proof -
  assume "\<not> list_ex is_whitespace (chars s)"
  then have none: "\<forall>g \<in> set (chars s). \<not> is_whitespace g"
    by (simp add: list_ex_iff)
  have keep: "dropWhile is_whitespace gs = gs" if "\<forall>g \<in> set gs. \<not> is_whitespace g" for gs
    using that by (cases gs) simp_all
  have "trim s = concat (chars s)"
    unfolding trim_def using none by (simp add: keep)
  then show ?thesis by simp
qed

text \<open>Grouping is determined by the groups: well-formed groups concatenate and split back.\<close>

lemma group_seq_Cons [simp]:
  "group_seq (g # gs) \<longleftrightarrow>
     char_group g \<and> group_seq gs \<and> (gs \<noteq> [] \<longrightarrow> \<not> is_cont (hd (hd gs)))"
  by (cases gs) (auto simp: group_seq_def)

lemma group_seq_Nil [simp]: "group_seq []"
  by (simp add: group_seq_def)

lemma takeWhile_group:
  assumes "list_all is_cont t" and "group_seq gs" and "gs \<noteq> [] \<longrightarrow> \<not> is_cont (hd (hd gs))"
  shows "takeWhile is_cont (t @ concat gs) = t" and "dropWhile is_cont (t @ concat gs) = concat gs"
proof -
  have all: "\<forall>c \<in> set t. is_cont c" using assms(1) by (simp add: list_all_iff)
  have "takeWhile is_cont (concat gs) = [] \<and> dropWhile is_cont (concat gs) = concat gs"
  proof (cases gs)
    case (Cons g hs)
    with assms(2,3) show ?thesis
      by (cases g) (simp_all add: char_group_def)
  qed simp
  then show "takeWhile is_cont (t @ concat gs) = t"
    and "dropWhile is_cont (t @ concat gs) = concat gs"
    using all by simp_all
qed

lemma chars_concat: "group_seq gs \<Longrightarrow> chars (concat gs) = gs"
proof (induction gs)
  case (Cons g gs)
  then obtain c t where g: "g = c # t" and t: "list_all is_cont t"
    by (cases g) (simp_all add: char_group_def)
  from Cons.prems have "group_seq gs" and hd: "gs \<noteq> [] \<longrightarrow> \<not> is_cont (hd (hd gs))"
    by simp_all
  then show ?case
    using Cons.IH takeWhile_group [OF t] by (simp add: g)
qed simp

lemma group_seq_chars: "group_seq (chars s)"
proof (induction s rule: chars.induct)
  case (2 c s)
  have "char_group (c # takeWhile is_cont s)"
    by (simp add: char_group_def list_all_iff) (meson set_takeWhileD)
  moreover have "\<not> is_cont (hd (hd (chars (dropWhile is_cont s))))"
    if "chars (dropWhile is_cont s) \<noteq> []"
  proof (cases "dropWhile is_cont s")
    case (Cons a r)
    moreover have "\<not> is_cont a" using Cons by (simp add: dropWhile_eq_Cons_conv)
    ultimately show ?thesis by simp
  qed (use that in simp)
  ultimately show ?case using 2 by simp
qed simp

lemma group_seq_dropWhile: "group_seq gs \<Longrightarrow> group_seq (dropWhile P gs)"
  by (induction gs) auto

lemma group_seq_take: "group_seq gs \<Longrightarrow> group_seq (take n gs)"
  by (induction gs arbitrary: n) (auto simp: take_Cons' hd_take)

lemma rev_dropWhile_rev_take: "\<exists>n. rev (dropWhile P (rev gs)) = take n gs"
  by (metis dropWhile_eq_drop rev_drop rev_rev_ident)

lemma chars_trim: "chars (trim s) = trim_groups (chars s)"
proof -
  let ?d = "dropWhile is_whitespace (chars s)"
  obtain n where n: "rev (dropWhile is_whitespace (rev ?d)) = take n ?d"
    using rev_dropWhile_rev_take by blast
  have "group_seq (take n ?d)"
    by (intro group_seq_take group_seq_dropWhile group_seq_chars)
  then show ?thesis
    using chars_concat n by (simp add: trim_def trim_groups_def)
qed

lemma trim_groups_ends:
  assumes "trim_groups gs \<noteq> []"
  shows "\<not> is_whitespace (hd (trim_groups gs))" and "\<not> is_whitespace (last (trim_groups gs))"
proof -
  let ?d = "dropWhile is_whitespace gs"
  obtain n where n: "trim_groups gs = take n ?d"
    using rev_dropWhile_rev_take [of is_whitespace ?d] by (auto simp: trim_groups_def)
  with assms have "?d \<noteq> []" and "hd (trim_groups gs) = hd ?d"
    by (auto simp: hd_take)
  then show "\<not> is_whitespace (hd (trim_groups gs))"
    using hd_dropWhile by metis
  show "\<not> is_whitespace (last (trim_groups gs))"
    using assms hd_dropWhile [of is_whitespace "rev ?d"] by (simp add: trim_groups_def last_rev)
qed

lemma trim_groups_id:
  assumes "gs \<noteq> [] \<longrightarrow> \<not> is_whitespace (hd gs) \<and> \<not> is_whitespace (last gs)"
  shows "trim_groups gs = gs"
proof (cases "gs = []")
  case False
  with assms have "dropWhile is_whitespace gs = gs"
    by (cases gs) simp_all
  moreover from False assms have "dropWhile is_whitespace (rev gs) = rev gs"
    by (cases gs rule: rev_cases) simp_all
  ultimately show ?thesis by (simp add: trim_groups_def)
qed (simp add: trim_groups_def)

lemma trim_trim [simp]: "trim (trim s) = trim s"
proof -
  have "trim_groups (chars (trim s)) = chars (trim s)"
    unfolding chars_trim using trim_groups_ends by (intro trim_groups_id) blast
  then have "chars (trim (trim s)) = chars (trim s)"
    by (simp add: chars_trim)
  then show ?thesis by (metis concat_chars)
qed

lemma length_trim_le: "length (trim s) \<le> length s"
proof -
  obtain n where "trim s = concat (take n (dropWhile is_whitespace (chars s)))"
    unfolding trim_def using rev_dropWhile_rev_take by metis
  then obtain n m where t: "trim s = concat (take n (drop m (chars s)))"
    by (metis dropWhile_eq_drop)
  have "length (concat (take n (drop m (chars s)))) \<le> length (concat (chars s))"
    by (metis append_take_drop_id concat_append le_add1 le_add2 le_trans length_append)
  with t show ?thesis by simp
qed

subsection \<open>Case and splitting\<close>

lemma ascii_lower_idem [simp]: "ascii_lower (ascii_lower c) = ascii_lower c"
  by (auto simp: ascii_lower_def)

lemma to_ascii_lowercase_idem [simp]:
  "to_ascii_lowercase (to_ascii_lowercase s) = to_ascii_lowercase s"
  by (simp add: to_ascii_lowercase_def comp_def)

lemma length_to_ascii_lowercase [simp]: "length (to_ascii_lowercase s) = length s"
  by (simp add: to_ascii_lowercase_def)

lemma split_once_Some: "split_once d s = Some (l, r) \<longleftrightarrow> s = l @ d # r \<and> d \<notin> set l"
proof (induction s arbitrary: l)
  case (Cons c s)
  show ?case
    using Cons.IH by (cases l) auto
qed simp

lemma split_once_None: "split_once d s = None \<longleftrightarrow> d \<notin> set s"
  by (induction s) auto

lemma split_on_not_Nil [simp]: "split_on d s \<noteq> []"
  by (cases s) simp_all

lemma split_on_no_sep: "d \<notin> set s \<Longrightarrow> split_on d s = [s]"
  by (induction s) auto

lemma split_on_append: "d \<notin> set r \<Longrightarrow> split_on d (s @ d # r) = split_on d s @ [r]"
  by (induction s) (simp_all add: split_on_no_sep)

lemma last_split_on: "d \<notin> set r \<Longrightarrow> last (split_on d (s @ d # r)) = r"
  by (simp add: split_on_append)

lemma strip_prefix_Some: "strip_prefix p s = Some r \<longleftrightarrow> s = p @ r"
  by (auto simp: strip_prefix_def starts_with_def) (metis append_take_drop_id)

lemma starts_with_append [simp]: "starts_with p (p @ s)"
  by (simp add: starts_with_def)

lemma contains_str_iff: "contains_str p s \<longleftrightarrow> (\<exists>l r. s = l @ p @ r)"
proof (induction s)
  case (Cons c s)
  have "starts_with p (c # s) \<longleftrightarrow> (\<exists>r. c # s = p @ r)"
    by (auto simp: starts_with_def) (metis append_take_drop_id)
  with Cons.IH show ?case
    by (auto simp: Cons_eq_append_conv)
qed simp

subsection \<open>Numbers\<close>

lemma digits_value_append:
  "digits_value n (s @ t) = (case digits_value n s of None \<Rightarrow> None | Some m \<Rightarrow> digits_value m t)"
  by (induction s arbitrary: n) auto

lemma show_nat_digits: "digits_value 0 (show_nat n) = Some n \<and> show_nat n \<noteq> [] \<and> hd (show_nat n) \<noteq> CHR ''+''"
proof (induction n rule: show_nat.induct)
  case (1 n)
  show ?case
  proof (cases "n < 10")
    case True
    then have u: "show_nat n = [char_of (48 + n)]" by (subst show_nat.simps) simp
    have "char_of (48 + n) \<noteq> CHR ''+''"
    proof
      assume "char_of (48 + n) = CHR ''+''"
      then have "(of_char (char_of (48 + n)) :: nat) = of_char (CHR ''+'')" by simp
      with True show False by simp
    qed
    with True show ?thesis by (simp add: u)
  next
    case False
    then have u: "show_nat n = show_nat (n div 10) @ [char_of (48 + n mod 10)]"
      by (subst show_nat.simps) simp
    have IH: "digits_value 0 (show_nat (n div 10)) = Some (n div 10)"
      "show_nat (n div 10) \<noteq> []" "hd (show_nat (n div 10)) \<noteq> CHR ''+''"
      using 1 False by simp_all
    show ?thesis
      unfolding u using IH by (simp add: digits_value_append)
  qed
qed

lemma parse_uint_show_nat: "parse_uint w (show_nat n) = (if n < 2 ^ w then Some n else None)"
proof -
  have "\<not> starts_with ''+'' (show_nat n)"
    using show_nat_digits [of n] by (cases "show_nat n") (auto simp: starts_with_def)
  then show ?thesis
    using show_nat_digits [of n] by (simp add: parse_uint_def Let_def)
qed

lemma parse_uint_bound: "parse_uint w s = Some n \<Longrightarrow> n < 2 ^ w"
  by (auto simp: parse_uint_def Let_def split: if_splits option.splits)

subsection \<open>Lossy decoding\<close>

lemma utf8_chunk_pos: "utf8_chunk bs = (ok, n) \<Longrightarrow> 1 \<le> n"
  by (auto simp: utf8_chunk_def Let_def split: if_splits)

lemma utf8_chunk_fits: "utf8_chunk bs = (ok, n) \<Longrightarrow> bs \<noteq> [] \<Longrightarrow> n \<le> length bs"
  by (auto simp: utf8_chunk_def cont_byte_def second_byte_def Let_def neq_Nil_conv split: if_splits)

lemma from_utf8_lossy_valid: "valid_utf8 bs \<Longrightarrow> from_utf8_lossy bs = map chr bs"
proof (induction bs rule: from_utf8_lossy.induct)
  case (2 b bs)
  obtain ok n where c: "utf8_chunk (b # bs) = (ok, n)" by (cases "utf8_chunk (b # bs)")
  with "2.prems" have ok and v: "valid_utf8 (drop (n - 1) bs)" by simp_all
  obtain m where n: "n = Suc m" using utf8_chunk_pos [OF c] by (cases n) simp_all
  have "from_utf8_lossy (drop (n - 1) bs) = map chr (drop (n - 1) bs)"
    using "2.IH" c v by simp
  then show ?case
    using c \<open>ok\<close> n by (simp flip: map_append)
qed simp

lemma utf8_chunk_append:
  assumes c: "utf8_chunk (b # bs) = (True, n)"
  shows "utf8_chunk (take n (b # bs) @ rest) = (True, n)"
proof -
  let ?xs = "b # bs" and ?ys = "take n (b # bs) @ rest"
  have len: "n \<le> length ?xs" using utf8_chunk_fits [OF c] by simp
  have nth: "?ys ! i = ?xs ! i" if "i < n" for i
    using that len by (simp add: nth_append)
  have longer: "length ?ys \<ge> n" using len by simp
  have hd: "?ys ! 0 = ?xs ! 0" using nth utf8_chunk_pos [OF c] by simp
  have cont: "cont_byte ?ys i = cont_byte ?xs i" if "i < n" for i
    using that nth len longer by (simp only: cont_byte_def) simp
  have second: "second_byte ?ys = second_byte ?xs" if "1 < n"
  proof -
    have "1 < length ?xs" and "1 < length ?ys" using that len longer by linarith+
    then show ?thesis using that nth [of 1] hd by (simp only: second_byte_def Let_def)
  qed
  show ?thesis
    using c cont [of 1] cont [of 2] cont [of 3] second
    unfolding utf8_chunk_def Let_def hd by (simp split: if_splits)
qed

lemma valid_utf8_chunk_append:
  assumes "utf8_chunk (b # bs) = (True, n)" and "valid_utf8 rest"
  shows "valid_utf8 (take n (b # bs) @ rest)"
proof -
  obtain m where n: "n = Suc m" using utf8_chunk_pos [OF assms(1)] by (cases n) simp_all
  have len: "length (take m bs) = m"
    using utf8_chunk_fits [OF assms(1)] n by simp
  show ?thesis
    using utf8_chunk_append [OF assms(1), of rest] assms(2) n len by simp
qed

lemma valid_utf8_replacement_append: "valid_utf8 rest \<Longrightarrow> valid_utf8 (as_bytes replacement @ rest)"
  by (simp add: as_bytes_def replacement_def ord_def utf8_chunk_def cont_byte_def second_byte_def Let_def)

lemma valid_utf8_from_utf8_lossy: "valid_utf8 (as_bytes (from_utf8_lossy bs))"
proof (induction bs rule: from_utf8_lossy.induct)
  case (2 b bs)
  obtain ok n where c: "utf8_chunk (b # bs) = (ok, n)" by (cases "utf8_chunk (b # bs)")
  then have IH: "valid_utf8 (as_bytes (from_utf8_lossy (drop (n - 1) bs)))"
    using "2.IH" by simp
  have app: "as_bytes (s @ t) = as_bytes s @ as_bytes t" for s t
    by (simp add: as_bytes_def)
  show ?case
  proof (cases ok)
    case True
    then show ?thesis
      using c IH valid_utf8_chunk_append [of b bs n] by (simp add: app)
  next
    case False
    then show ?thesis
      using c IH valid_utf8_replacement_append by (simp add: app)
  qed
qed (simp add: as_bytes_def)

end
