(* ===== verification/Crypto_Keys.thy ===== *)
theory Crypto_Keys
  imports Rust_Text
begin

text \<open>
  \<^verbatim>\<open>src/crypto/keys.rs\<close>: validation of uploaded public keys. The Ed25519 point decoder and its
  weakness test (the ed25519-dalek crate) are parameters; the X25519 blocklist is the
  source's own: here it is decoded to numbers, and theory \<^verbatim>\<open>Curve25519\<close> compares those with the
  arithmetic of the curve.
\<close>

unbundle bit_operations_syntax

section \<open>Definitions\<close>

definition PUBLIC_KEY_LEN :: nat where "PUBLIC_KEY_LEN = 32"

definition validate_ed25519_public_key ::
  "(bytes \<Rightarrow> 'pt option) \<Rightarrow> ('pt \<Rightarrow> bool) \<Rightarrow> bytes \<Rightarrow> string + bytes" where
  "validate_ed25519_public_key from_bytes is_weak bs =
     (if length bs \<noteq> PUBLIC_KEY_LEN then Inl ''ed25519 public key must be exactly 32 bytes''
      else case from_bytes bs of
          None \<Rightarrow> Inl ''ed25519 public key is not a valid curve point''
        | Some key \<Rightarrow>
            if is_weak key then Inl ''ed25519 public key is a weak (small-order) point''
            else Inr bs)"

definition SMALL_ORDER :: "bytes list" where
  "SMALL_ORDER =
    [replicate 32 0,
     1 # replicate 31 0,
     [0xe0, 0xeb, 0x7a, 0x7c, 0x3b, 0x41, 0xb8, 0xae, 0x16, 0x56, 0xe3, 0xfa, 0xf1, 0x9f,
      0xc4, 0x6a, 0xda, 0x09, 0x8d, 0xeb, 0x9c, 0x32, 0xb1, 0xfd, 0x86, 0x62, 0x05, 0x16,
      0x5f, 0x49, 0xb8, 0x00],
     [0x5f, 0x9c, 0x95, 0xbc, 0xa3, 0x50, 0x8c, 0x24, 0xb1, 0xd0, 0xb1, 0x55, 0x9c, 0x83,
      0xef, 0x5b, 0x04, 0x44, 0x5c, 0xc4, 0x58, 0x1c, 0x8e, 0x86, 0xd8, 0x22, 0x4e, 0xdd,
      0xd0, 0x9f, 0x11, 0x57],
     0xec # replicate 30 0xff @ [0x7f],
     0xed # replicate 30 0xff @ [0x7f],
     0xee # replicate 30 0xff @ [0x7f]]"

definition mask_high_bit :: "bytes \<Rightarrow> bytes" where
  "mask_high_bit k = k[31 := (k ! 31) AND 0x7f]"

definition is_small_order_x25519 :: "bytes \<Rightarrow> bool" where
  "is_small_order_x25519 key =
     (let masked = mask_high_bit key
      in list_ex (\<lambda>p. mask_high_bit p = masked) SMALL_ORDER)"

definition validate_x25519_public_key :: "bytes \<Rightarrow> string + bytes" where
  "validate_x25519_public_key bs =
     (if length bs \<noteq> PUBLIC_KEY_LEN then Inl ''x25519 public key must be exactly 32 bytes''
      else if is_small_order_x25519 bs then Inl ''x25519 public key is a small-order point''
      else Inr bs)"

subsection \<open>Reference: keys as numbers\<close>

text \<open>
  A public key is the little-endian u-coordinate with bit 255 ignored; \<open>blocked_u\<close> holds the
  numbers the comments of the list give.
\<close>

fun le_value :: "bytes \<Rightarrow> nat" where
  "le_value [] = 0"
| "le_value (b # bs) = unat b + 256 * le_value bs"

definition u_coordinate :: "bytes \<Rightarrow> nat" where
  "u_coordinate k = le_value k mod 2 ^ 255"

definition blocked_u :: "nat list" where
  "blocked_u =
    [0, 1,
     325606250916557431795983626356110631294008115727848805560023387167927233504,
     39382357235489614581723060781553021112529911719440698176882885853963445705823,
     2 ^ 255 - 20, 2 ^ 255 - 19, 2 ^ 255 - 18]"

section \<open>Lemmas\<close>

lemma le_value_less: "le_value bs < 256 ^ length bs"
proof (induction bs)
  case (Cons b bs)
  have "unat b < 2 ^ LENGTH(8)" by (rule unsigned_less)
  then have "unat b \<le> 255" by simp
  moreover have "256 * le_value bs + 256 \<le> 256 * 256 ^ length bs"
    using Cons.IH by linarith
  ultimately show ?case by simp
qed simp

lemma base_digit_inject:
  fixes a b x y m :: nat
  assumes "a < m" and "b < m"
  shows "a + m * x = b + m * y \<longleftrightarrow> a = b \<and> x = y"
proof
  assume eq: "a + m * x = b + m * y"
  then have "(a + m * x) mod m = (b + m * y) mod m" by (rule arg_cong)
  with assms have "a = b" by simp
  with eq assms show "a = b \<and> x = y" by simp
qed simp

lemma mod_base_digit:
  fixes l m b n :: nat
  assumes "l < m"
  shows "(l + m * b) mod (m * n) = l + m * (b mod n)"
  using assms by (simp add: mod_mult2_eq)

lemma le_value_inject: "length as = length bs \<Longrightarrow> le_value as = le_value bs \<longleftrightarrow> as = bs"
proof (induction as bs rule: list_induct2)
  case (Cons a as b bs)
  have "unat a < 2 ^ LENGTH(8)" and "unat b < 2 ^ LENGTH(8)" by (rule unsigned_less)+
  then have "unat a < 256" and "unat b < 256" by simp_all
  then have "unat a + 256 * le_value as = unat b + 256 * le_value bs \<longleftrightarrow>
      unat a = unat b \<and> le_value as = le_value bs"
    by (rule base_digit_inject)
  with Cons.IH show ?case by (simp add: word_unat_eq_iff)
qed simp

lemma le_value_append: "le_value (as @ bs) = le_value as + 256 ^ length as * le_value bs"
  by (induction as) (simp_all add: algebra_simps)

lemma length_mask_high_bit [simp]: "length (mask_high_bit k) = length k"
  by (simp add: mask_high_bit_def)

lemma unat_mask7: "unat ((b :: byte) AND 0x7f) = unat b mod 128"
proof -
  have "b AND 0x7f = take_bit 7 b"
    by (simp add: take_bit_eq_mask mask_eq_exp_minus_1)
  then show ?thesis by (simp add: unat_mod take_bit_eq_mod)
qed

text \<open>Masking the top byte is reduction of the number modulo \<open>2 ^ 255\<close>.\<close>

lemma le_value_mask_high_bit:
  assumes "length k = 32"
  shows "le_value (mask_high_bit k) = u_coordinate k"
proof -
  obtain i b where k: "k = i @ [b]" and i: "length i = 31"
    using assms by (cases k rule: rev_cases) auto
  have low: "le_value i < 256 ^ 31" using le_value_less [of i] i by simp
  have "mask_high_bit k = i @ [b AND 0x7f]"
    using i by (simp add: mask_high_bit_def k nth_append list_update_append)
  then have "le_value (mask_high_bit k) = le_value i + 256 ^ 31 * (unat b mod 128)"
    using i by (simp add: le_value_append unat_mask7)
  also have "\<dots> = (le_value i + 256 ^ 31 * unat b) mod (256 ^ 31 * 128)"
    by (rule mod_base_digit [OF low, symmetric])
  also have "\<dots> = u_coordinate k"
    using i by (simp add: u_coordinate_def k le_value_append)
  finally show ?thesis .
qed

lemma SMALL_ORDER_lengths: "list_all (\<lambda>p. length p = 32) SMALL_ORDER"
  by (simp add: SMALL_ORDER_def)

lemma replicate_bytes:
  "replicate 30 x = [x, x, x, x, x, x, x, x, x, x, x, x, x, x, x, x, x, x, x, x, x, x, x, x, x,
     x, x, x, x, x]"
  "replicate 31 x = x # replicate 30 x"
  "replicate 32 x = x # x # replicate 30 x"
  by (simp_all add: numeral_eq_Suc)

lemma u_coordinate_small: "le_value k < 2 ^ 255 \<Longrightarrow> u_coordinate k = le_value k"
  by (simp only: u_coordinate_def mod_less)

lemma SMALL_ORDER_values: "map u_coordinate SMALL_ORDER = blocked_u"
  by (simp add: SMALL_ORDER_def blocked_u_def u_coordinate_small replicate_bytes)

text \<open>The byte-wise comparison decides membership of the u-coordinate in the blocklist.\<close>

lemma is_small_order_iff:
  assumes "length k = 32"
  shows "is_small_order_x25519 k \<longleftrightarrow> u_coordinate k \<in> set blocked_u"
proof -
  have "mask_high_bit p = mask_high_bit k \<longleftrightarrow> u_coordinate p = u_coordinate k"
    if "p \<in> set SMALL_ORDER" for p
  proof -
    have p: "length p = 32" using that SMALL_ORDER_lengths by (simp add: list_all_iff)
    then have "mask_high_bit p = mask_high_bit k \<longleftrightarrow>
        le_value (mask_high_bit p) = le_value (mask_high_bit k)"
      using assms by (intro le_value_inject [symmetric]) simp
    then show ?thesis using p assms by (simp add: le_value_mask_high_bit)
  qed
  then have "is_small_order_x25519 k \<longleftrightarrow> (\<exists>p \<in> set SMALL_ORDER. u_coordinate p = u_coordinate k)"
    by (simp add: is_small_order_x25519_def Let_def list_ex_iff)
  also have "\<dots> \<longleftrightarrow> u_coordinate k \<in> set blocked_u"
    unfolding SMALL_ORDER_values [symmetric] by (metis (no_types, lifting) image_iff set_map)
  finally show ?thesis .
qed

lemma validate_x25519_iff:
  "validate_x25519_public_key k = Inr k' \<longleftrightarrow>
     k' = k \<and> length k = 32 \<and> u_coordinate k \<notin> set blocked_u"
  by (auto simp: validate_x25519_public_key_def PUBLIC_KEY_LEN_def is_small_order_iff)

end
