(* ===== verification/Primality.thy ===== *)
theory Primality
  imports Main
begin

text \<open>
  Primality of the field of Curve25519, from the definition: Fermat's theorem, a test with an
  element of known order, and the means to evaluate its premises on large numbers. The blocklist
  of \<^verbatim>\<open>src/crypto/keys.rs\<close> is complete because the field has no zero divisors.
\<close>

section \<open>Definitions\<close>

definition is_prime :: "nat \<Rightarrow> bool" where
  "is_prime p \<longleftrightarrow> 1 < p \<and> (\<forall>d. d dvd p \<longrightarrow> d = 1 \<or> d = p)"

text \<open>
  Powers of \<open>b\<close> modulo \<open>n\<close> by squaring and multiplying, with the quotient of every reduction given;
  \<open>exponent\<close> is the power a list of steps leads to.
\<close>

definition square :: "int \<Rightarrow> int" where
  "square x = x * x"

primrec steps :: "int \<Rightarrow> int \<Rightarrow> int \<Rightarrow> (bool \<times> int) list \<Rightarrow> int" where
  "steps n b x [] = x"
| "steps n b x (s # ss) = steps n b ((if fst s then x * b else square x) - snd s * n) ss"

primrec exponent :: "int \<Rightarrow> (bool \<times> int) list \<Rightarrow> int" where
  "exponent e [] = e"
| "exponent e (s # ss) = exponent (if fst s then e + 1 else 2 * e) ss"

section \<open>Lemmas\<close>

lemma square_code [code]:
  "square (Int.Pos k) = Int.Pos (Num.sqr k)" "square (Int.Neg k) = Int.Pos (Num.sqr k)" "square 0 = 0"
  by (simp_all add: square_def Num.sqr_conv_mult)

lemma steps_correct:
  "0 \<le> e \<Longrightarrow> x mod n = b ^ nat e mod n \<Longrightarrow> steps n b x ss mod n = b ^ nat (exponent e ss) mod n"
proof (induction ss arbitrary: e x)
  case (Cons s ss)
  let ?y = "(if fst s then x * b else square x) - snd s * n"
  let ?f = "if fst s then e + 1 else 2 * e"
  have "?y mod n = (if fst s then x * b else square x) mod n"
    using mod_mult_self3 [of "- snd s" n "if fst s then x * b else square x"] by (simp add: algebra_simps)
  also have "\<dots> = (if fst s then (x mod n) * b else (x mod n) * (x mod n)) mod n"
    by (simp add: square_def mod_simps)
  also have "\<dots> = b ^ nat ?f mod n"
    using Cons.prems by (auto simp: mod_simps nat_add_distrib nat_mult_distrib power_add mult.commute
        simp flip: power2_eq_square power_mult)
  finally have "?y mod n = b ^ nat ?f mod n" .
  with Cons.IH [of ?f ?y] Cons.prems(1) show ?case by simp
qed simp

lemma steps_append: "steps n b x (ss @ ts) = steps n b (steps n b x ss) ts"
  by (induction ss arbitrary: x) simp_all

lemma exponent_append: "exponent e (ss @ ts) = exponent (exponent e ss) ts"
  by (induction ss arbitrary: e) simp_all

subsection \<open>Primes\<close>

lemma prime_dvd_mult:
  assumes "is_prime p" and "p dvd a * b"
  shows "p dvd a \<or> p dvd b"
proof (cases "p dvd a")
  case False
  have "gcd p a dvd p" by simp
  then have "gcd p a = 1 \<or> gcd p a = p" using assms(1) unfolding is_prime_def by blast
  moreover have "gcd p a \<noteq> p" using False by (metis gcd_dvd2)
  ultimately have "coprime p a" by (simp add: coprime_iff_gcd_eq_1)
  then show ?thesis using assms(2) by (simp add: coprime_dvd_mult_right_iff)
qed simp

lemma prime_dvd_power: "is_prime p \<Longrightarrow> p dvd a ^ n \<Longrightarrow> p dvd a"
proof (induction n)
  case 0
  then show ?case by (simp add: is_prime_def)
next
  case (Suc n)
  then show ?case using prime_dvd_mult by auto
qed

lemma prime_divisor: "1 < n \<Longrightarrow> \<exists>d. is_prime d \<and> d dvd n"
proof (induction n rule: less_induct)
  case (less n)
  show ?case
  proof (cases "is_prime n")
    case False
    then obtain d where d: "d dvd n" "d \<noteq> 1" "d \<noteq> n" using less.prems by (auto simp: is_prime_def)
    then have "d < n" "1 < d" using less.prems by (auto dest: dvd_imp_le simp: nat_neq_iff)
    with less.IH d(1) show ?thesis by (meson dvd_trans)
  qed auto
qed

lemma small_prime_divisor:
  assumes "1 < n" and "\<not> is_prime n"
  shows "\<exists>d. is_prime d \<and> d dvd n \<and> d * d \<le> n"
proof -
  obtain a where a: "a dvd n" "a \<noteq> 1" "a \<noteq> n" using assms by (auto simp: is_prime_def)
  then obtain b where b: "n = a * b" by (elim dvdE)
  have ab: "1 < a" "1 < b" using a b assms(1) by (auto simp: nat_neq_iff)
  have "\<exists>x. 1 < x \<and> x dvd n \<and> x * x \<le> n"
  proof (cases "a \<le> b")
    case True
    then show ?thesis using ab b by (intro exI [of _ a]) simp
  next
    case False
    then show ?thesis using ab b by (intro exI [of _ b]) simp
  qed
  then obtain x where x: "1 < x" "x dvd n" "x * x \<le> n" by blast
  then obtain d where d: "is_prime d" "d dvd x" using prime_divisor by blast
  then have "d \<le> x" using x(1) by (intro dvd_imp_le) simp_all
  then have "d * d \<le> n" using x(3) mult_le_mono [of d x d x] by simp
  with d x(2) show ?thesis using dvd_trans by blast
qed

lemma is_prime_trial:
  assumes "1 < n" and "n < k * k" and "list_all (\<lambda>d. n mod d \<noteq> 0) [2..<k]"
  shows "is_prime n"
proof (rule ccontr)
  assume "\<not> is_prime n"
  then obtain d where d: "is_prime d" "d dvd n" "d * d \<le> n" using small_prime_divisor assms(1) by blast
  then have "d * d < k * k" using assms(2) by simp
  then have "d < k" by (metis not_le mult_le_mono)
  then show False using assms(3) d(1,2) by (auto simp: list_all_iff is_prime_def mod_eq_0_iff_dvd)
qed

subsection \<open>Fermat\<close>

lemma prime_dvd_choose:
  assumes "is_prime p" and "0 < k" and "k < p"
  shows "p dvd (p choose k)"
proof -
  obtain q where q: "p = Suc q" using assms(3) by (cases p) simp_all
  obtain j where j: "k = Suc j" using assms(2) by (cases k) simp_all
  have "p dvd (p choose k) * k" using Suc_times_binomial_eq [of q j] q j by (metis dvd_triv_left)
  moreover have "\<not> p dvd k" using assms(2,3) by (auto dest: dvd_imp_le)
  ultimately show ?thesis using prime_dvd_mult [OF assms(1)] by blast
qed

lemma fermat_add:
  assumes "is_prime p"
  shows "(a + 1) ^ p mod p = (a ^ p + 1) mod p"
proof -
  have p: "1 < p" using assms by (simp add: is_prime_def)
  have "(a + 1) ^ p = (\<Sum>k\<le>p. (p choose k) * a ^ k)"
    using binomial [of a 1 p] by simp
  also have "\<dots> = (\<Sum>k \<in> {0<..<p}. (p choose k) * a ^ k) + (a ^ p + 1)"
  proof -
    have "{..p} = insert 0 (insert p {0<..<p})" using p by auto
    then show ?thesis using p by simp
  qed
  finally have "(a + 1) ^ p = (\<Sum>k \<in> {0<..<p}. (p choose k) * a ^ k) + (a ^ p + 1)" .
  moreover have "p dvd (\<Sum>k \<in> {0<..<p}. (p choose k) * a ^ k)"
    using prime_dvd_choose [OF assms] by (intro dvd_sum dvd_mult2) simp
  ultimately show ?thesis by (metis dvd_eq_mod_eq_0 mod_add_left_eq add_0)
qed

lemma fermat_power: "is_prime p \<Longrightarrow> a ^ p mod p = a mod p"
proof (induction a)
  case 0
  then show ?case by (simp add: is_prime_def power_0_left)
next
  case (Suc a)
  have "Suc a ^ p mod p = (a ^ p mod p + 1) mod p"
    using fermat_add [OF Suc.prems, of a] by (simp add: mod_Suc_eq)
  also have "\<dots> = Suc a mod p" using Suc by (simp add: mod_Suc_eq)
  finally show ?case .
qed

lemma fermat:
  assumes "is_prime p" and "\<not> p dvd a"
  shows "a ^ (p - 1) mod p = 1"
proof -
  have p: "1 < p" using assms(1) by (simp add: is_prime_def)
  have pos: "1 \<le> a ^ (p - 1)" using assms(2) by (cases a) simp_all
  have "a ^ p = a * a ^ (p - 1)" using p by (cases p) simp_all
  then have "a * a ^ (p - 1) mod p = a * 1 mod p" using fermat_power [OF assms(1), of a] by simp
  then have "p dvd a * a ^ (p - 1) - a * 1"
    using mod_eq_dvd_iff_nat [of "a * 1" "a * a ^ (p - 1)" p] pos by simp
  then have "p dvd a * (a ^ (p - 1) - 1)" by (simp only: diff_mult_distrib2)
  then have "p dvd a ^ (p - 1) - 1" using prime_dvd_mult [OF assms(1)] assms(2) by blast
  then have "a ^ (p - 1) mod p = 1 mod p" using mod_eq_dvd_iff_nat [of 1 "a ^ (p - 1)" p] pos by blast
  then show ?thesis using p by simp
qed

subsection \<open>Orders\<close>

lemma power_gcd_one:
  fixes b d :: nat
  assumes "1 < d"
  shows "b ^ m mod d = 1 \<Longrightarrow> b ^ n mod d = 1 \<Longrightarrow> b ^ gcd m n mod d = 1"
proof (induction m n rule: gcd_nat_induct)
  case (step m n)
  have "b ^ m = (b ^ n) ^ (m div n) * b ^ (m mod n)" by (simp flip: power_mult power_add)
  then have "b ^ m mod d = ((b ^ n mod d) ^ (m div n) * b ^ (m mod n)) mod d"
    by (metis mod_mult_left_eq power_mod)
  then have "b ^ (m mod n) mod d = 1" using step.prems by simp
  with step show ?case by (metis gcd_red_nat)
qed simp

lemma order_divides:
  assumes "is_prime d" and "is_prime q" and "b ^ q mod d = 1" and "b mod d \<noteq> 1"
  shows "q dvd d - 1"
proof -
  have d: "1 < d" and q: "1 < q" using assms(1,2) by (simp_all add: is_prime_def)
  have "\<not> d dvd b"
  proof
    assume "d dvd b"
    then have "d dvd b ^ q" using q by (intro dvd_trans [OF _ dvd_power]) simp_all
    with assms(3) show False by simp
  qed
  then have "b ^ gcd q (d - 1) mod d = 1" using fermat [OF assms(1)] power_gcd_one [OF d assms(3)] by blast
  moreover have "gcd q (d - 1) = 1 \<or> gcd q (d - 1) = q" using assms(2) unfolding is_prime_def by (meson gcd_dvd1)
  ultimately show ?thesis using assms(4) by (metis gcd_dvd2 power_one_right)
qed

subsection \<open>A test\<close>

lemma divisor_one_mod:
  assumes "1 < q" and "\<And>d. is_prime d \<Longrightarrow> d dvd n \<Longrightarrow> q dvd d - 1"
  shows "0 < x \<Longrightarrow> x dvd n \<Longrightarrow> x mod q = 1"
proof (induction x rule: less_induct)
  case (less x)
  show ?case
  proof (cases "x = 1")
    case False
    then obtain d where d: "is_prime d" "d dvd x" using prime_divisor [of x] less.prems(1) by auto
    then obtain y where y: "x = d * y" by (elim dvdE)
    have d1: "1 < d" using d(1) by (simp add: is_prime_def)
    have "d dvd n" using d(2) less.prems(2) by (rule dvd_trans)
    then have "d mod q = 1 mod q" using assms(2) [OF d(1)] mod_eq_dvd_iff_nat [of 1 d q] d1 by simp
    moreover have "y mod q = 1"
    proof (rule less.IH)
      show "0 < y" "y < x" using less.prems(1) y d1 by auto
      show "y dvd n" using less.prems(2) y by (metis dvd_mult_right)
    qed
    ultimately show ?thesis using y assms(1) by (metis mod_mult_eq mult_1 mod_less)
  qed (use assms(1) in simp)
qed

text \<open>
  If \<open>b\<close> has order \<open>q\<close> modulo every prime factor of \<open>n\<close>, all divisors of \<open>n\<close> are 1 modulo \<open>q\<close>, and
  two of them leave a small residue of \<open>(n - 1) div q\<close>.
\<close>

lemma order_test:
  assumes "is_prime q" and "q * c = n - 1" and "1 < n" and "b ^ q mod n = 1" and "1 \<le> b" and "(b - 1) * i mod n = 1"
    and "n < q * q \<or> n div (q * q) + 1 < c mod q"
  shows "is_prime n"
proof (rule ccontr)
  assume "\<not> is_prime n"
  have q: "1 < q" using assms(1) by (simp add: is_prime_def)
  have "q dvd d - 1" if d: "is_prime d" "d dvd n" for d
  proof (rule order_divides [OF d(1) assms(1)])
    have d1: "1 < d" using d(1) by (simp add: is_prime_def)
    have "b ^ q mod d = b ^ q mod n mod d" using d(2) by (simp add: mod_mod_cancel)
    then show "b ^ q mod d = 1" using assms(4) d1 by simp
    show "b mod d \<noteq> 1"
    proof
      assume "b mod d = 1"
      then have "d dvd b - 1" using mod_eq_dvd_iff_nat [of 1 b d] assms(5) d1 by simp
      then have "(b - 1) * i mod n mod d = 0" using d(2) by (simp add: mod_mod_cancel)
      then show False using assms(6) d1 by simp
    qed
  qed
  note one = divisor_one_mod [OF q this]
  obtain x where "x dvd n" "x \<noteq> 1" "x \<noteq> n" using \<open>\<not> is_prime n\<close> assms(3) by (auto simp: is_prime_def)
  moreover from this(1) obtain y where "n = x * y" by (elim dvdE)
  ultimately have n: "n = x * y" "1 < x" "1 < y" using assms(3) by (auto simp: nat_neq_iff)
  have "x mod q = 1" "y mod q = 1" using one [of x] one [of y] n by simp_all
  then obtain a a' where x: "x = a * q + 1" and y: "y = a' * q + 1" by (metis div_mult_mod_eq)
  have pos: "0 < a" "0 < a'" using n x y by (auto intro: ccontr)
  have "q * c = q * (a * a' * q + (a + a'))" using assms(2) n x y by (simp add: algebra_simps)
  then have c: "c = a * a' * q + (a + a')" using q by simp
  have "a * a' * (q * q) \<le> n" using n x y by (simp add: algebra_simps)
  then have small: "a * a' \<le> n div (q * q)" using q by (simp add: less_eq_div_iff_mult_less_eq)
  have "a + a' \<le> a * a' + 1" using pos by (cases a; cases a') simp_all
  moreover have "c mod q \<le> a + a'" using c by (metis mod_less_eq_dividend mod_mult_self3)
  moreover have "n div (q * q) \<noteq> 0" using small mult_pos_pos [OF pos] by linarith
  then have "\<not> n < q * q" by (metis div_less)
  ultimately show False using assms(7) small by linarith
qed

text \<open>The premises as evaluated on integers.\<close>

lemma order_testI:
  fixes n b i c q :: int
  assumes "is_prime (nat q)" and "0 \<le> q" and "0 \<le> b" and "0 \<le> i" and "0 \<le> c"
    and "q * c = n - 1" and "1 < n" and "b ^ nat q mod n = 1" and "1 \<le> b" and "(b - 1) * i mod n = 1"
    and "n < q * q \<or> n div (q * q) + 1 < c mod q"
  shows "is_prime (nat n)"
proof (rule order_test [where q = "nat q" and b = "nat b" and i = "nat i" and c = "nat c"])
  show "nat q * nat c = nat n - 1" using assms by (simp flip: nat_mult_distrib) 
  show "nat b ^ nat q mod nat n = 1" using assms by (simp flip: nat_power_eq nat_mod_distrib)
  show "(nat b - 1) * nat i mod nat n = 1"
  proof -
    have "nat b - 1 = nat (b - 1)" using assms(9) by simp
    then show ?thesis using assms by (simp flip: nat_mult_distrib nat_mod_distrib)
  qed
  show "nat n < nat q * nat q \<or> nat n div (nat q * nat q) + 1 < nat c mod nat q"
  proof (cases "n < q * q")
    case True
    then show ?thesis using assms by (simp flip: nat_mult_distrib)
  next
    case False
    then have "n div (q * q) + 1 < c mod q" using assms(11) by simp
    moreover have nonneg: "0 \<le> n div (q * q)" using assms(2,7) by (intro div_int_pos_iff [THEN iffD2]) simp
    ultimately have "nat (n div (q * q)) + 1 < nat (c mod q)" by linarith
    moreover have "nat (n div (q * q)) = nat n div (nat q * nat q)"
      using assms(2,7) by (simp add: nat_div_distrib nat_mult_distrib)
    moreover have "nat (c mod q) = nat c mod nat q" using assms(2,5) by (simp add: nat_mod_distrib)
    ultimately show ?thesis by simp
  qed
qed (use assms in simp_all)

lemma steps_power:
  assumes "steps n b b ss = 1" and "exponent 1 ss = q" and "1 < n"
  shows "b ^ nat q mod n = 1"
  using steps_correct [of 1 b n b ss] assms by simp

end
