(* ===== verification/Prime25519.thy ===== *)
theory Prime25519
  imports Primality
begin

text \<open>
  \<open>2 ^ 255 - 19\<close> is prime, and 2 is not a square modulo it. The chain of primes goes from 991 up
  by the order test; each certificate is an element, the prime that is its order, and the
  quotients of the reductions. Modulo \<open>2 ^ 255 - 19\<close> itself the powers of 2 are reduced by
  folding the high bits.
\<close>

section \<open>Definitions\<close>

definition p25519 :: int where "p25519 = 2 ^ 255 - 19"

definition fold255 :: "int \<Rightarrow> int" where
  "fold255 y = (let h = drop_bit 255 y in y - push_bit 255 h + 19 * h)"

primrec doublings :: "int \<Rightarrow> bool list \<Rightarrow> int" where
  "doublings x [] = x"
| "doublings x (d # ds) =
     doublings (fold255 (fold255 (let y = square x in if d then 2 * y else y))) ds"

primrec doublings_exponent :: "int \<Rightarrow> bool list \<Rightarrow> int" where
  "doublings_exponent e [] = e"
| "doublings_exponent e (d # ds) = doublings_exponent (if d then 2 * e + 1 else 2 * e) ds"

subsection \<open>Certificates\<close>

definition powers_24 :: "(bool \<times> int) list" where
  "powers_24 = [(False, 1376726), (True, 774522), (False, 6625813), (True, 1193242), (False, 7747497), (True, 2012303),
      (False, 5368926), (False, 3398944), (True, 2148569), (False, 234153), (True, 195630), (False, 4909068),
      (True, 772774), (False, 2958046), (True, 2456714), (False, 6872110), (True, 1307045)]"

definition powers_51 :: "(bool \<times> int) list" where
  "powers_51 = [(False, 585276009466472), (False, 74596583223300), (False, 10851953017714), (False, 16458659019002),
      (False, 526881666920155), (False, 1521329548793915), (True, 91190502356579), (False, 314199499905003),
      (False, 1561746025954846), (True, 351843686631655), (False, 1871022815267149), (True, 66430821239896),
      (False, 117050771264077), (False, 406621672129529), (True, 1028621161746300), (False, 1717197400666580),
      (False, 274161398760401), (True, 168068390712382), (False, 624453378483741), (False, 1874187831867743),
      (False, 1113345060731486), (True, 657932870742959), (False, 1653580215887711), (False, 248479878550901),
      (True, 91051799940749), (False, 154878903173901), (True, 606879580462158), (False, 50199675054245),
      (False, 281262561783692), (True, 632990297738272), (False, 1288791759499647), (False, 480123057488833),
      (True, 448814534773895)]"

definition powers_116_0 :: "(bool \<times> int) list" where
  "powers_116_0 = [(False, 42682667773232268908414017687438046), (True, 43167941454978631853885532493949764),
      (False, 1704804192405731279737627904507422), (False, 322393624243290837381199608455),
      (True, 17242930842531343492042401309098551), (False, 754658628359550589924993813264442),
      (True, 44885053517926231977951274358462984), (False, 25422203068193056891041644502487381),
      (False, 34407740899438114764535399580280571), (True, 54734475141785150176454090562513827),
      (False, 9808163637598135403272131796267207), (False, 2603502244084601673036428407930800),
      (False, 18133012002749197640021129008412144), (False, 68488320487820852693680135519074494),
      (True, 35691285335268854832693215772895031), (False, 26698749989116566583575785553969701),
      (True, 30829578000266422385391535031786900), (False, 3115771156118959595468564969629432),
      (True, 29695408078762780592442511714877699), (False, 730616304749782310959424184321),
      (False, 68207756706945927034860657168529418), (False, 3366722188364485494000464704922514),
      (True, 32817123564796105957546781321704412), (False, 766695770156751960061421594445302),
      (False, 72953358783499368629595614446925480), (True, 22448103304257207187218578648877541),
      (False, 559461975150145453687258686838385), (False, 24017947105189956925118291322555313),
      (True, 40291180958917862938427239325921830), (False, 894789392291130386748223669787196),
      (True, 22348400038553320152252583613025332), (False, 3396362144726706123781895481899201),
      (True, 22945342578498811126148818162058805), (False, 1224216534602642292381448468437180),
      (True, 49516226855366120671909334056079781), (False, 69387732586316482150369421071802866),
      (True, 51449853075928900328024514284640737), (False, 3167647752087569441554968090963106),
      (False, 944815024393513024985962526866608), (True, 10271198633307099535452332332253414),
      (False, 1613479781328479465639793051223655), (False, 2641738950619894507590785452807825),
      (False, 37526914823943958910080381260554357), (False, 26871925135651925933812383086651105),
      (False, 30446519833863040573779245929834467), (True, 21158231927495784635471207646264028),
      (False, 9440080022894247132141175071273717), (False, 24050643229381293002752198397144717),
      (False, 19054431800903764400105031593211033), (True, 18603328427563793255683330482902394),
      (False, 2013370752222354783810455807157140), (False, 1003326754032217339821580787477747),
      (True, 47958030347309184641852713906083014), (False, 27693560414414528431216449307394349),
      (False, 62114115077357068251183257580271704), (False, 6495149359602180723693337486668727),
      (True, 56602068603462949642767972201015117), (False, 2581947600107605706462303626171683),
      (True, 36668384451806535047313919122866432), (False, 55479759697138254179825709808748625)]"

definition powers_116_1 :: "(bool \<times> int) list" where
  "powers_116_1 = [(True, 30785058154398312611651986303205923), (False, 27117305289104624766705239956373212),
      (False, 31709738843901400648792627658332937), (True, 37315475900659884539699508020469460),
      (False, 68391263965941036794183684091547211), (False, 15634116355205325020052829918971681),
      (False, 21061015730378805098826059511387286), (False, 3977212407571928205963724511970200),
      (False, 2065687892958114948186276876399224), (True, 19348241911641249879669491713674382),
      (False, 39431463799781294555109685238030663), (False, 10569202816768767948240748534860388),
      (True, 43815776709512256766166920489406651), (False, 37984406223556856190287473984044584),
      (True, 49240474670391259850952302711305239)]"

definition powers_236_0 :: "(bool \<times> int) list" where
  "powers_236_0 = [(False, 65205092805010724058509481693911802619497405283393978071762564183930444),
      (True, 67108776754716563558359131737122969815423170650741816270466108813239670),
      (False, 48754033455787053227143250412045333334252480844947036772933228974055733),
      (True, 16062869737830452286135292225366587270596661777555495181428833768230351),
      (False, 1992044547522082840579823863848383951479760126893298429157976816839057),
      (False, 77495087822445039079237264852361491862349524716315893842090587760477),
      (True, 14353425086282504865737892801806681191071694404662773140019397762072761),
      (False, 25811195467384353434457944471153312082667498091259637099023528689681779),
      (False, 39586705650244590695114303733652350290825800877551089867879372803562923),
      (False, 1719359524721729166941880383596714815496190213261955054039419103370057),
      (False, 57059728776402460545016788136365993048673996778021577359657008303012132),
      (False, 5254082551642884870011616403604822228042039257669484825247234726285907),
      (True, 11664012020694149654050661273693827585045177861513306420757057816684433),
      (False, 3671169224758582565215260573731736558182603699177323017635958900429533),
      (True, 8720186023837842309767968243216656650878169910138828063952753679830250),
      (False, 49457816986520061052599828384610406585150744543594384139565917418218757),
      (True, 58785274864172564978238097271020834217664697322979236184322714387021570),
      (False, 3227023997730027750792216689738321783827199670966315820861771213203059),
      (True, 26610247660490374552054940016104018364878402077384779744687697381681945),
      (False, 11276933891097541106464235840547451075223872140517113775716415003063673),
      (True, 57875955052131959558502596530324751273525002035917155990402107957411303),
      (False, 26602779239921558788100578704185384953606828239746201324354901174354861),
      (False, 47368825971504306033897494700467706248979121775547851107423351671733895),
      (False, 33741417690624116755479172582783739043935572728498516834502474980944029),
      (False, 19152177423829149052695310406872935094047919710772752700298999907421803),
      (False, 68030315171967995624612023372973203793377214663234964543718524123344646),
      (True, 49025061969894815286382672160878370128335376781274009396112150831644401),
      (False, 3246073522717165390452652653399498760296061110700142160580998009540588),
      (False, 67685711579467504042020316749784514532869345476316547024711972559743930),
      (True, 37219694950425653862102296185332327637520676949714989786509485013580225),
      (False, 196352199067417461586538443491426526047572085524668185936767153628965),
      (False, 40043779383283579835539427345705655331709482317719760620099548571901320),
      (True, 23539675661558012232298456547767905733907991314407689878651609924483279),
      (False, 24985600616398588476382660049299169997743606881761720902256868822427871),
      (False, 28013885066242269479414017535318597878811308220692180015997314870649215),
      (False, 34249023559248143987794474991313829488921458333334835164171686982698733),
      (True, 7561146440667794974608053673946236214971220586135317968429200450155468),
      (False, 12265475625868077988065236866554469718489044089065477196321414362409142),
      (False, 26689041771813581363380054609209693809111114489788329739337277570061037),
      (False, 16499872207280321900179574448284649955831219928363297244469708580385072),
      (False, 9890158973842764382112685306967015267831400813015361299506339412315039),
      (True, 51216118948826337561448492802124399820274916464456518651862656646570861),
      (False, 8189918376804531515019646162821105934229566551986171142858254659619616),
      (True, 25983430764161101014843601966375779213667230034178689103714190041938609),
      (False, 15119421676554684452994739473067336927314888216892096428379405400378566),
      (True, 57606319428775264901460797103922311334590154155581923553275258987235413),
      (False, 49460243766368912895369284531014703936433329475250143928248516387071258),
      (False, 59703783316854360543473686271218222885712683409227846422244892485008601),
      (True, 23595946996193845935960268753943988643992004739927462772895180512696304),
      (False, 263564422116533214393332283404658758901866257377273961427067469841220),
      (True, 67208599099045115917747962944181933971886561148223622861679083926670477),
      (False, 66214005086249253360918057493976021345058515020597983734481941087258877),
      (True, 15018689340246172964656092481139191702453203241408251988468295986589023),
      (False, 369778876740107772530320027032034935752067621280820209089429776356115),
      (True, 16431989887486870082753651452953517014627514238468363765682353232225426),
      (False, 46624889278103816124299780701435866171754795843127711460850521153151417),
      (False, 1121945544442864793568882036408278439350928599833624924415931836106136),
      (True, 2526661726763840876788438902282405926214657634834609147754987782055538),
      (False, 42001011064232579314635855604726054825791334143320717714621909947461369),
      (True, 24775668487527579274730279228878205837523061080061206676130742974624860)]"

definition powers_236_1 :: "(bool \<times> int) list" where
  "powers_236_1 = [(False, 10704529096027493516037434422122975800621396136341392691888139893058473),
      (True, 67576053677180330616629943233089163057864940632717198085502128324908644),
      (False, 20568886201696959215637305926335050245365419721114267411974152033892708),
      (False, 14594552379243094315235564341915492122223041191843309119298066224582439),
      (False, 856224790580052648252299607152212072189013623184275505554596131482877),
      (False, 13403013605414843918867045137427116402619455850082241461207262329311297),
      (False, 3679275102475609907240638876579281944543892446948478182562086072149),
      (False, 54657292555168066080301140898266457306844266982155826042111064728784748),
      (False, 42738964943021804069947805343069192078977057644627253621634363969057860),
      (True, 56205855445438440236647810987738117080710262840673622649599182826979733),
      (False, 21167059843573265940468394185102077516431699487291598051644216090572862),
      (False, 4887397071614313035138393844401345559971169193937482126138499577974131),
      (True, 18583681278401715142462043954640822404743085539767961164081728777971741),
      (False, 471133309775613513804156902465727190351247947935434179165677761001309),
      (False, 49732110164126861449830064672323737440126069532694360385137330888591845),
      (True, 22821544648871855760513227236970689698521603379489326161688890430263565),
      (False, 10821354606241405317794069652878288959864772123749136179126587037146337),
      (True, 63094737944137360166187736190325576317940489773958894676842222411024999),
      (False, 49493950184732922062618604491832068055065704410839160204936910378105841),
      (False, 9229230604839820148052983257870110306586399473899350493420252141743732),
      (True, 67340915076543384513009003184130505597310359112906807477410026726079663),
      (False, 3074592691184918147012371785573497143633698834739218891079059484857158),
      (False, 8708192061399118207022194496784019117026021617358432798585932307902202),
      (False, 2167227369559085140387686768707649366183382497312460294858956601574189),
      (False, 41501344011055878027643310336518411140250074860301155159649017640292832),
      (False, 31316633190646780728872806054252730655893188300041124740030491933550437),
      (True, 27441812164163053134291350223640052757847712613260698417090983914692235),
      (False, 373969890312900118544229126412572430169734908288163451271111946862383),
      (False, 38688609440843711594316916478688868534955272662912979965440702112866707),
      (True, 54317239511560344076899158100271338562567700196816271730110459001874524),
      (False, 11154272384371786707675360186922517067854776095864250549691304733472193),
      (True, 9753884413545468491735223752452997229226578631209222447755767141750354),
      (False, 66745213961716712285034807504196165748305986619441218882659596756894301),
      (True, 26689592992122105573968516746931357266504905926683550465438161709441499),
      (False, 495573918218776861380724171170418784838998889059210415490969498773328),
      (True, 60640824705736395538887086456924856282947218605859274906178996780823542),
      (False, 989704628073063231095820929019139151043285892299353321348922055185932),
      (False, 18267759353532207287850845191533534497452139509581697424459241542928740),
      (False, 5122671840209806959243918648614486318311731927635657571519742729909160),
      (True, 16066525013127683941679139187632153290609120369601453348169778737255281),
      (False, 15184578705937526338526358130788060576123757098324868410199272675449356),
      (False, 35975334465651789807785177244734236811536386770838770066952163788661616),
      (False, 739274289414022646774464145240794244789092288023062619159609308135695),
      (True, 31543624804143795401372149552915992081545793673204590011312017661732400),
      (False, 475385250379037911428009816078093438984740553851885802262762110947451),
      (True, 13452116438780701927195980153696448685219192449278152595987828510904498),
      (False, 36466999030324605872082704842055594744717493798636621540665652048406948),
      (False, 55004364641658049268359706502261789168972459018865883579382640152360359),
      (True, 21829330322759278034277462956182953248690603805369642106925978877366230),
      (False, 1861417083375131924960273513537136971098806446276249139986536237447695),
      (True, 35391430490981821719144748504152791201964658868197925618944096232753167),
      (False, 47367715441001941765585224182725185753889923557605212507899915190210918),
      (True, 12674574165301964505604330386436462672418603274578541889088401142548999),
      (False, 46415819834257952514320518238710910999477737200338844505459032051911712),
      (True, 36650037069100384833547429129123105587514032731558891090824558060714992),
      (False, 1246914328207901965502055734768863998105084011736624059396702840171716),
      (False, 411163978793913020809755564137080449168040554734500982072209574661681),
      (False, 20680203824837290405677642799755814983843657334489347001551863326444898),
      (False, 75029254196689794430275267164123708730657508367121999897084790701015),
      (False, 66256509922562041776007394466599533436829780029580822964288723670445917)]"

definition powers_236_2 :: "(bool \<times> int) list" where
  "powers_236_2 = [(True, 19795200700236032567627679408872024934274778346093238382124088317352464),
      (False, 3617414423056635936164762571874875245632601679595711958371020546856789),
      (True, 54619076298411294535919018338255534466571299997354744143184092305831927),
      (False, 71314974975200237269576219547222593489964896670541065193354625386437375),
      (True, 5605000442312209084657542412497824648948151226264505795909561492386768),
      (False, 25524501183175336964893809329725528581276922837225211827632694692920017),
      (False, 67545246814914206555510569272041410566927562837474306531880467245350535),
      (False, 2433811652954976446060677822264118504712033849679919066133967844411249),
      (True, 19573171462138868370597061816294790746578931010824396237925858755621860),
      (False, 58597769147144158860280490858118705987368021379214692177348956682345935),
      (True, 50978107636977944895883400349337756630531496002185406468732525757895695),
      (False, 11162313869968576515117901105762276234650500029858282335513160301618019),
      (True, 26021926029705267306572385665179760247177316692952380056917083498482706),
      (False, 32485039313650495733778635901500989062662224396470847936228617904626554),
      (False, 12015572869932427919200703816676405295190818850461994554887197143694409),
      (False, 67645410464056020291764130372201244713728318268693952233537681964055978),
      (True, 4481464758201904612982906281703871931913990366860139741262820846553342),
      (False, 2404181834683087747573735740496693382824306071752325178736159234308968),
      (False, 12911890733443662437870278040266188928121363695954865311490784876767423),
      (True, 61867585502088436564056292990031118840903759777216446308235688345952388),
      (False, 7395346814834053161877071080853646497522339231157375605502364060337947),
      (False, 5574733482811244416150700755546758509533645355876461549431049288844139),
      (True, 8461816785630873519629144540758674407849527313528842800763268139437516),
      (False, 73063314519516522595067256047994990589025411354408059274244836846212388),
      (True, 55585556555868434557961957481260651888940438833367041915890425569110408),
      (False, 41480766939531886757752126080578861010283027324772500907309750197605960),
      (False, 49395696636338470509773213147369423275155950816694401315599061755072271),
      (True, 26321995030059542187392211992399305672098535795321082300499076396491368),
      (False, 22535225817822580475519486307097207275372423197513404460453010476385460),
      (True, 30436625674361816423063821037764902312924634725134499166843372323385690),
      (False, 3099715448518685330731312581106687872287884043853220667458884116402562),
      (False, 20801555119138840270325815258914311696646353856782977944637692196616791),
      (False, 4402266398855072408339201084159379108419914924117673180691019192438839),
      (True, 41274422245873464419576769973861877198521597167538645368041074959575125),
      (False, 30367920777232129737365332987832592167098977868788655489964996288999037),
      (False, 11298777996592259094026465602406538519439907213081122675098930372451111),
      (False, 47827324963318527226872765211885122871788173377908600896210549462544749),
      (False, 14866586650519854300916907170797561111957928368969584812869041382607893),
      (True, 22355399220105113948387135333194952395221317176037053679233075792785398),
      (False, 20002206472258976189974690351086820492846459329747843790756595422885157),
      (True, 45412459443297955005665002142502904683064377528452142724603826936777894),
      (False, 70868603250153519378692636054206735112269282144954987635334025317336552),
      (True, 7465074707932490213541332621627190996967475363880004591218042675552023),
      (False, 6094822037954634333781480133724469997040453822377760382967329043139679),
      (True, 9134943146323052919360786964091734127958690349699166205912217736325330),
      (False, 2249738784554913891590711062235887986955683583338371044713315653267054),
      (True, 38018361285673923921986679794750033810570273275652288554627546840233233),
      (False, 101817610682277321359453038157104900226200602485406133978052427895134),
      (False, 62272853866573745222688651779577081439260343594998990237507930535249240),
      (False, 20839886359199365023455090999758192084558698981523213750387234013997285),
      (False, 445583823130102042323416983019884121463496204912738054085708061107101),
      (False, 761836012509048889151232221825974324058459990596777649045071413693108),
      (True, 63164892100600648141694461383294205373336902973130516144913564536463157)]"

section \<open>Lemmas\<close>

lemma p25519_eq: "p25519 = 57896044618658097711785492504343953926634992332820282019728792003956564819949"
  by (simp add: p25519_def)

lemma fold255_mod: "fold255 y mod p25519 = y mod p25519"
proof -
  have "fold255 y = y + p25519 * - drop_bit 255 y"
    by (simp add: fold255_def Let_def push_bit_eq_mult p25519_def algebra_simps)
  then show ?thesis by (metis mod_mult_self2)
qed

lemma doublings_correct:
  "0 \<le> e \<Longrightarrow> x mod p25519 = 2 ^ nat e mod p25519 \<Longrightarrow>
     doublings x ds mod p25519 = 2 ^ nat (doublings_exponent e ds) mod p25519"
proof (induction ds arbitrary: e x)
  case (Cons d ds)
  let ?y = "fold255 (fold255 (let y = square x in if d then 2 * y else y))"
  let ?e = "if d then 2 * e + 1 else 2 * e"
  have square: "x * x mod p25519 = 2 ^ nat (2 * e) mod p25519"
  proof -
    have "nat (2 * e) = nat e + nat e" using Cons.prems(1) by simp
    then show ?thesis using mod_mult_cong [OF Cons.prems(2) Cons.prems(2)] by (simp only: power_add)
  qed
  moreover have "nat (2 * e + 1) = Suc (nat (2 * e))" using Cons.prems(1) by simp
  ultimately have "?y mod p25519 = 2 ^ nat ?e mod p25519"
    using mod_mult_cong [OF refl square, of 2] by (cases d) (simp_all add: fold255_mod square_def)
  with Cons.IH [of ?e ?y] Cons.prems(1) show ?case by simp
qed simp

lemma doublings_power:
  assumes "doublings 2 ds = y" and "doublings_exponent 1 ds = e" and "y mod p25519 = z"
  shows "2 ^ nat e mod p25519 = z"
  using doublings_correct [of 1 2 ds] assms by simp

lemma doublings_append: "doublings x (ds @ es) = doublings (doublings x ds) es"
  by (induction ds arbitrary: x) simp_all

lemma doublings_exponent_append: "doublings_exponent e (ds @ es) = doublings_exponent (doublings_exponent e ds) es"
  by (induction ds arbitrary: e) simp_all

lemma doublings_0:
  "doublings 2 (replicate 63 True) =
     18878952571897396674442432668174851814068411255301696874725003248685998027586"
  "doublings_exponent 1 (replicate 63 True) =
     18446744073709551615"
  by code_simp+

lemma doublings_1:
  "doublings 18878952571897396674442432668174851814068411255301696874725003248685998027586 (replicate 63 True) =
     50503907384779849179363696987365820920550266664725850379172394941928600753056"
  "doublings_exponent 18446744073709551615 (replicate 63 True) =
     170141183460469231731687303715884105727"
  by code_simp+

lemma doublings_2:
  "doublings 50503907384779849179363696987365820920550266664725850379172394941928600753056 (replicate 63 True) =
     44543206194479786795328863844863295531809228891211781783131460436919471891318"
  "doublings_exponent 170141183460469231731687303715884105727 (replicate 63 True) =
     1569275433846670190958947355801916604025588861116008628223"
  by code_simp+

lemma doublings_3:
  "doublings 44543206194479786795328863844863295531809228891211781783131460436919471891318 (replicate 60 True) =
     57692109581687170544952182944730090749826224675958039702824471609347838771772"
  "doublings_exponent 1569275433846670190958947355801916604025588861116008628223 (replicate 60 True) =
     1809251394333065553493296640760748560207343510400633813116524750123642650623"
  by code_simp+

lemma doublings_4:
  "doublings 57692109581687170544952182944730090749826224675958039702824471609347838771772 ([False, True, True, False]) =
     57896044618658097711785492504343953926634992332820282019728792003956564819948"
  "doublings_exponent 1809251394333065553493296640760748560207343510400633813116524750123642650623 ([False, True, True, False]) =
     28948022309329048855892746252171976963317496166410141009864396001978282409974"
  by code_simp+

text \<open>Two is not a square: Euler's criterion.\<close>

lemma two_nonresidue: "2 ^ nat 28948022309329048855892746252171976963317496166410141009864396001978282409974 mod p25519 = p25519 - 1"
proof -
  let ?ds = "replicate 63 True @ replicate 63 True @ replicate 63 True @ replicate 60 True @ [False, True, True, False]"
  show ?thesis
  proof (rule doublings_power)
    show "doublings 2 (?ds) = 57896044618658097711785492504343953926634992332820282019728792003956564819948"
      by (simp only: doublings_append doublings_0(1) doublings_1(1) doublings_2(1) doublings_3(1) doublings_4(1))
    show "doublings_exponent 1 (?ds) = 28948022309329048855892746252171976963317496166410141009864396001978282409974"
      by (simp only: doublings_exponent_append doublings_0(2) doublings_1(2) doublings_2(2) doublings_3(2) doublings_4(2))
    show "57896044618658097711785492504343953926634992332820282019728792003956564819948 mod p25519 = p25519 - 1" by code_simp
  qed
qed

lemma two_power: "2 ^ nat 781764 mod p25519 = 427094198651976259540344842774561673889945192655078505504941250475370961481 mod p25519"
  by (rule doublings_power [where ds = "[False, True, True, True, True, True, False, True, True, False, True, True, True, False, False, False, True, False, False]"]) code_simp+

subsection \<open>The chain\<close>

lemma prime_991: "is_prime (nat 991)"
  by (rule is_prime_trial [of _ 32]) (simp_all add: upt_rec)

lemma powers_24_run:
  "steps 8574133
     3435729
     3435729 powers_24 =
     1"
  "exponent 1 powers_24 = 991"
  by code_simp+

lemma prime_8574133: "is_prime (nat 8574133)"
proof -
  have "3435729 ^ nat 991 mod 8574133 = (1 :: int)"
    by (rule steps_power [where ss = "powers_24"])
      (simp only: steps_append powers_24_run, simp only: exponent_append powers_24_run, code_simp)
  then show ?thesis
    by (rule order_testI [where i = 1014251 and c = 8652, OF prime_991, rotated 6]) code_simp+
qed

lemma powers_51_run:
  "steps 1919519569386763
     1059928654987441
     1059928654987441 powers_51 =
     1"
  "exponent 1 powers_51 = 8574133"
  by code_simp+

lemma prime_51_bits: "is_prime (nat 1919519569386763)"
proof -
  have "1059928654987441 ^ nat 8574133 mod 1919519569386763 = (1 :: int)"
    by (rule steps_power [where ss = "powers_51"])
      (simp only: steps_append powers_51_run, simp only: exponent_append powers_51_run, code_simp)
  then show ?thesis
    by (rule order_testI [where i = 1290547218147893 and c = 223873314, OF prime_8574133, rotated 6]) code_simp+
qed

lemma powers_116_0_run:
  "steps 75445702479781427272750846543864801
     56747016255153332959347766392083459
     56747016255153332959347766392083459 powers_116_0 =
     40929030134312714681419135575127000"
  "exponent 1 powers_116_0 = 1874530829478"
  by code_simp+

lemma powers_116_1_run:
  "steps 75445702479781427272750846543864801
     56747016255153332959347766392083459
     40929030134312714681419135575127000 powers_116_1 =
     1"
  "exponent 1874530829478 powers_116_1 = 1919519569386763"
  by code_simp+

lemma prime_116_bits: "is_prime (nat 75445702479781427272750846543864801)"
proof -
  have "56747016255153332959347766392083459 ^ nat 1919519569386763 mod 75445702479781427272750846543864801 = (1 :: int)"
    by (rule steps_power [where ss = "powers_116_0 @ powers_116_1"])
      (simp only: steps_append powers_116_0_run powers_116_1_run, simp only: exponent_append powers_116_0_run powers_116_1_run, code_simp)
  then show ?thesis
    by (rule order_testI [where i = 74602835786463724888147869570305675 and c = 39304471641247389600, OF prime_51_bits, rotated 6]) code_simp+
qed

lemma powers_236_0_run:
  "steps 74058212732561358302231226437062788676166966415465897661863160754340907
     69490809710348678725736597923071784769591275419387514694139338586948360
     69490809710348678725736597923071784769591275419387514694139338586948360 powers_236_0 =
     28155963719885292663869233263185011440794308128056499501030933989264660"
  "exponent 1 powers_236_0 = 998515558267"
  by code_simp+

lemma powers_236_1_run:
  "steps 74058212732561358302231226437062788676166966415465897661863160754340907
     69490809710348678725736597923071784769591275419387514694139338586948360
     28155963719885292663869233263185011440794308128056499501030933989264660 powers_236_1 =
     21096274322495181654056228316694004908583996016909017325399247074749681"
  "exponent 998515558267 powers_236_1 = 4391517867321464423599584"
  by code_simp+

lemma powers_236_2_run:
  "steps 74058212732561358302231226437062788676166966415465897661863160754340907
     69490809710348678725736597923071784769591275419387514694139338586948360
     21096274322495181654056228316694004908583996016909017325399247074749681 powers_236_2 =
     1"
  "exponent 4391517867321464423599584 powers_236_2 = 75445702479781427272750846543864801"
  by code_simp+

lemma prime_236_bits: "is_prime (nat 74058212732561358302231226437062788676166966415465897661863160754340907)"
proof -
  have "69490809710348678725736597923071784769591275419387514694139338586948360 ^ nat 75445702479781427272750846543864801 mod 74058212732561358302231226437062788676166966415465897661863160754340907 = (1 :: int)"
    by (rule steps_power [where ss = "powers_236_0 @ powers_236_1 @ powers_236_2"])
      (simp only: steps_append powers_236_0_run powers_236_1_run powers_236_2_run, simp only: exponent_append powers_236_0_run powers_236_1_run powers_236_2_run, code_simp)
  then show ?thesis
    by (rule order_testI [where i = 70463328703800545008217672123162676565183935400628861884889913886334520 and c = 981609426360740691344999861639072106, OF prime_116_bits, rotated 6]) code_simp+
qed

text \<open>The powers stay symbolic: literals only enter where they are evaluated.\<close>

lemma power_half:
  assumes "2 ^ nat h mod n = n - 1" and "n - 1 = 2 * h" and "1 < (n :: int)"
  shows "2 ^ nat (n - 1) mod n = 1"
proof -
  have "2 ^ nat (n - 1) = ((2 :: int) ^ nat h) ^ 2"
    using assms(2,3) by (simp add: nat_mult_distrib mult.commute flip: power_mult)
  then have "2 ^ nat (n - 1) mod n = (n - 1) ^ 2 mod n" using assms(1) by (metis power_mod)
  moreover have "(n - 1) ^ 2 = 1 + n * (n - 2)" by (simp add: power2_eq_square algebra_simps)
  ultimately show ?thesis using assms(3) by simp
qed

lemma power_order:
  assumes "2 ^ nat (n - 1) mod n = 1" and "n - 1 = c * q" and "2 ^ nat c mod n = b mod n" and "0 \<le> c" and "0 \<le> (q :: int)"
  shows "b ^ nat q mod n = 1"
proof -
  have "b ^ nat q mod n = (2 ^ nat c) ^ nat q mod n" using assms(3) by (metis power_mod)
  also have "\<dots> = 2 ^ nat (n - 1) mod n" using assms(2,4,5) by (simp add: nat_mult_distrib flip: power_mult)
  finally show ?thesis using assms(1) by simp
qed

lemma prime_p25519: "is_prime (nat p25519)"
proof -
  let ?q = "74058212732561358302231226437062788676166966415465897661863160754340907 :: int" and ?b = "427094198651976259540344842774561673889945192655078505504941250475370961481 :: int"
  have "2 ^ nat (p25519 - 1) mod p25519 = 1" by (rule power_half [OF two_nonresidue]) code_simp+
  then have "?b ^ nat ?q mod p25519 = 1" by (rule power_order [OF _ _ two_power]) code_simp+
  then show ?thesis
    by (rule order_testI [where c = 781764 and i = 55540832096118778044507775605005710249233119951144946814680141076505643269084, OF prime_236_bits, rotated 6])
      code_simp+
qed

end
