(* ===== verification/Field25519.thy ===== *)
theory Field25519
  imports Prime25519
begin

text \<open>
  The integers modulo \<open>2 ^ 255 - 19\<close> as a field: no zero divisors, and no square is twice a
  square, so a quadratic form whose discriminant is twice a square vanishes at zero only.
\<close>

section \<open>Lemmas\<close>

lemma p25519_pos: "1 < p25519"
  by (simp add: p25519_eq)

lemma p25519_odd: "\<not> p25519 dvd 2"
  by (simp add: p25519_eq)

lemma p25519_dvd_nat: "p25519 dvd a \<longleftrightarrow> nat p25519 dvd nat \<bar>a\<bar>"
  using nat_abs_dvd_iff [of p25519 "nat \<bar>a\<bar>"] p25519_pos by simp

lemma field_mult: "p25519 dvd a * b \<longleftrightarrow> p25519 dvd a \<or> p25519 dvd b"
proof
  assume "p25519 dvd a * b"
  then have "nat p25519 dvd nat \<bar>a\<bar> * nat \<bar>b\<bar>"
    unfolding p25519_dvd_nat by (simp add: abs_mult nat_mult_distrib)
  then show "p25519 dvd a \<or> p25519 dvd b"
    unfolding p25519_dvd_nat by (rule prime_dvd_mult [OF prime_p25519])
qed auto

lemma field_fermat:
  assumes "\<not> p25519 dvd a" and "p25519 - 1 = 2 * h"
  shows "(a * a) ^ nat h mod p25519 = 1"
proof -
  have e: "nat p25519 - 1 = 2 * nat h" using assms(2) p25519_pos by simp
  have "int (nat \<bar>a\<bar> ^ (nat p25519 - 1) mod nat p25519) = 1"
    using fermat [OF prime_p25519, of "nat \<bar>a\<bar>"] assms(1) by (simp add: p25519_dvd_nat)
  then have "\<bar>a\<bar> ^ (nat p25519 - 1) mod p25519 = 1"
    using p25519_pos by (simp add: zmod_int)
  then show ?thesis unfolding e power_mult by (simp add: power2_eq_square)
qed

lemma half_nonresidue:
  obtains h where "p25519 - 1 = 2 * h" and "2 ^ nat h mod p25519 = p25519 - 1"
proof -
  have "p25519 - 1 = 2 * 28948022309329048855892746252171976963317496166410141009864396001978282409974"
    by (simp add: p25519_eq)
  then show ?thesis using two_nonresidue by (rule that)
qed

lemma twice_a_square:
  assumes "p25519 dvd x * x - 2 * (y * y)"
  shows "p25519 dvd y"
proof (rule ccontr)
  assume y: "\<not> p25519 dvd y"
  obtain h where h: "p25519 - 1 = 2 * h" "2 ^ nat h mod p25519 = p25519 - 1" by (rule half_nonresidue)
  have x: "\<not> p25519 dvd x"
  proof
    assume "p25519 dvd x"
    then have "p25519 dvd 2 * (y * y)" using assms by (metis dvd_diff_right_iff dvd_mult2)
    then show False using y p25519_odd by (simp add: field_mult)
  qed
  have "x * x mod p25519 = 2 * (y * y) mod p25519" using assms by (simp add: mod_eq_dvd_iff)
  then have "(x * x) ^ nat h mod p25519 = (2 * (y * y)) ^ nat h mod p25519" by (metis power_mod)
  also have "\<dots> = (2 ^ nat h mod p25519) * ((y * y) ^ nat h mod p25519) mod p25519"
    by (simp add: power_mult_distrib mod_mult_eq)
  finally have "1 = (p25519 - 1) * 1 mod p25519"
    unfolding field_fermat [OF x h(1)] field_fermat [OF y h(1)] h(2) .
  then show False by (simp add: p25519_eq)
qed

lemma anisotropic:
  assumes "p25519 dvd x * x - d * (z * z)" and "d = 2 * (s * s) + q * p25519" and "\<not> p25519 dvd s"
  shows "p25519 dvd z"
proof -
  have "x * x - d * (z * z) = (x * x - 2 * ((s * z) * (s * z))) - p25519 * (q * z * z)"
    unfolding assms(2) by (simp add: algebra_simps)
  then have "p25519 dvd x * x - 2 * ((s * z) * (s * z))" using assms(1) by (metis dvd_diff_right_iff dvd_triv_left dvd_diff_left_iff)
  then have "p25519 dvd s * z" by (rule twice_a_square)
  then show ?thesis using assms(3) by (simp add: field_mult)
qed

end
