(* ===== verification/Curve25519.thy ===== *)
theory Curve25519
  imports Crypto_Keys Field25519
begin

text \<open>
  The blocklist of \<^verbatim>\<open>src/crypto/keys.rs\<close> against the arithmetic of Curve25519. Doubling a
  point of the Montgomery curve on u-coordinates alone sends \<open>(X : Z)\<close> to \<open>xdbl (X, Z)\<close>; the
  point at infinity is \<open>Z = 0\<close>. A point has order dividing \<open>2 ^ n\<close> if at most \<open>n\<close> doublings
  reach infinity.
\<close>

section \<open>Definitions\<close>

definition xdbl :: "int \<times> int \<Rightarrow> int \<times> int" where
  "xdbl P = (case P of (X, Z) \<Rightarrow>
     ((X * X - Z * Z) * (X * X - Z * Z) mod p25519,
      4 * X * Z * (X * X + 486662 * X * Z + Z * Z) mod p25519))"

definition order_divides_pow2 :: "nat \<Rightarrow> nat \<Rightarrow> bool" where
  "order_divides_pow2 n u \<longleftrightarrow>
     (\<exists>m \<le> n. snd ((xdbl ^^ m) (int u, 1)) = 0 \<and> fst ((xdbl ^^ m) (int u, 1)) \<noteq> 0)"

section \<open>Lemmas\<close>

text \<open>
  One doubling, with its intermediate residues and quotients given, so that each reduction
  modulo the prime is checked by multiplication; then the doublings of the listed points.
\<close>

lemma xdblI:
  assumes "X * X - Z * Z = qs * p25519 + s"
    and "4 * X * Z = qm * p25519 + m"
    and "X * X + 486662 * X * Z + Z * Z = qw * p25519 + w"
    and "s * s = qx * p25519 + X'" "0 \<le> X'" "X' < p25519"
    and "m * w = qz * p25519 + Z'" "0 \<le> Z'" "Z' < p25519"
  shows "xdbl (X, Z) = (X', Z')"
proof -
  have "(X * X - Z * Z) * (X * X - Z * Z) mod p25519 = s * s mod p25519"
    unfolding assms(1) by (metis mod_mult_eq mod_mult_self3)
  moreover have "4 * X * Z * (X * X + 486662 * X * Z + Z * Z) mod p25519 = m * w mod p25519"
    unfolding assms(2,3) by (metis mod_mult_eq mod_mult_self3)
  ultimately show ?thesis
    using assms(4-9) by (simp add: xdbl_def)
qed

lemma xdbl_cong:
  assumes "X mod p25519 = Y mod p25519"
  shows "xdbl (X, Z) = xdbl (Y, Z)"
proof -
  have square: "X * X mod p25519 = Y * Y mod p25519"
    using assms by (rule mod_mult_cong [OF _ assms])
  have "(X * X - Z * Z) mod p25519 = (Y * Y - Z * Z) mod p25519"
    using square by (rule mod_diff_cong) (rule refl)
  moreover have "4 * X * Z mod p25519 = 4 * Y * Z mod p25519"
    by (intro mod_mult_cong refl assms)
  moreover have "(X * X + 486662 * X * Z + Z * Z) mod p25519 = (Y * Y + 486662 * Y * Z + Z * Z) mod p25519"
    by (intro mod_add_cong mod_mult_cong refl assms)
  ultimately show ?thesis
    by (auto simp: xdbl_def intro!: mod_mult_cong)
qed

lemma xdbl_add_p: "xdbl (X + p25519, Z) = xdbl (X, Z)"
  by (rule xdbl_cong) simp

lemma xdbl_step_0:
  "xdbl (0, 1) =
     (1,
      0)"
  by (rule xdblI [where s = "57896044618658097711785492504343953926634992332820282019728792003956564819948"
        and m = "0"
        and w = "1"
        and qs = "-1"
        and qm = "0"
        and qw = "0"
        and qx = "57896044618658097711785492504343953926634992332820282019728792003956564819947"
        and qz = "0"]) (simp_all add: p25519_eq)

lemma xdbl_step_1:
  "xdbl (1, 1) =
     (0,
      1946656)"
  by (rule xdblI [where s = "0"
        and m = "4"
        and w = "486664"
        and qs = "0"
        and qm = "0"
        and qw = "0"
        and qx = "0"
        and qz = "0"]) (simp_all add: p25519_eq)

lemma xdbl_step_2:
  "xdbl (0, 1946656) =
     (14360079715449778283216896,
      0)"
  by (rule xdblI [where s = "57896044618658097711785492504343953926634992332820282019728792000167095237613"
        and m = "0"
        and w = "3789469582336"
        and qs = "-1"
        and qm = "0"
        and qw = "0"
        and qx = "57896044618658097711785492504343953926634992332820282019728791996377625655277"
        and qz = "0"]) (simp_all add: p25519_eq)

lemma xdbl_step_3:
  "xdbl (325606250916557431795983626356110631294008115727848805560023387167927233504, 1) =
     (45396917006225111810827341870339786373668205820213556558545403612143054885807,
      45396917006225111810827341870339786373668205820213556558545403612143054885807)"
  by (rule xdblI [where s = "6156562564767827790697122591422008791921433103000191375683841003573280180665"
        and m = "1302425003666229727183934505424442525176032462911395222240093548671708934016"
        and w = "4871724851227263330787707919532158396525034520243714830081772092258679503902"
        and qs = "1831203346174176921759058571772393101166772953931389283146560970022805150"
        and qm = "0"
        and qw = "1831203346174176921759058571772393101166772953931389283146560970022807887"
        and qx = "654677929443310691779042967730132455476361715126256290282830590929247809482"
        and qz = "109593950657826394513952361123521929567481592230306723050548577256209899125"]) (simp_all add: p25519_eq)

lemma xdbl_step_4:
  "xdbl (45396917006225111810827341870339786373668205820213556558545403612143054885807, 45396917006225111810827341870339786373668205820213556558545403612143054885807) =
     (0,
      15517845077869875727443337269533984305951836328226141936589671742157714712972)"
  by (rule xdblI [where s = "0"
        and m = "47504908982223739563810842283962605346266060605391972128501927640218702453937"
        and w = "28017995214261300776006104441765516761880022503747238809951311868743350010321"
        and qs = "0"
        and qm = "142384861504402883078157686429421356305989254216559452647875901468226789939391"
        and qw = "17323396559794681172587133077121978736324488603511922365856469428033280624766045235"
        and qx = "0"
        and qz = "22989347912878419954589982746008240046111497461436654202716954662156115931945"]) (simp_all add: p25519_eq)

lemma xdbl_step_5:
  "xdbl (0, 15517845077869875727443337269533984305951836328226141936589671742157714712972) =
     (41747688158127371908177058008262381469514475217761947530199048230656472595392,
      0)"
  by (rule xdblI [where s = "22932612910826416580316872620582028273524218420795559404600324292895726681662"
        and m = "0"
        and w = "34963431707831681131468619883761925653110773912024722615128467711060838138287"
        and qs = "-4159239503265942150744428405209610669516872620749864119660117314843755382854"
        and qm = "0"
        and qw = "4159239503265942150744428405209610669516872620749864119660117314843755382853"
        and qx = "9083603869344809828492502097127136037272443105842930174582729815529191585748"
        and qz = "0"]) (simp_all add: p25519_eq)

lemma xdbl_step_6:
  "xdbl (39382357235489614581723060781553021112529911719440698176882885853963445705823, 1) =
     (24871845842723059791009793099485790699430777617945840999563689295137248234743,
      24871845842723059791009793099485790699430777617945840999563689295137248234743)"
  by (rule xdblI [where s = "36883202143540664839808070031526610330104261572033432514630211953039083883393"
        and m = "41737339704642262903321258117524176596849662212122228668073959407940653183394"
        and w = "27009579413685725878575504165379403114139611194929779674320683730235175199261"
        and qs = "26788877748720880654605111422777852440346134326358507972650839531582893060315"
        and qm = "2"
        and qw = "26788877748720880654605111422777852440346134326358507972650839531582893391355"
        and qx = "23496779604230121859443672119558158725737645210373689091943641382510795492594"
        and qz = "19471243652199638728842033474818961948114191737200601677625567440621334594959"]) (simp_all add: p25519_eq)

lemma xdbl_step_7:
  "xdbl (24871845842723059791009793099485790699430777617945840999563689295137248234743, 24871845842723059791009793099485790699430777617945840999563689295137248234743) =
     (0,
      16726951500385095866967646792302690816963154794661857061972678046653484918030)"
  by (rule xdblI [where s = "0"
        and m = "660218934131636365382656345155099813086654464193563625409320180384854140070"
        and w = "24382953980888504399788786115309762758167674952380887686514557215908400487357"
        and qs = "0"
        and qm = "42739273102247262595172708151834191655918711511179392468767895661384300857174"
        and qw = "5199916401258015450904282710001058762009005954719151964105114793537982348088933271"
        and qx = "0"
        and qz = "278051600835180962426549142641980355281590308977518049334759299033552071040"]) (simp_all add: p25519_eq)

lemma xdbl_step_8:
  "xdbl (0, 16726951500385095866967646792302690816963154794661857061972678046653484918030) =
     (30410777791344150208101333524993591156283971060115177106950612113667209087008,
      0)"
  by (rule xdblI [where s = "55889914972606210309500346700496729453640213549509064448388686101133899553407"
        and m = "0"
        and w = "2006129646051887402285145803847224472994778783311217571340105902822665266542"
        and qs = "-4832642857368312983862193481278788415025634397648724756031548000476653698543"
        and qm = "0"
        and qw = "4832642857368312983862193481278788415025634397648724756031548000476653698542"
        and qx = "53953298817212910687959099793454681931324506355242426499109996093612396963909"
        and qz = "0"]) (simp_all add: p25519_eq)

lemma xdbl_step_9:
  "xdbl (-1, 1) =
     (0,
      1946640)"
  by (rule xdblI [where s = "0"
        and m = "57896044618658097711785492504343953926634992332820282019728792003956564819945"
        and w = "57896044618658097711785492504343953926634992332820282019728792003956564333289"
        and qs = "0"
        and qm = "-1"
        and qw = "-1"
        and qx = "0"
        and qz = "57896044618658097711785492504343953926634992332820282019728792003956564333285"]) (simp_all add: p25519_eq)

lemma xdbl_step_10:
  "xdbl (0, 1946640) =
     (14359607606473618268160000,
      0)"
  by (rule xdblI [where s = "57896044618658097711785492504343953926634992332820282019728792000167157530349"
        and m = "0"
        and w = "3789407289600"
        and qs = "-1"
        and qm = "0"
        and qw = "0"
        and qx = "57896044618658097711785492504343953926634992332820282019728791996377750240749"
        and qz = "0"]) (simp_all add: p25519_eq)

lemmas xdbl_steps =
  xdbl_step_0 xdbl_step_1 xdbl_step_2 xdbl_step_3 xdbl_step_4 xdbl_step_5 xdbl_step_6 xdbl_step_7 xdbl_step_8 xdbl_step_9 xdbl_step_10

lemma order_divides_pow2_0 [simp]: "\<not> order_divides_pow2 0 u"
  by (simp add: order_divides_pow2_def)

lemma order_divides_pow2_Suc:
  "order_divides_pow2 (Suc n) u \<longleftrightarrow> order_divides_pow2 n u \<or>
     snd ((xdbl ^^ Suc n) (int u, 1)) = 0 \<and> fst ((xdbl ^^ Suc n) (int u, 1)) \<noteq> 0"
  by (auto simp: order_divides_pow2_def le_Suc_eq)

lemma order_by_doubling:
  fixes u :: nat
  defines "P \<equiv> (int u, 1)"
  shows "order_divides_pow2 (Suc 0) u \<longleftrightarrow> snd (xdbl P) = 0 \<and> fst (xdbl P) \<noteq> 0"
    and "order_divides_pow2 2 u \<longleftrightarrow> order_divides_pow2 (Suc 0) u \<or>
      snd (xdbl (xdbl P)) = 0 \<and> fst (xdbl (xdbl P)) \<noteq> 0"
    and "order_divides_pow2 3 u \<longleftrightarrow> order_divides_pow2 2 u \<or>
      snd (xdbl (xdbl (xdbl P))) = 0 \<and> fst (xdbl (xdbl (xdbl P))) \<noteq> 0"
  by (simp_all add: P_def order_divides_pow2_Suc numeral_2_eq_2 numeral_3_eq_3)

lemma blocked_wrapped:
  "xdbl (int (2 ^ 255 - 20), 1) = xdbl (-1, 1)"
  "xdbl (int (2 ^ 255 - 19), 1) = xdbl (0, 1)"
  "xdbl (int (2 ^ 255 - 18), 1) = xdbl (1, 1)"
  using xdbl_add_p [of "-1" 1] xdbl_add_p [of 0 1] xdbl_add_p [of 1 1] by (simp_all add: p25519_eq)

lemma blocked_orders: "list_all (order_divides_pow2 3) blocked_u"
  using blocked_wrapped by (simp add: blocked_u_def order_by_doubling xdbl_steps)

subsection \<open>No other point has order dividing 8\<close>

text \<open>
  The argument runs the doublings backwards. The curve has no second point of order 2, since
  \<open>486662 ^ 2 - 4\<close> is twice a square; a double lands on u = -1 never, since \<open>8 - 4 * 486662\<close> is
  twice a square; and of the four candidates for a half of u = 1 two are the listed ones and
  the others would be roots of a quadratic whose discriminant is twice a square.
\<close>

lemma xdbl_dvd:
  "snd (xdbl (X, Z)) = 0 \<longleftrightarrow> p25519 dvd 4 * X * Z * (X * X + 486662 * X * Z + Z * Z)"
  "fst (xdbl (X, Z)) = 0 \<longleftrightarrow> p25519 dvd X - Z \<or> p25519 dvd X + Z"
proof -
  have "X * X - Z * Z = (X - Z) * (X + Z)" by (simp add: algebra_simps)
  then show "fst (xdbl (X, Z)) = 0 \<longleftrightarrow> p25519 dvd X - Z \<or> p25519 dvd X + Z"
    by (simp add: xdbl_def field_mult flip: dvd_eq_mod_eq_0)
qed (simp add: xdbl_def dvd_eq_mod_eq_0)

lemma small_factors: "\<not> p25519 dvd 4" "\<not> p25519 dvd 1"
  by (simp_all add: p25519_eq)

lemma order_two_form:
  assumes "p25519 dvd X * X + 486662 * X * Z + Z * Z"
  shows "p25519 dvd Z"
proof (rule anisotropic)
  have "(2 * X + 486662 * Z) * (2 * X + 486662 * Z) - 236839902240 * (Z * Z)
      = 4 * (X * X + 486662 * X * Z + Z * Z)"
    by (simp add: algebra_simps)
  with assms show "p25519 dvd (2 * X + 486662 * Z) * (2 * X + 486662 * Z) - 236839902240 * (Z * Z)"
    by (simp only: field_mult HOL.simp_thms)
  show "(236839902240 :: int) = 2 * (22814608461444720273592656585502654319980708783492843055400821547542719046937 *
        22814608461444720273592656585502654319980708783492843055400821547542719046937)
      + -17980722609892489500487428053382063716284324534046465491363748666061126968202 * p25519"
    by (simp add: p25519_eq)
qed (simp add: p25519_eq)

lemma double_infinite:
  assumes "snd (xdbl (X, Z)) = 0"
  shows "p25519 dvd X \<or> p25519 dvd Z"
  using assms small_factors order_two_form unfolding xdbl_dvd(1) field_mult by blast

lemma no_half_of_minus_one:
  assumes "p25519 dvd (u * u - 1) * (u * u - 1) + 4 * u * (u * u + 486662 * u + 1)"
  shows "p25519 dvd u"
proof (rule anisotropic)
  have "(u * u + 2 * u + 1) * (u * u + 2 * u + 1) - -1946640 * (u * u)
      = (u * u - 1) * (u * u - 1) + 4 * u * (u * u + 486662 * u + 1)"
    by (simp add: algebra_simps)
  with assms show "p25519 dvd (u * u + 2 * u + 1) * (u * u + 2 * u + 1) - -1946640 * (u * u)" by simp
  show "(-1946640 :: int) = 2 * (31006382315501081899463554512741035010749607743680830239850771516455213626632 *
        31006382315501081899463554512741035010749607743680830239850771516455213626632)
      + -33211102783529023075659990050788577987751319135952513027022002575673288520912 * p25519"
    by (simp add: p25519_eq)
qed (simp add: p25519_eq)

lemma no_other_half_of_one:
  "\<not> p25519 dvd u * u - 18188081132251925698266448096434822182811072497651735037285882762825191880626 * u + 1"
    (is "\<not> p25519 dvd u * u - ?w * u + 1")
proof
  assume root: "p25519 dvd u * u - ?w * u + 1"
  have "(2 * u - ?w) * (2 * u - ?w) - (?w * ?w - 4) * (1 * 1) = 4 * (u * u - ?w * u + 1)"
    by (simp add: algebra_simps)
  with root have "p25519 dvd (2 * u - ?w) * (2 * u - ?w) - (?w * ?w - 4) * (1 * 1)"
    by (simp only: field_mult HOL.simp_thms)
  then have "p25519 dvd 1"
  proof (rule anisotropic)
    show "?w * ?w - 4 = 2 * (27021177997954536007042456985036724742560110130219228089909549121274765565214 *
          27021177997954536007042456985036724742560110130219228089909549121274765565214)
        + -19508790850228638866257778432655171173304882934471055539642890141608194706280 * p25519"
      by (simp add: p25519_eq)
  qed (simp add: p25519_eq)
  then show False using small_factors by simp
qed

lemma halves_of_one:
  assumes "p25519 dvd (u * u - 1) * (u * u - 1) - 4 * u * (u * u + 486662 * u + 1)"
  shows "p25519 dvd u - 325606250916557431795983626356110631294008115727848805560023387167927233504 \<or>
    p25519 dvd u - 39382357235489614581723060781553021112529911719440698176882885853963445705823"
    (is "p25519 dvd u - ?a \<or> p25519 dvd u - ?b")
proof -
  let ?w = "18188081132251925698266448096434822182811072497651735037285882762825191880626 :: int"
  let ?k = "u * u * u
      + -12695768908228282106568030875475065338183232902012258010898654481278258350605 * (u * u)
      + 4028398537331483897099606699901860536386804029441258231230441032204670100097577367514566120887356375113139970766763580681210544227730255907618337680135 * u
      + -221485626110835075424143051084441572193385833843849609610268667300198723259"
  have "(u * u - 1) * (u * u - 1) - 4 * u * (u * u + 486662 * u + 1)
      = (u - ?a) * ((u - ?b) * (u * u - ?w * u + 1)) + p25519 * ?k"
    unfolding p25519_eq by (simp add: algebra_simps)
  then have "p25519 dvd (u - ?a) * ((u - ?b) * (u * u - ?w * u + 1))"
    using assms by (metis dvd_add_left_iff dvd_triv_left)
  then show ?thesis using no_other_half_of_one [of u] by (simp only: field_mult) blast
qed

lemma xdbl_affine:
  "\<exists>j k. xdbl (u, 1) = ((u * u - 1) * (u * u - 1) + p25519 * j, 4 * u * (u * u + 486662 * u + 1) + p25519 * k)"
proof -
  have "\<exists>j. y mod p25519 = y + p25519 * j" for y
    using minus_mult_div_eq_mod [of y p25519] by (metis add_uminus_conv_diff mult_minus_right)
  then show ?thesis unfolding xdbl_def by simp
qed

lemma double_is_unit:
  assumes "fst (xdbl (xdbl (u, 1))) = 0"
  shows "p25519 dvd u \<or>
    p25519 dvd u - 325606250916557431795983626356110631294008115727848805560023387167927233504 \<or>
    p25519 dvd u - 39382357235489614581723060781553021112529911719440698176882885853963445705823"
proof -
  let ?x = "(u * u - 1) * (u * u - 1)" and ?z = "4 * u * (u * u + 486662 * u + 1)"
  obtain j k where P: "xdbl (u, 1) = (?x + p25519 * j, ?z + p25519 * k)" using xdbl_affine by blast
  have "?x + p25519 * j - (?z + p25519 * k) = ?x - ?z + p25519 * (j - k)"
    "?x + p25519 * j + (?z + p25519 * k) = ?x + ?z + p25519 * (j + k)"
    by (simp_all only: distrib_left right_diff_distrib ac_simps diff_conv_add_uminus minus_add_distrib)
  then have "p25519 dvd ?x - ?z + p25519 * (j - k) \<or> p25519 dvd ?x + ?z + p25519 * (j + k)"
    using assms unfolding P xdbl_dvd(2) by metis
  then have "p25519 dvd ?x - ?z \<or> p25519 dvd ?x + ?z" by (metis dvd_add_left_iff dvd_triv_left)
  then show ?thesis using no_half_of_minus_one halves_of_one by blast
qed

lemma small_order_residues:
  assumes "snd (xdbl (xdbl (xdbl (u, 1)))) = 0 \<or> snd (xdbl (xdbl (u, 1))) = 0 \<or> snd (xdbl (u, 1)) = 0"
  shows "p25519 dvd u \<or> p25519 dvd u - 1 \<or> p25519 dvd u + 1 \<or>
    p25519 dvd u - 325606250916557431795983626356110631294008115727848805560023387167927233504 \<or>
    p25519 dvd u - 39382357235489614581723060781553021112529911719440698176882885853963445705823"
proof -
  have reduced: "(p25519 dvd fst (xdbl P) \<longleftrightarrow> fst (xdbl P) = 0) \<and> (p25519 dvd snd (xdbl P) \<longleftrightarrow> snd (xdbl P) = 0)" for P
    by (cases P) (simp add: xdbl_def dvd_eq_mod_eq_0)
  have half: "fst (xdbl P) = 0 \<or> snd (xdbl P) = 0" if "snd (xdbl (xdbl P)) = 0" for P
    using double_infinite [of "fst (xdbl P)" "snd (xdbl P)"] that reduced [of P] by simp
  have "fst (xdbl (xdbl (u, 1))) = 0 \<or> fst (xdbl (u, 1)) = 0 \<or> snd (xdbl (u, 1)) = 0"
    using assms half by blast
  then show ?thesis
    using double_is_unit [of u] xdbl_dvd(2) [of u 1] double_infinite [of u 1] small_factors by blast
qed

lemma residue_range:
  assumes "p25519 dvd int u - c" and "u < 2 ^ 255" and "0 \<le> c" and "c < p25519"
  shows "int u = c \<or> int u = c + p25519 \<and> c < 19"
proof -
  have u: "int u < p25519 + 19" using assms(2) by (simp add: p25519_eq)
  obtain k where k: "int u = c + p25519 * k" using assms(1) by (metis dvdE diff_add_cancel add.commute)
  have "p25519 * k < p25519 * 2" and "p25519 * -1 < p25519 * k" using u k assms(3,4) p25519_pos
    by (simp_all add: p25519_eq)
  then have "k < 2" and "-1 < k" using p25519_pos by (simp_all only: mult_less_cancel_left_pos)
  then have "k = 0 \<or> k = 1" by arith
  then show ?thesis using k u by auto
qed

lemma small_order_listed:
  assumes "order_divides_pow2 3 u" and "u < 2 ^ 255"
  shows "u \<in> set blocked_u"
proof -
  have "p25519 dvd int u - (p25519 - 1)" if "p25519 dvd int u + 1"
    using that by (metis add_diff_eq diff_diff_eq2 dvd_diff dvd_refl)
  then consider c where "c \<in> {0, 1, p25519 - 1,
      325606250916557431795983626356110631294008115727848805560023387167927233504,
      39382357235489614581723060781553021112529911719440698176882885853963445705823}"
      and "p25519 dvd int u - c"
    using small_order_residues [of "int u"] assms(1) unfolding order_by_doubling
    by (metis diff_0_right insertCI)
  then show ?thesis
  proof cases
    case (1 c)
    then have "int u = c \<or> int u = c + p25519 \<and> c < 19"
      by (intro residue_range assms(2)) (auto simp: p25519_eq)
    then show ?thesis using 1(1) by (auto simp: p25519_eq blocked_u_def)
  qed
qed

lemma blocked_iff: "u_coordinate k \<in> set blocked_u \<longleftrightarrow> order_divides_pow2 3 (u_coordinate k)"
  using blocked_orders small_order_listed [of "u_coordinate k"] by (auto simp: list_all_iff u_coordinate_def)

section \<open>Properties\<close>

text \<open>
  C28. The X25519 validator accepts exactly the 32-byte keys that are no point of order dividing
  8 by the curve's own doubling formula, and returns the key unchanged: the seven listed
  u-coordinates are all of the small-order ones below \<open>2 ^ 255\<close>, the non-canonical encodings and
  the points of the twist included, and bit 255 of the key plays no part.
\<close>

theorem x25519_validation_exact:
  "validate_x25519_public_key k = Inr k' \<longleftrightarrow>
     k' = k \<and> length k = 32 \<and> \<not> order_divides_pow2 3 (u_coordinate k)"
  unfolding blocked_iff [symmetric] by (rule validate_x25519_iff)

text \<open>
  The exact orders of the listed points, by the doubling formula: u = 0 has order 2,
  u = 1 and u = p - 1 have order 4, and the two large constants have order 8. The comments in
  the list give other orders (0 and 1 as order 1, p - 1 as order 2, p as order 4).
\<close>

lemma small_order_exact_orders:
  "order_divides_pow2 1 (blocked_u ! 0) \<and> \<not> order_divides_pow2 0 (blocked_u ! 0) \<and>
   order_divides_pow2 2 (blocked_u ! 1) \<and> \<not> order_divides_pow2 1 (blocked_u ! 1) \<and>
   order_divides_pow2 3 (blocked_u ! 2) \<and> \<not> order_divides_pow2 2 (blocked_u ! 2) \<and>
   order_divides_pow2 3 (blocked_u ! 3) \<and> \<not> order_divides_pow2 2 (blocked_u ! 3) \<and>
   order_divides_pow2 2 (blocked_u ! 4) \<and> \<not> order_divides_pow2 1 (blocked_u ! 4) \<and>
   order_divides_pow2 1 (blocked_u ! 5) \<and> \<not> order_divides_pow2 0 (blocked_u ! 5) \<and>
   map u_coordinate SMALL_ORDER = blocked_u"
  using blocked_wrapped
  by (simp add: SMALL_ORDER_values) (simp add: blocked_u_def order_by_doubling xdbl_steps)

end
