(* ===== verification/App_Error.thy ===== *)
theory App_Error
  imports Rust_Text
begin

text \<open>
  \<^verbatim>\<open>src/error.rs\<close> and the error enum of \<^verbatim>\<open>src/providers/mod.rs\<close>: the one error type that crosses
  the layers, its HTTP status and code, the message shown to the client, and the response
  built from them. An \<^verbatim>\<open>anyhow::Error\<close> is its message; an \<^verbatim>\<open>sqlx::Error\<close> is the kind of
  database failure, of which the code only tells a unique violation apart.
\<close>

section \<open>Definitions\<close>

datatype sqlx_error = Unique_violation | Foreign_key_violation | Check_violation | Other_sqlx string

datatype provider_error = Request string | Status nat | Parse

datatype app_error =
    Validation string
  | Unauthorized
  | Forbidden
  | NotFound
  | Conflict string
  | RateLimited
  | Provider provider_error
  | Database sqlx_error
  | Internal string

record error_detail =
  code :: string
  message :: string

datatype log_level = Log_error | Log_debug

fun status_and_code :: "app_error \<Rightarrow> nat \<times> string" where
  "status_and_code (Validation _) = (400, ''validation_error'')"
| "status_and_code Unauthorized = (401, ''unauthorized'')"
| "status_and_code Forbidden = (403, ''forbidden'')"
| "status_and_code NotFound = (404, ''not_found'')"
| "status_and_code (Conflict _) = (409, ''conflict'')"
| "status_and_code RateLimited = (429, ''rate_limited'')"
| "status_and_code (Provider _) = (502, ''provider_error'')"
| "status_and_code (Database _) = (500, ''internal_error'')"
| "status_and_code (Internal _) = (500, ''internal_error'')"

fun public_message :: "app_error \<Rightarrow> string" where
  "public_message (Validation msg) = msg"
| "public_message (Conflict msg) = msg"
| "public_message Unauthorized = ''authentication required or credentials invalid''"
| "public_message Forbidden = ''you do not have access to this resource''"
| "public_message NotFound = ''resource not found''"
| "public_message RateLimited = ''too many requests, slow down''"
| "public_message (Provider _) = ''upstream AI provider request failed''"
| "public_message (Database _) = ''an internal error occurred''"
| "public_message (Internal _) = ''an internal error occurred''"

definition is_server_error :: "nat \<Rightarrow> bool" where
  "is_server_error status \<longleftrightarrow> 500 \<le> status \<and> status < 600"

text \<open>The response is a status and the JSON body; the log line is the level it is written at.\<close>

definition into_response :: "app_error \<Rightarrow> log_level \<times> nat \<times> error_detail" where
  "into_response e =
     (let (status, c) = status_and_code e
      in (if is_server_error status then Log_error else Log_debug,
          status, \<lparr>code = c, message = public_message e\<rparr>))"

section \<open>Lemmas\<close>

text \<open>
  A response to a server-side failure (provider, database or internal error) does not
  depend on the failure's payload: two errors answered with the same 5xx status give the
  client the same body, whatever detail they carry, and the detail is logged at error level.
\<close>

lemma server_errors_do_not_leak:
  assumes "is_server_error (fst (status_and_code e))"
    and "fst (status_and_code e') = fst (status_and_code e)"
  shows "into_response e' = into_response e \<and> fst (into_response e) = Log_error"
  using assms by (cases e; cases e') (simp_all add: into_response_def is_server_error_def)

lemma server_errors_do_not_leak_witness:
  "into_response (Internal ''secret db password leaked'') = into_response (Database Unique_violation)
     \<and> fst (into_response (Database Unique_violation)) = Log_error"
  by (rule server_errors_do_not_leak) (simp_all add: is_server_error_def)

end
