(* ===== verification/Validate.thy ===== *)
theory Validate
  imports App_Error
begin

text \<open>
  \<^verbatim>\<open>src/domain/validate.rs\<close>: the request validators. Each returns the normalised field or a
  \<open>Validation\<close> error with the source's message. The base64 engine is a parameter of
  \<open>base64_field\<close>.
\<close>

section \<open>Definitions\<close>

definition MIN_PASSWORD_LEN :: nat where "MIN_PASSWORD_LEN = 10"
definition MAX_PASSWORD_LEN :: nat where "MAX_PASSWORD_LEN = 128"
definition MAX_EMAIL_LEN :: nat where "MAX_EMAIL_LEN = 254"
definition MAX_TITLE_LEN :: nat where "MAX_TITLE_LEN = 200"
definition MAX_LABEL_LEN :: nat where "MAX_LABEL_LEN = 64"
definition MAX_MODEL_LEN :: nat where "MAX_MODEL_LEN = 128"
definition ALLOWED_ALGORITHMS :: "string list" where
  "ALLOWED_ALGORITHMS = [''AES-256-GCM'', ''ChaCha20-Poly1305'']"
definition MAX_CIPHERTEXT_BYTES :: nat where "MAX_CIPHERTEXT_BYTES = 256 * 1024"

text \<open>The closure passed to \<^verbatim>\<open>is_some_and\<close> in \<^verbatim>\<open>email\<close>: the test on the two halves.\<close>

definition email_parts_valid :: "string \<Rightarrow> string \<times> string \<Rightarrow> bool" where
  "email_parts_valid whole = (\<lambda>(local, domain).
     local \<noteq> [] \<and> domain \<noteq> [] \<and> CHR ''.'' \<in> set domain
     \<and> \<not> starts_with ''.'' domain \<and> last domain \<noteq> CHR ''.''
     \<and> \<not> list_ex is_whitespace (chars whole))"

definition validate_email :: "string \<Rightarrow> app_error + string" where
  "validate_email raw =
     (let email = to_ascii_lowercase (trim raw);
          valid = length email \<le> MAX_EMAIL_LEN \<and>
                  (case split_once (CHR ''@'') email of None \<Rightarrow> False
                   | Some parts \<Rightarrow> email_parts_valid email parts)
      in if \<not> valid then Inl (Validation ''email address is invalid'') else Inr email)"

definition validate_password :: "string \<Rightarrow> app_error + unit" where
  "validate_password raw =
     (if length raw < MIN_PASSWORD_LEN then
        Inl (Validation (''password must be at least '' @ show_nat MIN_PASSWORD_LEN @ '' characters''))
      else if length raw > MAX_PASSWORD_LEN then
        Inl (Validation (''password must be at most '' @ show_nat MAX_PASSWORD_LEN @ '' characters''))
      else Inr ())"

definition validate_title :: "string \<Rightarrow> app_error + string" where
  "validate_title raw =
     (let title = trim raw in
      if title = [] then Inl (Validation ''title must not be empty'')
      else if length (chars title) > MAX_TITLE_LEN then
        Inl (Validation (''title must be at most '' @ show_nat MAX_TITLE_LEN @ '' characters''))
      else Inr title)"

definition validate_label :: "string \<Rightarrow> app_error + string" where
  "validate_label raw =
     (let label = trim raw in
      if label = [] \<or> length (chars label) > MAX_LABEL_LEN then
        Inl (Validation (''label must be 1..='' @ show_nat MAX_LABEL_LEN @ '' characters''))
      else Inr label)"

definition message_role :: "string \<Rightarrow> app_error + string" where
  "message_role raw =
     (if raw = ''user'' \<or> raw = ''assistant'' then Inr raw
      else Inl (Validation (''role must be '' @ [CHR 0x27] @ ''user'' @ [CHR 0x27] @ '' or '' @
                            [CHR 0x27] @ ''assistant'' @ [CHR 0x27])))"

definition validate_algorithm :: "string \<Rightarrow> app_error + string" where
  "validate_algorithm raw =
     (let algorithm = trim raw in
      if algorithm \<in> set ALLOWED_ALGORITHMS then Inr algorithm
      else Inl (Validation (''algorithm must be one of: '' @ join '', '' ALLOWED_ALGORITHMS)))"

definition validate_model :: "string \<Rightarrow> app_error + string" where
  "validate_model raw =
     (let model = trim raw in
      if model = [] then Inl (Validation ''model must not be empty'')
      else if length (chars model) > MAX_MODEL_LEN then
        Inl (Validation (''model must be at most '' @ show_nat MAX_MODEL_LEN @ '' characters''))
      else Inr model)"

definition base64_field ::
  "(string \<Rightarrow> bytes option) \<Rightarrow> string \<Rightarrow> string \<Rightarrow> nat \<Rightarrow> app_error + bytes" where
  "base64_field b64_decode raw field max_decoded =
     bindR (ok_or (Validation (field @ '' must be valid base64'')) (b64_decode raw)) (\<lambda>bs.
     if bs = [] then Inl (Validation (field @ '' must not be empty''))
     else if length bs > max_decoded then
       Inl (Validation (field @ '' exceeds the maximum size of '' @ show_nat max_decoded @ '' bytes''))
     else Inr bs)"

section \<open>Interface: validators that normalise\<close>

text \<open>
  The services store what a validator returns and validate it again on the next update, so
  a validator has to accept its own results unchanged and accept only canonical values.
\<close>

locale normaliser =
  fixes validate :: "string \<Rightarrow> app_error + string"
    and canonical :: "string \<Rightarrow> bool"
  assumes accepts_canonical: "validate raw = Inr v \<Longrightarrow> canonical v"
    and canonical_fixed: "canonical v \<Longrightarrow> validate v = Inr v"
    and rejects_as_validation: "validate raw = Inl e \<Longrightarrow> \<exists>msg. e = Validation msg"
begin

lemma revalidates: "validate raw = Inr v \<Longrightarrow> validate v = Inr v"
  by (rule canonical_fixed [OF accepts_canonical])

lemma range_canonical: "{v. \<exists>raw. validate raw = Inr v} = {v. canonical v}"
  using accepts_canonical canonical_fixed by blast

lemma optional_revalidates:
  "transposeR validate m = Inr r \<Longrightarrow> transposeR validate r = Inr r"
  using revalidates by (auto simp: transposeR_eq_Inr)

lemma optional_canonical: "transposeR validate m = Inr (Some v) \<Longrightarrow> canonical v"
  using accepts_canonical by (auto simp: transposeR_eq_Inr)

end

definition canonical_email :: "string \<Rightarrow> bool" where
  "canonical_email e \<longleftrightarrow> to_ascii_lowercase e = e \<and> length e \<le> 254 \<and>
     \<not> list_ex is_whitespace (chars e) \<and>
     (\<exists>l d. e = l @ CHR ''@'' # d \<and> CHR ''@'' \<notin> set l \<and> l \<noteq> [] \<and> d \<noteq> [] \<and>
        CHR ''.'' \<in> set d \<and> hd d \<noteq> CHR ''.'' \<and> last d \<noteq> CHR ''.'')"

definition canonical_text :: "nat \<Rightarrow> string \<Rightarrow> bool" where
  "canonical_text n v \<longleftrightarrow> trim v = v \<and> v \<noteq> [] \<and> length (chars v) \<le> n"

section \<open>Lemmas\<close>

lemmas length_bounds =
  MIN_PASSWORD_LEN_def MAX_PASSWORD_LEN_def MAX_EMAIL_LEN_def MAX_TITLE_LEN_def
  MAX_LABEL_LEN_def MAX_MODEL_LEN_def MAX_CIPHERTEXT_BYTES_def

lemma starts_with_single: "d \<noteq> [] \<Longrightarrow> starts_with [c] d \<longleftrightarrow> hd d = c"
  by (cases d) (auto simp: starts_with_def)

lemma split_once_case:
  "(case split_once c e of None \<Rightarrow> False | Some (l, d) \<Rightarrow> Q l d) \<longleftrightarrow>
     (\<exists>l d. e = l @ c # d \<and> c \<notin> set l \<and> Q l d)"
proof (cases "split_once c e")
  case None
  then show ?thesis using split_once_None [of c e] by auto
next
  case (Some p)
  then obtain l d where p: "split_once c e = Some (l, d)" by (cases p) simp
  have "l' = l \<and> d' = d" if "e = l' @ c # d'" and "c \<notin> set l'" for l' d'
    using that p split_once_Some [of c e l' d'] by simp
  with p show ?thesis using split_once_Some [of c e l d] by auto
qed

lemma canonical_email_eq:
  "canonical_email e \<longleftrightarrow> to_ascii_lowercase e = e \<and> length e \<le> MAX_EMAIL_LEN \<and>
     (case split_once (CHR ''@'') e of None \<Rightarrow> False | Some parts \<Rightarrow> email_parts_valid e parts)"
proof -
  have "(case split_once (CHR ''@'') e of None \<Rightarrow> False | Some parts \<Rightarrow> email_parts_valid e parts)
      = (case split_once (CHR ''@'') e of None \<Rightarrow> False
         | Some (l, d) \<Rightarrow> email_parts_valid e (l, d))"
    by (simp split: option.split)
  then show ?thesis
    unfolding canonical_email_def split_once_case email_parts_valid_def case_prod_conv length_bounds
    using starts_with_single by blast
qed

lemma validate_email_eq:
  "validate_email raw = Inr e \<longleftrightarrow> e = to_ascii_lowercase (trim raw) \<and> canonical_email e"
  by (auto simp: validate_email_def canonical_email_eq Let_def)

interpretation email_field: normaliser validate_email canonical_email
proof
  fix raw v assume "validate_email raw = Inr v"
  then show "canonical_email v" unfolding validate_email_eq by (rule conjunct2)
next
  fix v assume c: "canonical_email v"
  then have "trim v = v" and "to_ascii_lowercase v = v"
    by (simp_all add: canonical_email_def trim_no_whitespace)
  with c show "validate_email v = Inr v" by (simp add: validate_email_eq)
next
  fix raw e assume "validate_email raw = Inl e"
  then show "\<exists>msg. e = Validation msg"
    by (auto simp: validate_email_def Let_def split: if_splits)
qed

interpretation title_field: normaliser validate_title "canonical_text 200"
  by unfold_locales
    (auto simp: validate_title_def canonical_text_def length_bounds Let_def split: if_splits)

interpretation label_field: normaliser validate_label "canonical_text 64"
  by unfold_locales
    (auto simp: validate_label_def canonical_text_def length_bounds Let_def split: if_splits)

interpretation model_field: normaliser validate_model "canonical_text 128"
  by unfold_locales
    (auto simp: validate_model_def canonical_text_def length_bounds Let_def split: if_splits)

lemma trim_algorithms: "a \<in> set ALLOWED_ALGORITHMS \<Longrightarrow> trim a = a"
  by (auto simp: ALLOWED_ALGORITHMS_def trim_def white_space_def ascii_space_def is_whitespace_def is_cont_def)

interpretation algorithm_field: normaliser validate_algorithm "\<lambda>a. a \<in> set ALLOWED_ALGORITHMS"
  by unfold_locales (auto simp: validate_algorithm_def trim_algorithms Let_def split: if_splits)

interpretation role_field: normaliser message_role "\<lambda>r. r = ''user'' \<or> r = ''assistant''"
  by unfold_locales (auto simp: message_role_def split: if_splits)

lemma base64_field_ok:
  "base64_field dec raw f n = Inr bs \<longleftrightarrow> dec raw = Some bs \<and> bs \<noteq> [] \<and> length bs \<le> n"
  by (cases "dec raw") (auto simp: base64_field_def)

section \<open>Properties\<close>

text \<open>
  An accepted email address is exactly the trimmed, ASCII-lowercased input; it has at
  most 254 bytes, no white space, a non-empty local part before the first at-sign and a
  domain with a dot that is neither its first nor its last character; and validating the
  stored address again returns it unchanged.
\<close>

lemma email_normalised:
  assumes "validate_email raw = Inr e"
  shows "e = to_ascii_lowercase (trim raw) \<and> canonical_email e \<and> validate_email e = Inr e"
  using assms email_field.revalidates [OF assms] by (simp add: validate_email_eq)

lemma email_normalised_witness:
  "validate_email ''  User@Example.COM '' = Inr ''user@example.com'' \<and>
   canonical_email ''user@example.com'' \<and>
   validate_email ''user@example.com'' = Inr ''user@example.com''"
proof -
  have ok: "validate_email ''  User@Example.COM '' = Inr ''user@example.com''"
    by code_simp
  from email_normalised [OF ok] have "canonical_email ''user@example.com''"
    and "validate_email ''user@example.com'' = Inr ''user@example.com''" by blast+
  with ok show ?thesis by blast
qed

text \<open>
  The password bounds are counted in bytes, not in characters as the error message
  says: five two-byte characters pass the minimum of ten, while nine ASCII characters fail.
\<close>

lemma password_bounds_are_bytes:
  "length (chars (concat (replicate 5 [CHR 0xC3, CHR 0xA9]))) = 5 \<and>
   validate_password (concat (replicate 5 [CHR 0xC3, CHR 0xA9])) = Inr () \<and>
   (\<exists>msg. validate_password ''ninechars'' = Inl (Validation msg)) \<and>
   (validate_password raw = Inr () \<longleftrightarrow> 10 \<le> length raw \<and> length raw \<le> 128)"
  by (auto simp: validate_password_def length_bounds numeral_eq_Suc is_cont_def)

end
