(* ===== verification/Store.thy ===== *)
theory Store
  imports App_Error
begin

text \<open>
  The database: \<^verbatim>\<open>src/domain/models.rs\<close>, the schema of \<^verbatim>\<open>migrations/0001_init.sql\<close> and the
  repositories \<^verbatim>\<open>src/repositories/*.rs\<close>. A table is the list of its rows in insertion order;
  every repository function is one SQL statement (one transaction for \<^verbatim>\<open>revoke_session\<close>) and
  checks the constraints of the schema. A timestamp is a number of microseconds.

  The state also carries what the statements take from the world: the clock, the supply of
  identifiers (\<^verbatim>\<open>gen_random_uuid\<close>, which does not repeat), the number of random draws made so
  far, and a script that says, for each round trip to the database, how much time passes before it
  and whether the connection fails, before the statement took effect or after. An exhausted
  script means that nothing fails any more and the clock stands still. The entry \<open>Abandoned\<close> is the
  instant at which the request in progress is dropped: it stays at the head, so that no later
  statement of that request takes effect, until the caller takes note and removes it.
\<close>

section \<open>Definitions\<close>

subsection \<open>Rows\<close>

type_synonym timestamp = int

record user =
  u_id :: uuid
  u_email :: string
  u_password_hash :: string
  u_display_name :: "string option"
  u_created_at :: timestamp
  u_updated_at :: timestamp

record session =
  s_id :: uuid
  s_user_id :: uuid
  s_user_agent :: "string option"
  s_ip_address :: "string option"
  s_created_at :: timestamp
  s_revoked_at :: "timestamp option"

record refresh_token =
  rt_id :: uuid
  rt_session_id :: uuid
  rt_user_id :: uuid
  rt_token_hash :: string
  rt_expires_at :: timestamp
  rt_created_at :: timestamp
  rt_rotated_at :: "timestamp option"
  rt_revoked_at :: "timestamp option"

record public_key_record =
  pk_id :: uuid
  pk_user_id :: uuid
  pk_ed25519 :: bytes
  pk_x25519 :: bytes
  pk_label :: string
  pk_created_at :: timestamp
  pk_revoked_at :: "timestamp option"

record conversation =
  c_id :: uuid
  c_user_id :: uuid
  c_title :: string
  c_model :: "string option"
  c_created_at :: timestamp
  c_updated_at :: timestamp
  c_deleted_at :: "timestamp option"

record encrypted_message =
  m_id :: uuid
  m_conversation_id :: uuid
  m_user_id :: uuid
  m_role :: string
  m_ciphertext :: bytes
  m_nonce :: bytes
  m_algorithm :: string
  m_key_id :: "uuid option"
  m_created_at :: timestamp

text \<open>The metadata of an audit event is an object of identifiers and labels.\<close>

datatype meta_value = M_uuid uuid | M_text string

record audit_event =
  a_user_id :: "uuid option"
  a_event_type :: string
  a_metadata :: "(string \<times> meta_value) list"
  a_ip_address :: "string option"
  a_created_at :: timestamp

subsection \<open>The database and a round trip to it\<close>

datatype fault = Fine | Fail_before string | Fail_after string | Abandoned

record store =
  users :: "user list"
  sessions :: "session list"
  refresh_tokens :: "refresh_token list"
  public_keys :: "public_key_record list"
  conversations :: "conversation list"
  encrypted_messages :: "encrypted_message list"
  audit_events :: "audit_event list"
  now :: timestamp
  next_id :: uuid
  draws :: nat
  script :: "(nat \<times> fault) list"

definition store_empty :: "timestamp \<Rightarrow> (nat \<times> fault) list \<Rightarrow> store" where
  "store_empty t sc = \<lparr>users = [], sessions = [], refresh_tokens = [], public_keys = [],
     conversations = [], encrypted_messages = [], audit_events = [], now = t, next_id = 0, draws = 0,
     script = sc\<rparr>"

definition tick :: "store \<Rightarrow> fault \<times> store" where
  "tick s = (case script s of [] \<Rightarrow> (Fine, s)
     | (d, Abandoned) # rest \<Rightarrow> (Abandoned, s)
     | (d, f) # rest \<Rightarrow> (f, s\<lparr>now := now s + int d, script := rest\<rparr>))"

type_synonym 'a statement = "(store, sqlx_error, 'a) action"

definition sql :: "'a statement \<Rightarrow> 'a statement" where
  "sql stmt s = (case tick s of
       (Fine, s1) \<Rightarrow> stmt s1
     | (Fail_before e, s1) \<Rightarrow> (Inl (Other_sqlx e), s1)
     | (Fail_after e, s1) \<Rightarrow> (Inl (Other_sqlx e), snd (stmt s1))
     | (Abandoned, s1) \<Rightarrow> (Inl (Other_sqlx ''abandoned''), s1))"

text \<open>A failed transaction leaves no trace in the tables.\<close>

definition rollback :: "store \<Rightarrow> store \<Rightarrow> store" where
  "rollback s0 s = s0\<lparr>now := now s, next_id := next_id s, draws := draws s, script := script s\<rparr>"

text \<open>The body runs on the state the transaction began with; the commit is a round trip too.\<close>

definition run_commit :: "'a statement \<Rightarrow> 'a statement" where
  "run_commit m s0 = (case m s0 of
       (Inl e, s1) \<Rightarrow> (Inl e, rollback s0 s1)
     | (Inr x, s1) \<Rightarrow> (case tick s1 of
           (Fine, s2) \<Rightarrow> (Inr x, s2)
         | (Fail_before e, s2) \<Rightarrow> (Inl (Other_sqlx e), rollback s0 s2)
         | (Fail_after e, s2) \<Rightarrow> (Inl (Other_sqlx e), s2)
         | (Abandoned, s2) \<Rightarrow> (Inl (Other_sqlx ''abandoned''), rollback s0 s2)))"

definition transaction :: "'a statement \<Rightarrow> 'a statement" where
  "transaction m = bindE (sql (okE ())) (\<lambda>_. run_commit m)"

definition update_rows :: "('r \<Rightarrow> bool) \<Rightarrow> ('r \<Rightarrow> 'r) \<Rightarrow> 'r list \<Rightarrow> 'r list" where
  "update_rows P f rows = map (\<lambda>r. if P r then f r else r) rows"

subsection \<open>Users\<close>

definition users_insert :: "string \<Rightarrow> string \<Rightarrow> string option \<Rightarrow> user statement" where
  "users_insert email password_hash display_name = sql (\<lambda>s.
     if email \<in> u_email ` set (users s) then (Inl Unique_violation, s)
     else let u = \<lparr>u_id = next_id s, u_email = email, u_password_hash = password_hash,
                   u_display_name = display_name, u_created_at = now s, u_updated_at = now s\<rparr>
          in (Inr u, s\<lparr>users := users s @ [u], next_id := next_id s + 1\<rparr>))"

definition find_by_email :: "string \<Rightarrow> user option statement" where
  "find_by_email email = sql (\<lambda>s. (Inr (find (\<lambda>u. u_email u = email) (users s)), s))"

definition find_by_id :: "uuid \<Rightarrow> user option statement" where
  "find_by_id i = sql (\<lambda>s. (Inr (find (\<lambda>u. u_id u = i) (users s)), s))"

subsection \<open>Sessions and refresh tokens\<close>

definition create_session :: "uuid \<Rightarrow> string option \<Rightarrow> string option \<Rightarrow> session statement" where
  "create_session user_id user_agent ip_address = sql (\<lambda>s.
     if user_id \<notin> u_id ` set (users s) then (Inl Foreign_key_violation, s)
     else let x = \<lparr>s_id = next_id s, s_user_id = user_id, s_user_agent = user_agent,
                   s_ip_address = ip_address, s_created_at = now s, s_revoked_at = None\<rparr>
          in (Inr x, s\<lparr>sessions := sessions s @ [x], next_id := next_id s + 1\<rparr>))"

definition is_active :: "uuid \<Rightarrow> bool statement" where
  "is_active session_id = sql (\<lambda>s.
     (Inr (find (\<lambda>x. s_id x = session_id \<and> s_revoked_at x = None) (sessions s) \<noteq> None), s))"

definition revoke_session :: "uuid \<Rightarrow> unit statement" where
  "revoke_session session_id = transaction (\<lambda>s0. let t = now s0 in
     bindE (sql (\<lambda>s. (Inr (), s\<lparr>sessions :=
       update_rows (\<lambda>x. s_id x = session_id \<and> s_revoked_at x = None)
         (\<lambda>x. x\<lparr>s_revoked_at := Some t\<rparr>) (sessions s)\<rparr>))) (\<lambda>_.
     sql (\<lambda>s. (Inr (), s\<lparr>refresh_tokens :=
       update_rows (\<lambda>r. rt_session_id r = session_id \<and> rt_revoked_at r = None)
         (\<lambda>r. r\<lparr>rt_revoked_at := Some t\<rparr>) (refresh_tokens s)\<rparr>))) s0)"

definition insert_refresh_token :: "uuid \<Rightarrow> uuid \<Rightarrow> string \<Rightarrow> timestamp \<Rightarrow> refresh_token statement" where
  "insert_refresh_token session_id user_id token_hash expires_at = sql (\<lambda>s.
     if token_hash \<in> rt_token_hash ` set (refresh_tokens s) then (Inl Unique_violation, s)
     else if session_id \<notin> s_id ` set (sessions s) \<or> user_id \<notin> u_id ` set (users s)
     then (Inl Foreign_key_violation, s)
     else let r = \<lparr>rt_id = next_id s, rt_session_id = session_id, rt_user_id = user_id,
                   rt_token_hash = token_hash, rt_expires_at = expires_at, rt_created_at = now s,
                   rt_rotated_at = None, rt_revoked_at = None\<rparr>
          in (Inr r, s\<lparr>refresh_tokens := refresh_tokens s @ [r], next_id := next_id s + 1\<rparr>))"

definition find_refresh_token :: "string \<Rightarrow> refresh_token option statement" where
  "find_refresh_token token_hash = sql (\<lambda>s.
     (Inr (find (\<lambda>r. rt_token_hash r = token_hash) (refresh_tokens s)), s))"

definition mark_rotated :: "uuid \<Rightarrow> bool statement" where
  "mark_rotated token_id = sql (\<lambda>s.
     let hit = (\<lambda>r. rt_id r = token_id \<and> rt_rotated_at r = None)
     in (Inr (list_ex hit (refresh_tokens s)),
         s\<lparr>refresh_tokens := update_rows hit (\<lambda>r. r\<lparr>rt_rotated_at := Some (now s)\<rparr>) (refresh_tokens s)\<rparr>))"

subsection \<open>Public keys\<close>

definition keys_insert :: "uuid \<Rightarrow> bytes \<Rightarrow> bytes \<Rightarrow> string \<Rightarrow> public_key_record statement" where
  "keys_insert user_id ed x label = sql (\<lambda>s.
     if (user_id, label) \<in> (\<lambda>k. (pk_user_id k, pk_label k)) ` set (public_keys s)
     then (Inl Unique_violation, s)
     else if user_id \<notin> u_id ` set (users s) then (Inl Foreign_key_violation, s)
     else let k = \<lparr>pk_id = next_id s, pk_user_id = user_id, pk_ed25519 = ed, pk_x25519 = x,
                   pk_label = label, pk_created_at = now s, pk_revoked_at = None\<rparr>
          in (Inr k, s\<lparr>public_keys := public_keys s @ [k], next_id := next_id s + 1\<rparr>))"

definition belongs_to_user :: "uuid \<Rightarrow> uuid \<Rightarrow> bool statement" where
  "belongs_to_user key_id user_id = sql (\<lambda>s.
     (Inr (find (\<lambda>k. pk_id k = key_id \<and> pk_user_id k = user_id \<and> pk_revoked_at k = None)
            (public_keys s) \<noteq> None), s))"

text \<open>Rows with equal sort keys come in table order, where SQL leaves the order open.\<close>

definition keys_list_for_user :: "uuid \<Rightarrow> public_key_record list statement" where
  "keys_list_for_user user_id = sql (\<lambda>s.
     (Inr (sort_key pk_created_at
        (filter (\<lambda>k. pk_user_id k = user_id \<and> pk_revoked_at k = None) (public_keys s))), s))"

subsection \<open>Conversations\<close>

definition conversations_insert :: "uuid \<Rightarrow> string \<Rightarrow> string option \<Rightarrow> conversation statement" where
  "conversations_insert user_id title model = sql (\<lambda>s.
     if user_id \<notin> u_id ` set (users s) then (Inl Foreign_key_violation, s)
     else let c = \<lparr>c_id = next_id s, c_user_id = user_id, c_title = title, c_model = model,
                   c_created_at = now s, c_updated_at = now s, c_deleted_at = None\<rparr>
          in (Inr c, s\<lparr>conversations := conversations s @ [c], next_id := next_id s + 1\<rparr>))"

definition owned_by :: "uuid \<Rightarrow> uuid \<Rightarrow> conversation \<Rightarrow> bool" where
  "owned_by i user_id c \<longleftrightarrow> c_id c = i \<and> c_user_id c = user_id \<and> c_deleted_at c = None"

definition conversations_list_for_user :: "uuid \<Rightarrow> conversation list statement" where
  "conversations_list_for_user user_id = sql (\<lambda>s.
     (Inr (sort_key (\<lambda>c. - c_updated_at c)
        (filter (\<lambda>c. c_user_id c = user_id \<and> c_deleted_at c = None) (conversations s))), s))"

definition find_owned :: "uuid \<Rightarrow> uuid \<Rightarrow> conversation option statement" where
  "find_owned i user_id = sql (\<lambda>s. (Inr (find (owned_by i user_id) (conversations s)), s))"

definition coalesce :: "'a option \<Rightarrow> 'a option \<Rightarrow> 'a option" where
  "coalesce a b = (case a of None \<Rightarrow> b | Some x \<Rightarrow> Some x)"

definition update_conversation ::
  "uuid \<Rightarrow> uuid \<Rightarrow> string option \<Rightarrow> string option \<Rightarrow> conversation option statement" where
  "update_conversation i user_id title model = sql (\<lambda>s.
     let f = (\<lambda>c. c\<lparr>c_title := (case title of None \<Rightarrow> c_title c | Some t \<Rightarrow> t),
                    c_model := coalesce model (c_model c), c_updated_at := now s\<rparr>)
     in (Inr (map_option f (find (owned_by i user_id) (conversations s))),
         s\<lparr>conversations := update_rows (owned_by i user_id) f (conversations s)\<rparr>))"

definition soft_delete :: "uuid \<Rightarrow> uuid \<Rightarrow> bool statement" where
  "soft_delete i user_id = sql (\<lambda>s.
     (Inr (list_ex (owned_by i user_id) (conversations s)),
      s\<lparr>conversations := update_rows (owned_by i user_id)
          (\<lambda>c. c\<lparr>c_deleted_at := Some (now s)\<rparr>) (conversations s)\<rparr>))"

definition touch :: "uuid \<Rightarrow> unit statement" where
  "touch i = sql (\<lambda>s. (Inr (), s\<lparr>conversations :=
     update_rows (\<lambda>c. c_id c = i) (\<lambda>c. c\<lparr>c_updated_at := now s\<rparr>) (conversations s)\<rparr>))"

subsection \<open>Messages\<close>

definition messages_insert ::
  "uuid \<Rightarrow> uuid \<Rightarrow> string \<Rightarrow> bytes \<Rightarrow> bytes \<Rightarrow> string \<Rightarrow> uuid option \<Rightarrow> encrypted_message statement" where
  "messages_insert conversation_id user_id role ciphertext nonce algorithm key_id = sql (\<lambda>s.
     if role \<notin> {''user'', ''assistant''} then (Inl Check_violation, s)
     else if conversation_id \<notin> c_id ` set (conversations s) \<or> user_id \<notin> u_id ` set (users s)
       \<or> (case key_id of None \<Rightarrow> False | Some k \<Rightarrow> k \<notin> pk_id ` set (public_keys s))
     then (Inl Foreign_key_violation, s)
     else let m = \<lparr>m_id = next_id s, m_conversation_id = conversation_id, m_user_id = user_id,
                   m_role = role, m_ciphertext = ciphertext, m_nonce = nonce,
                   m_algorithm = algorithm, m_key_id = key_id, m_created_at = now s\<rparr>
          in (Inr m, s\<lparr>encrypted_messages := encrypted_messages s @ [m], next_id := next_id s + 1\<rparr>))"

definition page_filter :: "uuid \<Rightarrow> uuid \<Rightarrow> timestamp option \<Rightarrow> encrypted_message \<Rightarrow> bool" where
  "page_filter conversation_id user_id before m \<longleftrightarrow>
     m_conversation_id m = conversation_id \<and> m_user_id m = user_id \<and>
     (case before of None \<Rightarrow> True | Some t \<Rightarrow> m_created_at m < t)"

definition list_for_conversation ::
  "uuid \<Rightarrow> uuid \<Rightarrow> nat \<Rightarrow> timestamp option \<Rightarrow> encrypted_message list statement" where
  "list_for_conversation conversation_id user_id limit before = sql (\<lambda>s.
     (Inr (take limit (sort_key (\<lambda>m. - m_created_at m)
        (filter (page_filter conversation_id user_id before) (encrypted_messages s)))), s))"

definition delete_owned :: "uuid \<Rightarrow> uuid \<Rightarrow> bool statement" where
  "delete_owned i user_id = sql (\<lambda>s.
     let hit = (\<lambda>m. m_id m = i \<and> m_user_id m = user_id)
     in (Inr (list_ex hit (encrypted_messages s)),
         s\<lparr>encrypted_messages := filter (\<lambda>m. \<not> hit m) (encrypted_messages s)\<rparr>))"

subsection \<open>Audit events\<close>

definition audit_insert ::
  "uuid option \<Rightarrow> string \<Rightarrow> (string \<times> meta_value) list \<Rightarrow> string option \<Rightarrow> unit statement" where
  "audit_insert user_id event_type metadata ip_address = sql (\<lambda>s.
     if (case user_id of None \<Rightarrow> False | Some u \<Rightarrow> u \<notin> u_id ` set (users s))
     then (Inl Foreign_key_violation, s)
     else (Inr (), s\<lparr>audit_events := audit_events s @
       [\<lparr>a_user_id = user_id, a_event_type = event_type, a_metadata = metadata,
         a_ip_address = ip_address, a_created_at = now s\<rparr>]\<rparr>))"

subsection \<open>Well-formed databases\<close>

text \<open>
  Three groups: identifiers are fresh and unique; the uniqueness constraints and foreign keys of
  the schema hold; and, beyond the schema, rows that refer to each other have the same owner.
\<close>

definition ids_ok :: "store \<Rightarrow> bool" where
  "ids_ok s \<longleftrightarrow>
     distinct (map u_id (users s)) \<and> list_all (\<lambda>u. u_id u < next_id s) (users s) \<and>
     distinct (map s_id (sessions s)) \<and> list_all (\<lambda>x. s_id x < next_id s) (sessions s) \<and>
     distinct (map rt_id (refresh_tokens s)) \<and> list_all (\<lambda>r. rt_id r < next_id s) (refresh_tokens s) \<and>
     distinct (map pk_id (public_keys s)) \<and> list_all (\<lambda>k. pk_id k < next_id s) (public_keys s) \<and>
     distinct (map c_id (conversations s)) \<and> list_all (\<lambda>c. c_id c < next_id s) (conversations s) \<and>
     distinct (map m_id (encrypted_messages s)) \<and> list_all (\<lambda>m. m_id m < next_id s) (encrypted_messages s)"

definition schema_ok :: "store \<Rightarrow> bool" where
  "schema_ok s \<longleftrightarrow>
     distinct (map u_email (users s)) \<and>
     distinct (map rt_token_hash (refresh_tokens s)) \<and>
     distinct (map (\<lambda>k. (pk_user_id k, pk_label k)) (public_keys s)) \<and>
     list_all (\<lambda>x. s_user_id x \<in> u_id ` set (users s)) (sessions s) \<and>
     list_all (\<lambda>k. pk_user_id k \<in> u_id ` set (users s)) (public_keys s) \<and>
     list_all (\<lambda>c. c_user_id c \<in> u_id ` set (users s)) (conversations s) \<and>
     list_all (\<lambda>m. m_role m \<in> {''user'', ''assistant''}) (encrypted_messages s)"

definition owners_ok :: "store \<Rightarrow> bool" where
  "owners_ok s \<longleftrightarrow>
     list_all (\<lambda>r. (rt_session_id r, rt_user_id r) \<in> (\<lambda>x. (s_id x, s_user_id x)) ` set (sessions s))
       (refresh_tokens s) \<and>
     list_all (\<lambda>m. (m_conversation_id m, m_user_id m) \<in> (\<lambda>c. (c_id c, c_user_id c)) ` set (conversations s))
       (encrypted_messages s) \<and>
     list_all (\<lambda>m. (\<lambda>k. (k, m_user_id m)) ` set_option (m_key_id m)
         \<subseteq> (\<lambda>p. (pk_id p, pk_user_id p)) ` set (public_keys s)) (encrypted_messages s)"

definition db_ok :: "store \<Rightarrow> bool" where
  "db_ok s \<longleftrightarrow> ids_ok s \<and> schema_ok s \<and> owners_ok s"

subsection \<open>What no operation undoes\<close>

text \<open>
  The preorder of history: users and keys stay, revocation, rotation and deletion are final, the
  owner of a row never changes, the audit trail only grows, and the clock does not run back.
\<close>

definition evolve :: "('r \<Rightarrow> 'r \<Rightarrow> bool) \<Rightarrow> 'r list \<Rightarrow> 'r list \<Rightarrow> bool" where
  "evolve later rows rows' \<longleftrightarrow> (\<forall>x \<in> set rows. \<exists>y \<in> set rows'. later x y)"

definition final :: "'a option \<Rightarrow> 'a option \<Rightarrow> bool" where
  "final x y \<longleftrightarrow> x = None \<or> y = x"

definition session_later :: "session \<Rightarrow> session \<Rightarrow> bool" where
  "session_later x y \<longleftrightarrow> s_id y = s_id x \<and> s_user_id y = s_user_id x \<and> final (s_revoked_at x) (s_revoked_at y)"

definition token_later :: "refresh_token \<Rightarrow> refresh_token \<Rightarrow> bool" where
  "token_later x y \<longleftrightarrow> rt_id y = rt_id x \<and> rt_session_id y = rt_session_id x \<and> rt_user_id y = rt_user_id x \<and>
     rt_token_hash y = rt_token_hash x \<and> rt_expires_at y = rt_expires_at x \<and>
     final (rt_rotated_at x) (rt_rotated_at y) \<and> final (rt_revoked_at x) (rt_revoked_at y)"

definition conversation_later :: "conversation \<Rightarrow> conversation \<Rightarrow> bool" where
  "conversation_later x y \<longleftrightarrow> c_id y = c_id x \<and> c_user_id y = c_user_id x \<and> final (c_deleted_at x) (c_deleted_at y)"

definition history :: "store \<Rightarrow> store \<Rightarrow> bool" where
  "history s t \<longleftrightarrow>
     set (users s) \<subseteq> set (users t) \<and> set (public_keys s) \<subseteq> set (public_keys t) \<and>
     evolve session_later (sessions s) (sessions t) \<and>
     evolve token_later (refresh_tokens s) (refresh_tokens t) \<and>
     evolve conversation_later (conversations s) (conversations t) \<and>
     (\<exists>es. audit_events t = audit_events s @ es) \<and>
     next_id s \<le> next_id t \<and> now s \<le> now t"

text \<open>The frame of a user: every row of every other user is as it was.\<close>

definition foreign :: "uuid \<Rightarrow> store \<Rightarrow> store \<Rightarrow> bool" where
  "foreign u s t \<longleftrightarrow>
     filter (\<lambda>k. pk_user_id k \<noteq> u) (public_keys t) = filter (\<lambda>k. pk_user_id k \<noteq> u) (public_keys s) \<and>
     filter (\<lambda>c. c_user_id c \<noteq> u) (conversations t) = filter (\<lambda>c. c_user_id c \<noteq> u) (conversations s) \<and>
     filter (\<lambda>m. m_user_id m \<noteq> u) (encrypted_messages t) = filter (\<lambda>m. m_user_id m \<noteq> u) (encrypted_messages s) \<and>
     users t = users s \<and> sessions t = sessions s \<and> refresh_tokens t = refresh_tokens s"

text \<open>Statements that create nothing and draw nothing.\<close>

definition bookkeeping :: "store \<Rightarrow> store \<Rightarrow> bool" where
  "bookkeeping s t \<longleftrightarrow> next_id t = next_id s \<and> draws t = draws s \<and> now s \<le> now t"

text \<open>Only time passes.\<close>

definition quiet_step :: "store \<Rightarrow> store \<Rightarrow> bool" where
  "quiet_step s t \<longleftrightarrow> now s \<le> now t \<and> t = s\<lparr>now := now t, script := script t\<rparr>"

text \<open>The session exists and is the user's; the conversation exists and is the user's.\<close>

definition session_owned :: "uuid \<Rightarrow> uuid \<Rightarrow> store \<Rightarrow> bool" where
  "session_owned i u s \<longleftrightarrow> (i, u) \<in> (\<lambda>x. (s_id x, s_user_id x)) ` set (sessions s)"

definition conversation_owned :: "uuid \<Rightarrow> uuid \<Rightarrow> store \<Rightarrow> bool" where
  "conversation_owned i u s \<longleftrightarrow> (i, u) \<in> (\<lambda>c. (c_id c, c_user_id c)) ` set (conversations s)"

definition key_owned :: "uuid \<Rightarrow> uuid \<Rightarrow> store \<Rightarrow> bool" where
  "key_owned i u s \<longleftrightarrow> (i, u) \<in> (\<lambda>k. (pk_id k, pk_user_id k)) ` set (public_keys s)"

section \<open>Preorders on the database\<close>

lemma tick_cases:
  obtains n sc where "snd (tick s) = s\<lparr>now := n, script := sc\<rparr>" "now s \<le> n"
proof (cases "script s")
  case Nil
  then show ?thesis using that [of "script s" "now s"] by (simp add: tick_def)
next
  case (Cons p rest)
  obtain d f where p: "p = (d, f)" by (cases p)
  show ?thesis
  proof (cases "f = Abandoned")
    case True
    then show ?thesis using Cons p that [of "script s" "now s"] by (simp add: tick_def)
  next
    case False
    then have "tick s = (f, s\<lparr>now := now s + int d, script := rest\<rparr>)"
      using Cons p by (cases f) (simp_all add: tick_def)
    then show ?thesis using that [of rest "now s + int d"] by simp
  qed
qed

text \<open>
  The contract of a round trip: a preorder that tolerates the passing of time is respected by a
  statement, failed or not, when its effect respects it.
\<close>

locale store_order = state_order R for R :: "store \<Rightarrow> store \<Rightarrow> bool" +
  assumes quiet: "now s \<le> n \<Longrightarrow> R s (s\<lparr>now := n, script := sc\<rparr>)"
begin

lemma R_quiet: "quiet_step s t \<Longrightarrow> R s t"
  using quiet [of s "now t" "script t"] by (simp add: quiet_step_def)

lemma R_tick: "R s (snd (tick s))"
  by (rule tick_cases [of s]) (simp add: quiet)

lemma stays_sql:
  assumes "\<And>s. R s (snd (stmt s))"
  shows "stays R (sql stmt)"
proof (rule staysI)
  fix s
  obtain f s1 where t: "tick s = (f, s1)" by (cases "tick s")
  then have "R s s1" using R_tick [of s] by simp
  then show "R s (snd (sql stmt s))"
    using t assms [of s1] by (auto simp: sql_def intro: R_trans split: fault.split)
qed

lemma stays_read: "stays R (sql (\<lambda>s. (Inr (f s), s)))"
  by (rule stays_sql) (simp add: R_refl)

lemma stays_reads:
  "stays R (find_by_email email)" "stays R (find_by_id i)" "stays R (is_active i)"
  "stays R (find_refresh_token h)" "stays R (belongs_to_user i u)" "stays R (keys_list_for_user u)"
  "stays R (conversations_list_for_user u)" "stays R (find_owned i u)"
  "stays R (list_for_conversation i u n before)"
  unfolding find_by_email_def find_by_id_def is_active_def find_refresh_token_def belongs_to_user_def
    keys_list_for_user_def conversations_list_for_user_def find_owned_def list_for_conversation_def
  by (rule stays_read)+

text \<open>A transaction of updates that keep identifiers: nothing happens, or all of them do.\<close>

lemma stays_transaction:
  assumes "\<And>s. R s (snd (m s))"
    and "\<And>s. \<exists>n sc. rollback s (snd (m s)) = s\<lparr>now := n, script := sc\<rparr> \<and> now s \<le> n"
  shows "stays R (transaction m)"
proof -
  have "R s0 (snd (run_commit m s0))" for s0
  proof -
    obtain r s1 where m: "m s0 = (r, s1)" by (cases "m s0")
    obtain f s2 where t: "tick s1 = (f, s2)" by (cases "tick s1")
    obtain n sc where r1: "rollback s0 s1 = s0\<lparr>now := n, script := sc\<rparr>" "now s0 \<le> n"
      using assms(2) [of s0] m by auto
    obtain n2 sc2 where s2: "s2 = s1\<lparr>now := n2, script := sc2\<rparr>" "now s1 \<le> n2"
      using t by (metis snd_conv tick_cases)
    have "rollback s0 s2 = (rollback s0 s1)\<lparr>now := n2, script := sc2\<rparr>" and "now s1 = now (rollback s0 s1)"
      by (simp_all add: s2 rollback_def)
    then have r2: "R s0 (rollback s0 s2)" using r1 s2(2) quiet [of s0 n2 sc2] by simp
    have "R s0 s1" using assms(1) [of s0] m by simp
    moreover have "R s1 s2" using R_tick [of s1] t by simp
    ultimately have "R s0 s2" by (rule R_trans)
    then show ?thesis using m t r1 r2 quiet [of s0 n sc] by (auto simp: run_commit_def split: sum.split fault.split)
  qed
  then have "stays R (run_commit m)" by (rule staysI)
  moreover have "stays R (sql (okE ()))" by (rule stays_sql) (simp add: R_refl)
  ultimately show ?thesis unfolding transaction_def by (intro stays_bindE)
qed

end

subsection \<open>Interpretations\<close>

lemma update_rows_mem: "x \<in> set rows \<Longrightarrow> (if P x then f x else x) \<in> set (update_rows P f rows)"
  by (auto simp: update_rows_def)

lemma map_update_rows: "(\<And>x. g (f x) = g x) \<Longrightarrow> map g (update_rows P f rows) = map g rows"
  by (simp add: update_rows_def)

lemma image_update_rows: "(\<And>x. g (f x) = g x) \<Longrightarrow> g ` set (update_rows P f rows) = g ` set rows"
  using map_update_rows [of g f P rows] by (metis list.set_map)

lemma filter_update_rows:
  "(\<And>x. P x \<Longrightarrow> \<not> Q x \<and> \<not> Q (f x)) \<Longrightarrow> filter Q (update_rows P f rows) = filter Q rows"
  by (induction rows) (simp_all add: update_rows_def)

lemma list_all_update_rows:
  "(\<And>x. Q (f x) = Q x) \<Longrightarrow> list_all Q (update_rows P f rows) = list_all Q rows"
  by (induction rows) (simp_all add: update_rows_def)

interpretation calm: store_order quiet_step
proof unfold_locales
  fix s t u :: store
  show "quiet_step s t \<Longrightarrow> quiet_step t u \<Longrightarrow> quiet_step s u"
    by (cases s; cases t; cases u) (auto simp: quiet_step_def)
qed (simp_all add: quiet_step_def)

interpretation bk: store_order bookkeeping
  by unfold_locales (auto simp: bookkeeping_def)

lemma final_simps [simp]: "final x x" "final None y"
  by (simp_all add: final_def)

lemma final_trans: "final x y \<Longrightarrow> final y z \<Longrightarrow> final x z"
  by (auto simp: final_def)

lemma later_refl [simp]: "session_later x x" "token_later r r" "conversation_later c c"
  by (simp_all add: session_later_def token_later_def conversation_later_def)

lemma evolve_refl: "(\<And>x. later x x) \<Longrightarrow> evolve later xs xs"
  by (auto simp: evolve_def)

lemma evolve_append: "(\<And>x. later x x) \<Longrightarrow> evolve later xs (xs @ ys)"
  by (auto simp: evolve_def)

lemma evolve_update_rows:
  "(\<And>x. later x x) \<Longrightarrow> (\<And>x. P x \<Longrightarrow> later x (f x)) \<Longrightarrow> evolve later xs (update_rows P f xs)"
  unfolding evolve_def by (metis update_rows_mem)

lemma evolve_trans:
  assumes "evolve later xs ys" and "evolve later ys zs"
    and "\<And>x y z. later x y \<Longrightarrow> later y z \<Longrightarrow> later x z"
  shows "evolve later xs zs"
  using assms unfolding evolve_def by meson

lemma later_trans:
  "session_later x y \<Longrightarrow> session_later y z \<Longrightarrow> session_later x z"
  "token_later r r' \<Longrightarrow> token_later r' r'' \<Longrightarrow> token_later r r''"
  "conversation_later c c' \<Longrightarrow> conversation_later c' c'' \<Longrightarrow> conversation_later c c''"
  unfolding session_later_def token_later_def conversation_later_def by (metis final_trans)+

lemma history_refl [simp]: "history s s"
  by (simp add: history_def evolve_refl)

lemma history_trans: "history s t \<Longrightarrow> history t u \<Longrightarrow> history s u"
  unfolding history_def
  by (intro conjI) (auto intro: evolve_trans later_trans)

interpretation hist: store_order history
  by unfold_locales (rule history_refl, erule (1) history_trans, simp add: history_def evolve_refl)

interpretation frame: store_order "foreign u" for u
  by unfold_locales (auto simp: foreign_def)

interpretation wf: store_order "\<lambda>s t. db_ok s \<longrightarrow> db_ok t"
  by unfold_locales (auto simp: db_ok_def ids_ok_def schema_ok_def owners_ok_def)

subsection \<open>Every statement is a step of history\<close>

lemma history_inserts:
  "stays history (users_insert e p d)" "stays history (create_session u a ip)"
  "stays history (insert_refresh_token i u h t)" "stays history (keys_insert u ed x l)"
  "stays history (conversations_insert u ti mo)" "stays history (messages_insert c u ro ci n al k)"
  "stays history (audit_insert ou ty me ip)" "stays history (delete_owned i u)"
  unfolding users_insert_def create_session_def insert_refresh_token_def keys_insert_def
    conversations_insert_def messages_insert_def audit_insert_def delete_owned_def
  by (rule hist.stays_sql; auto simp: history_def Let_def evolve_refl evolve_append)+

lemma history_updates:
  "stays history (mark_rotated i)" "stays history (update_conversation i u ti mo)"
  "stays history (soft_delete i u)" "stays history (touch i)"
  unfolding mark_rotated_def update_conversation_def soft_delete_def touch_def
  by (rule hist.stays_sql; auto simp: history_def Let_def evolve_refl session_later_def token_later_def
      conversation_later_def owned_by_def intro!: evolve_update_rows)+

lemma revoke_step:
  assumes "store_order R"
    and "\<And>s t. R s (s\<lparr>sessions := update_rows (\<lambda>x. s_id x = i \<and> s_revoked_at x = None)
         (\<lambda>x. x\<lparr>s_revoked_at := Some t\<rparr>) (sessions s)\<rparr>)"
    and "\<And>s t. R s (s\<lparr>refresh_tokens := update_rows (\<lambda>r. rt_session_id r = i \<and> rt_revoked_at r = None)
         (\<lambda>r. r\<lparr>rt_revoked_at := Some t\<rparr>) (refresh_tokens s)\<rparr>)"
  shows "stays R (revoke_session i)"
proof -
  let ?body = "\<lambda>t. bindE (sql (\<lambda>s. (Inr (), s\<lparr>sessions :=
       update_rows (\<lambda>x. s_id x = i \<and> s_revoked_at x = None)
         (\<lambda>x. x\<lparr>s_revoked_at := Some t\<rparr>) (sessions s)\<rparr>))) (\<lambda>_.
     sql (\<lambda>s. (Inr (), s\<lparr>refresh_tokens :=
       update_rows (\<lambda>r. rt_session_id r = i \<and> rt_revoked_at r = None)
         (\<lambda>r. r\<lparr>rt_revoked_at := Some t\<rparr>) (refresh_tokens s)\<rparr>)))"
  have body: "stays Q (?body t)" if "store_order Q"
    "\<And>s t. Q s (s\<lparr>sessions := update_rows (\<lambda>x. s_id x = i \<and> s_revoked_at x = None)
         (\<lambda>x. x\<lparr>s_revoked_at := Some t\<rparr>) (sessions s)\<rparr>)"
    "\<And>s t. Q s (s\<lparr>refresh_tokens := update_rows (\<lambda>r. rt_session_id r = i \<and> rt_revoked_at r = None)
         (\<lambda>r. r\<lparr>rt_revoked_at := Some t\<rparr>) (refresh_tokens s)\<rparr>)" for Q t
    using that by (intro state_order.stays_bindE store_order.axioms(1) store_order.stays_sql) simp_all
  have "rollback s (snd (?body (now s) s)) = s\<lparr>now := now (snd (?body (now s) s)),
      script := script (snd (?body (now s) s))\<rparr> \<and> now s \<le> now (snd (?body (now s) s))" for s
    using staysD [OF body [OF bk.store_order_axioms], of s "now s"]
    by (simp add: bookkeeping_def rollback_def)
  then show ?thesis
    unfolding revoke_session_def Let_def
    by (intro store_order.stays_transaction [OF assms(1)] staysD [OF body [OF assms]] exI)
qed

lemma history_revoke: "stays history (revoke_session i)"
  by (rule revoke_step [OF hist.store_order_axioms])
    (auto simp: history_def evolve_refl session_later_def token_later_def intro!: evolve_update_rows)

subsection \<open>A user's statements touch no other user's rows\<close>

lemma foreign_statements:
  "stays (foreign u) (keys_insert u ed x l)" "stays (foreign u) (conversations_insert u ti mo)"
  "stays (foreign u) (update_conversation i u oti mo)" "stays (foreign u) (soft_delete i u)"
  "stays (foreign u) (messages_insert c u ro ci n al k)" "stays (foreign u) (delete_owned i u)"
  "stays (foreign u) (audit_insert ou ty me ip)"
  unfolding keys_insert_def conversations_insert_def update_conversation_def soft_delete_def
    messages_insert_def delete_owned_def audit_insert_def
  by (rule frame.stays_sql; auto simp: foreign_def Let_def owned_by_def intro!: filter_update_rows filter_cong)+

lemma foreign_touch:
  assumes "\<forall>c \<in> set (conversations s). c_id c = i \<longrightarrow> c_user_id c = u"
  shows "foreign u s (snd (touch i s))"
proof -
  have upd: "filter (\<lambda>c. c_user_id c \<noteq> u) (update_rows (\<lambda>c. c_id c = i) (\<lambda>c. c\<lparr>c_updated_at := t\<rparr>) cs) =
      filter (\<lambda>c. c_user_id c \<noteq> u) cs" if "\<forall>c \<in> set cs. c_id c = i \<longrightarrow> c_user_id c = u" for t cs
    using that by (induction cs) (auto simp: update_rows_def)
  obtain n sc where t: "snd (tick s) = s\<lparr>now := n, script := sc\<rparr>" by (rule tick_cases)
  then show ?thesis
    using upd [OF assms] by (cases "tick s") (auto simp: touch_def sql_def foreign_def split: fault.split)
qed

subsection \<open>Well-formedness\<close>

lemmas db_ok_defs = db_ok_def ids_ok_def schema_ok_def owners_ok_def

lemma wf_inserts:
  "stays (\<lambda>s t. db_ok s \<longrightarrow> db_ok t) (users_insert e p d)"
  "stays (\<lambda>s t. db_ok s \<longrightarrow> db_ok t) (create_session u a ip)"
  "stays (\<lambda>s t. db_ok s \<longrightarrow> db_ok t) (keys_insert u ed x l)"
  "stays (\<lambda>s t. db_ok s \<longrightarrow> db_ok t) (conversations_insert u ti mo)"
  "stays (\<lambda>s t. db_ok s \<longrightarrow> db_ok t) (audit_insert ou ty me ip)"
  unfolding users_insert_def create_session_def keys_insert_def conversations_insert_def audit_insert_def
  by (rule wf.stays_sql; auto simp: db_ok_defs Let_def list_all_iff less_Suc_eq)+

lemma wf_delete_owned: "stays (\<lambda>s t. db_ok s \<longrightarrow> db_ok t) (delete_owned i u)"
  unfolding delete_owned_def
  by (rule wf.stays_sql) (auto simp: db_ok_defs Let_def list_all_iff distinct_map_filter)

lemma wf_updates:
  "stays (\<lambda>s t. db_ok s \<longrightarrow> db_ok t) (mark_rotated i)"
  "stays (\<lambda>s t. db_ok s \<longrightarrow> db_ok t) (update_conversation i u ti mo)"
  "stays (\<lambda>s t. db_ok s \<longrightarrow> db_ok t) (soft_delete i u)"
  "stays (\<lambda>s t. db_ok s \<longrightarrow> db_ok t) (touch i)"
  unfolding mark_rotated_def update_conversation_def soft_delete_def touch_def
  by (rule wf.stays_sql; simp add: db_ok_defs Let_def map_update_rows image_update_rows list_all_update_rows)+

lemma wf_revoke: "stays (\<lambda>s t. db_ok s \<longrightarrow> db_ok t) (revoke_session i)"
  by (rule revoke_step [OF wf.store_order_axioms])
    (simp_all add: db_ok_defs map_update_rows image_update_rows list_all_update_rows)

lemma history_owned:
  assumes "history s t"
  shows "session_owned i u s \<Longrightarrow> session_owned i u t"
    and "conversation_owned i u s \<Longrightarrow> conversation_owned i u t"
    and "key_owned i u s \<Longrightarrow> key_owned i u t"
  using assms unfolding history_def evolve_def session_later_def conversation_later_def
    session_owned_def conversation_owned_def key_owned_def image_iff
  by (metis, metis, blast)

lemma owned_quiet [simp]:
  "session_owned i u (s\<lparr>now := n, script := sc\<rparr>) = session_owned i u s"
  "conversation_owned i u (s\<lparr>now := n, script := sc\<rparr>) = conversation_owned i u s"
  "key_owned i u (s\<lparr>now := n, script := sc\<rparr>) = key_owned i u s"
  by (simp_all add: session_owned_def conversation_owned_def key_owned_def)

text \<open>
  The two inserts that the schema alone does not make safe: a token needs a session of the same
  user, a message a conversation and a key of the same user.
\<close>

interpretation owned_wf: store_order
  "\<lambda>s t. db_ok s \<and> session_owned i u s \<longrightarrow> db_ok t \<and> session_owned i u t" for i u
  by unfold_locales (auto simp: db_ok_defs)

interpretation message_wf: store_order
  "\<lambda>s t. db_ok s \<and> conversation_owned i u s \<and> (\<forall>k \<in> set_option k. key_owned k u s) \<longrightarrow>
         db_ok t \<and> conversation_owned i u t \<and> (\<forall>k \<in> set_option k. key_owned k u t)" for i u k
  by unfold_locales (auto simp: db_ok_defs)

lemma wf_insert_refresh_token:
  "stays (\<lambda>s t. db_ok s \<and> session_owned i u s \<longrightarrow> db_ok t \<and> session_owned i u t)
     (insert_refresh_token i u h e)"
  unfolding insert_refresh_token_def
  by (rule owned_wf.stays_sql) (auto simp: db_ok_defs session_owned_def Let_def list_all_iff less_Suc_eq)

lemma wf_messages_insert:
  "stays (\<lambda>s t. db_ok s \<and> conversation_owned i u s \<and> (\<forall>k \<in> set_option k. key_owned k u s) \<longrightarrow>
         db_ok t \<and> conversation_owned i u t \<and> (\<forall>k \<in> set_option k. key_owned k u t))
     (messages_insert i u ro ci n al k)"
  unfolding messages_insert_def
  by (rule message_wf.stays_sql)
    (auto simp: db_ok_defs conversation_owned_def key_owned_def Let_def list_all_iff less_Suc_eq)

subsection \<open>Running statements\<close>

lemma sql_ok:
  assumes "sql stmt s = (Inr x, t)"
  obtains n sc where "now s \<le> n" "stmt (s\<lparr>now := n, script := sc\<rparr>) = (Inr x, t)"
proof -
  obtain n sc where t: "snd (tick s) = s\<lparr>now := n, script := sc\<rparr>" "now s \<le> n" by (rule tick_cases)
  then show ?thesis
    using assms that [of n sc] by (cases "tick s") (auto simp: sql_def split: fault.splits)
qed

lemma sql_quiet [simp]: "script s = [] \<Longrightarrow> sql stmt s = stmt s"
  by (simp add: sql_def tick_def)

lemma transaction_quiet:
  "script s = [] \<Longrightarrow> m s = (Inr x, t) \<Longrightarrow> script t = [] \<Longrightarrow> transaction m s = (Inr x, t)"
  by (simp add: transaction_def bindE_def run_commit_def tick_def)

end
