(* ===== verification/Config.thy ===== *)
theory Config
  imports Rust_Text
begin

text \<open>
  \<^verbatim>\<open>src/config.rs\<close>: the settings, read from a map of environment variables. An
  \<^verbatim>\<open>anyhow::Error\<close> is its message. A \<^verbatim>\<open>Duration\<close> built by \<^verbatim>\<open>from_secs\<close> is its number of
  seconds; \<^verbatim>\<open>usize\<close> has 64 bits. \<^verbatim>\<open>from_env\<close> is \<open>from_map\<close> applied to the process environment.
\<close>

section \<open>Definitions\<close>

datatype environment = Development | Testing | Production

definition environment_parse :: "string \<Rightarrow> string + environment" where
  "environment_parse v =
     (let w = to_ascii_lowercase v in
      if w = ''development'' \<or> w = ''dev'' then Inr Development
      else if w = ''testing'' \<or> w = ''test'' then Inr Testing
      else if w = ''production'' \<or> w = ''prod'' then Inr Production
      else Inl (''unknown ENVIRONMENT value: '' @ w))"

definition is_production :: "environment \<Rightarrow> bool" where
  "is_production e = (case e of Production \<Rightarrow> True | _ \<Rightarrow> False)"

datatype provider_kind = OpenAi | Anthropic | Ollama

definition provider_parse :: "string \<Rightarrow> string + provider_kind" where
  "provider_parse v =
     (let w = to_ascii_lowercase v in
      if w = ''openai'' then Inr OpenAi
      else if w = ''anthropic'' then Inr Anthropic
      else if w = ''ollama'' then Inr Ollama
      else Inl (''unknown PROVIDER value: '' @ w @ '' (expected openai|anthropic|ollama)''))"

record config =
  environment :: environment
  bind_addr :: string
  database_url :: string
  database_max_connections :: u32
  jwt_secret :: string
  access_token_ttl :: u64
  refresh_token_ttl :: u64
  provider :: provider_kind
  provider_default_model :: string
  openai_api_key :: "string option"
  openai_base_url :: string
  anthropic_api_key :: "string option"
  anthropic_base_url :: string
  ollama_base_url :: string
  rate_limit_requests :: u32
  rate_limit_window :: u64
  auth_rate_limit_requests :: u32
  cors_allowed_origins :: "string list"
  request_body_limit_bytes :: nat
  trust_proxy_headers :: bool
  request_timeout :: u64
  tls_cert_path :: "string option"
  tls_key_path :: "string option"
  log_json :: bool

type_synonym vars = "string \<Rightarrow> string option"

text \<open>The closures of \<^verbatim>\<open>from_map\<close>.\<close>

definition get :: "vars \<Rightarrow> string \<Rightarrow> string option" where
  "get vars key = (case vars key of None \<Rightarrow> None
     | Some v \<Rightarrow> if trim v = [] then None else Some (trim v))"

definition get_or :: "vars \<Rightarrow> string \<Rightarrow> string \<Rightarrow> string" where
  "get_or vars key dflt = (case get vars key of None \<Rightarrow> dflt | Some v \<Rightarrow> v)"

definition parse_u64 :: "vars \<Rightarrow> string \<Rightarrow> u64 \<Rightarrow> string + u64" where
  "parse_u64 vars key dflt = (case get vars key of
       Some v \<Rightarrow> map_err (\<lambda>_. key @ '' must be an integer'') (ok_or () (map_option of_nat (parse_uint 64 v)))
     | None \<Rightarrow> Inr dflt)"

definition parse_u32 :: "vars \<Rightarrow> string \<Rightarrow> u32 \<Rightarrow> string + u32" where
  "parse_u32 vars key dflt = (case get vars key of
       Some v \<Rightarrow> map_err (\<lambda>_. key @ '' must be a 32-bit integer'') (ok_or () (map_option of_nat (parse_uint 32 v)))
     | None \<Rightarrow> Inr dflt)"

definition parse_usize :: "vars \<Rightarrow> string \<Rightarrow> nat \<Rightarrow> string + nat" where
  "parse_usize vars key dflt = (case get vars key of
       Some v \<Rightarrow> map_err (\<lambda>_. key @ '' must be a non-negative integer'') (ok_or () (parse_uint 64 v))
     | None \<Rightarrow> Inr dflt)"

definition parse_bool :: "vars \<Rightarrow> string \<Rightarrow> bool \<Rightarrow> bool" where
  "parse_bool vars key dflt = (case get vars key of
       Some v \<Rightarrow> to_ascii_lowercase v \<in> {''1'', ''true'', ''yes''}
     | None \<Rightarrow> dflt)"

definition WEAK_SECRETS :: "string list" where
  "WEAK_SECRETS = [''change-me-to-a-long-random-secret-value-please'', ''changeme'', ''secret'']"

definition check_secret :: "environment \<Rightarrow> string \<Rightarrow> string + unit" where
  "check_secret env secret =
     (if length secret < 32 then Inl ''JWT_SECRET must be at least 32 bytes''
      else if is_production env \<and> list_ex (\<lambda>weak. contains_str weak secret) WEAK_SECRETS then
        Inl ''JWT_SECRET is a known placeholder value; set a strong random secret in production''
      else Inr ())"

definition check_provider_key :: "provider_kind \<Rightarrow> string option \<Rightarrow> string option \<Rightarrow> string + unit" where
  "check_provider_key kind openai anthropic =
     (case kind of
        OpenAi \<Rightarrow> (if openai = None then Inl ''OPENAI_API_KEY is required when PROVIDER=openai'' else Inr ())
      | Anthropic \<Rightarrow> (if anthropic = None
                      then Inl ''ANTHROPIC_API_KEY is required when PROVIDER=anthropic'' else Inr ())
      | Ollama \<Rightarrow> Inr ())"

definition origins :: "string \<Rightarrow> string list" where
  "origins s = filter (\<lambda>o'. o' \<noteq> []) (map trim (split_on (CHR '','') s))"

definition default_model :: "provider_kind \<Rightarrow> string" where
  "default_model kind = (case kind of
     OpenAi \<Rightarrow> ''gpt-4o-mini'' | Anthropic \<Rightarrow> ''claude-sonnet-5'' | Ollama \<Rightarrow> ''llama3.2'')"

text \<open>The struct literal at the end of \<^verbatim>\<open>from_map\<close>, from the values parsed before it.\<close>

definition build_config :: "vars \<Rightarrow> environment \<Rightarrow> string \<Rightarrow> string \<Rightarrow> provider_kind \<Rightarrow> u32 \<Rightarrow> u64 \<Rightarrow> u64 \<Rightarrow>
    u32 \<Rightarrow> u64 \<Rightarrow> u32 \<Rightarrow> nat \<Rightarrow> u64 \<Rightarrow> config" where
  "build_config vars env db_url secret kind max_conn access refresh limit win auth_limit body timeout =
     \<lparr>environment = env,
      bind_addr = get_or vars ''BIND_ADDR'' ''0.0.0.0:8080'',
      database_url = db_url,
      database_max_connections = max_conn,
      jwt_secret = secret,
      access_token_ttl = access,
      refresh_token_ttl = refresh,
      provider = kind,
      provider_default_model = get_or vars ''PROVIDER_DEFAULT_MODEL'' (default_model kind),
      openai_api_key = get vars ''OPENAI_API_KEY'',
      openai_base_url = get_or vars ''OPENAI_BASE_URL'' ''https://api.openai.com'',
      anthropic_api_key = get vars ''ANTHROPIC_API_KEY'',
      anthropic_base_url = get_or vars ''ANTHROPIC_BASE_URL'' ''https://api.anthropic.com'',
      ollama_base_url = get_or vars ''OLLAMA_BASE_URL'' ''http://127.0.0.1:11434'',
      rate_limit_requests = limit,
      rate_limit_window = win,
      auth_rate_limit_requests = auth_limit,
      cors_allowed_origins = origins (get_or vars ''CORS_ALLOWED_ORIGINS'' []),
      request_body_limit_bytes = body,
      trust_proxy_headers = parse_bool vars ''TRUST_PROXY_HEADERS'' False,
      request_timeout = timeout,
      tls_cert_path = get vars ''TLS_CERT_PATH'',
      tls_key_path = get vars ''TLS_KEY_PATH'',
      log_json = (get_or vars ''LOG_JSON'' (if is_production env then ''true'' else ''false'')
                    = ''true'')\<rparr>"

definition parse_numbers ::
  "vars \<Rightarrow> environment \<Rightarrow> string \<Rightarrow> string \<Rightarrow> provider_kind \<Rightarrow> string + config" where
  "parse_numbers vars env db_url secret kind =
     bindR (parse_u32 vars ''DATABASE_MAX_CONNECTIONS'' 10) (\<lambda>max_conn.
     bindR (parse_u64 vars ''ACCESS_TOKEN_TTL_SECS'' 900) (\<lambda>access.
     bindR (parse_u64 vars ''REFRESH_TOKEN_TTL_SECS'' (30 * 24 * 3600)) (\<lambda>refresh.
     bindR (parse_u32 vars ''RATE_LIMIT_REQUESTS'' 120) (\<lambda>limit.
     bindR (parse_u64 vars ''RATE_LIMIT_WINDOW_SECS'' 60) (\<lambda>win.
     bindR (parse_u32 vars ''AUTH_RATE_LIMIT_REQUESTS'' 10) (\<lambda>auth_limit.
     bindR (parse_usize vars ''REQUEST_BODY_LIMIT_BYTES'' (1024 * 1024)) (\<lambda>body.
     bindR (parse_u64 vars ''REQUEST_TIMEOUT_SECS'' 30) (\<lambda>timeout.
     Inr (build_config vars env db_url secret kind max_conn access refresh limit win auth_limit body timeout)))))))))"

definition from_map :: "vars \<Rightarrow> string + config" where
  "from_map vars =
     bindR (environment_parse (get_or vars ''ENVIRONMENT'' ''development'')) (\<lambda>env.
     bindR (ok_or ''DATABASE_URL is required'' (get vars ''DATABASE_URL'')) (\<lambda>db_url.
     bindR (ok_or ''JWT_SECRET is required'' (get vars ''JWT_SECRET'')) (\<lambda>secret.
     bindR (check_secret env secret) (\<lambda>_.
     bindR (provider_parse (get_or vars ''PROVIDER'' ''ollama'')) (\<lambda>kind.
     bindR (check_provider_key kind (get vars ''OPENAI_API_KEY'') (get vars ''ANTHROPIC_API_KEY'')) (\<lambda>_.
     bindR (if (get vars ''TLS_CERT_PATH'' \<noteq> None) \<noteq> (get vars ''TLS_KEY_PATH'' \<noteq> None)
            then Inl ''TLS_CERT_PATH and TLS_KEY_PATH must be set together'' else Inr ()) (\<lambda>_.
     parse_numbers vars env db_url secret kind)))))))"

text \<open>What a numeric variable may hold: nothing, or a number that fits its width.\<close>

definition numeric_ok :: "vars \<Rightarrow> nat \<Rightarrow> string \<Rightarrow> bool" where
  "numeric_ok vars w key = (case get vars key of None \<Rightarrow> True | Some v \<Rightarrow> parse_uint w v \<noteq> None)"

definition numeric_vars :: "(nat \<times> string) list" where
  "numeric_vars =
     [(32, ''DATABASE_MAX_CONNECTIONS''), (64, ''ACCESS_TOKEN_TTL_SECS''),
      (64, ''REFRESH_TOKEN_TTL_SECS''), (32, ''RATE_LIMIT_REQUESTS''), (64, ''RATE_LIMIT_WINDOW_SECS''),
      (32, ''AUTH_RATE_LIMIT_REQUESTS''), (64, ''REQUEST_BODY_LIMIT_BYTES''), (64, ''REQUEST_TIMEOUT_SECS'')]"

definition demo_vars :: vars where
  "demo_vars = [''DATABASE_URL'' \<mapsto> ''db'', ''JWT_SECRET'' \<mapsto> '' 0123456789abcdef0123456789abcdef '']"

section \<open>Lemmas\<close>

lemma get_trimmed: "get vars key = Some v \<Longrightarrow> v \<noteq> [] \<and> trim v = v"
  by (auto simp: get_def split: option.splits if_splits)

lemma parse_u32_ok: "is_ok (parse_u32 vars key d) \<longleftrightarrow> numeric_ok vars 32 key"
  by (auto simp: parse_u32_def numeric_ok_def ok_or_def split: option.splits)

lemma parse_u64_ok: "is_ok (parse_u64 vars key d) \<longleftrightarrow> numeric_ok vars 64 key"
  by (auto simp: parse_u64_def numeric_ok_def ok_or_def split: option.splits)

lemma parse_usize_ok: "is_ok (parse_usize vars key d) \<longleftrightarrow> numeric_ok vars 64 key"
  by (auto simp: parse_usize_def numeric_ok_def ok_or_def split: option.splits)

lemma is_ok_bindR: "is_ok (bindR r f) \<longleftrightarrow> (\<exists>x. r = Inr x \<and> is_ok (f x))"
  by (cases r) simp_all

lemma is_ok_iff: "is_ok r \<longleftrightarrow> (\<exists>x. r = Inr x)"
  by (cases r) simp_all

lemma check_secret_ok:
  "check_secret env secret = Inr u \<longleftrightarrow>
     32 \<le> length secret \<and> \<not> (env = Production \<and> list_ex (\<lambda>weak. contains_str weak secret) WEAK_SECRETS)"
  by (cases env) (auto simp: check_secret_def is_production_def)

lemma check_provider_key_ok:
  "check_provider_key kind o' a = Inr u \<longleftrightarrow>
     \<not> (kind = OpenAi \<and> o' = None) \<and> \<not> (kind = Anthropic \<and> a = None)"
  by (cases kind) (auto simp: check_provider_key_def)

lemma bindR_InrE: "bindR r f = Inr y \<Longrightarrow> (\<And>x. r = Inr x \<Longrightarrow> f x = Inr y \<Longrightarrow> P) \<Longrightarrow> P"
  by (auto simp: bindR_eq_Inr)

lemma build_config_fields:
  "database_url (build_config vars env url secret kind mc ac re li wi au bo ti) = url"
  "jwt_secret (build_config vars env url secret kind mc ac re li wi au bo ti) = secret"
  "environment (build_config vars env url secret kind mc ac re li wi au bo ti) = env"
  "provider (build_config vars env url secret kind mc ac re li wi au bo ti) = kind"
  "openai_api_key (build_config vars env url secret kind mc ac re li wi au bo ti) = get vars ''OPENAI_API_KEY''"
  "anthropic_api_key (build_config vars env url secret kind mc ac re li wi au bo ti) = get vars ''ANTHROPIC_API_KEY''"
  "tls_cert_path (build_config vars env url secret kind mc ac re li wi au bo ti) = get vars ''TLS_CERT_PATH''"
  "tls_key_path (build_config vars env url secret kind mc ac re li wi au bo ti) = get vars ''TLS_KEY_PATH''"
  "cors_allowed_origins (build_config vars env url secret kind mc ac re li wi au bo ti) =
     origins (get_or vars ''CORS_ALLOWED_ORIGINS'' [])"
  by (simp_all add: build_config_def)

lemma guard_ok: "(if b then Inl e else Inr ()) = Inr x \<longleftrightarrow> \<not> b" "(Inr (x :: unit) = Inr ()) \<longleftrightarrow> True"
  by simp_all

lemma from_map_fields:
  "from_map vars = Inr c \<Longrightarrow>
     get vars ''DATABASE_URL'' = Some (database_url c) \<and> get vars ''JWT_SECRET'' = Some (jwt_secret c) \<and>
     check_secret (environment c) (jwt_secret c) = Inr () \<and>
     check_provider_key (provider c) (openai_api_key c) (anthropic_api_key c) = Inr () \<and>
     (tls_cert_path c = None \<longleftrightarrow> tls_key_path c = None) \<and>
     openai_api_key c = get vars ''OPENAI_API_KEY'' \<and> anthropic_api_key c = get vars ''ANTHROPIC_API_KEY'' \<and>
     tls_cert_path c = get vars ''TLS_CERT_PATH'' \<and>
     cors_allowed_origins c = origins (get_or vars ''CORS_ALLOWED_ORIGINS'' [])"
  unfolding from_map_def parse_numbers_def
  by (elim bindR_InrE, drule Inr_inject, hypsubst,
      simp only: build_config_fields ok_or_eq_Inr guard_ok unit_eq simp_thms)

lemma numeric_vars_ok:
  "list_all (\<lambda>(w, key). numeric_ok vars w key) numeric_vars \<longleftrightarrow>
     is_ok (parse_u32 vars ''DATABASE_MAX_CONNECTIONS'' 10) \<and>
     is_ok (parse_u64 vars ''ACCESS_TOKEN_TTL_SECS'' 900) \<and>
     is_ok (parse_u64 vars ''REFRESH_TOKEN_TTL_SECS'' (30 * 24 * 3600)) \<and>
     is_ok (parse_u32 vars ''RATE_LIMIT_REQUESTS'' 120) \<and>
     is_ok (parse_u64 vars ''RATE_LIMIT_WINDOW_SECS'' 60) \<and>
     is_ok (parse_u32 vars ''AUTH_RATE_LIMIT_REQUESTS'' 10) \<and>
     is_ok (parse_usize vars ''REQUEST_BODY_LIMIT_BYTES'' (1024 * 1024)) \<and>
     is_ok (parse_u64 vars ''REQUEST_TIMEOUT_SECS'' 30)"
  by (simp add: numeric_vars_def parse_u32_ok parse_u64_ok parse_usize_ok)

lemma parse_numbers_ok:
  "is_ok (parse_numbers vars env url secret kind) \<longleftrightarrow> list_all (\<lambda>(w, key). numeric_ok vars w key) numeric_vars"
  unfolding numeric_vars_ok parse_numbers_def is_ok_bindR by (auto simp: is_ok_iff)

subsection \<open>A concrete environment\<close>

lemma demo_get:
  "get demo_vars ''DATABASE_URL'' = Some ''db''"
  "get demo_vars ''JWT_SECRET'' = Some ''0123456789abcdef0123456789abcdef''"
  "key \<noteq> ''DATABASE_URL'' \<Longrightarrow> key \<noteq> ''JWT_SECRET'' \<Longrightarrow> get demo_vars key = None"
  subgoal by code_simp
  subgoal by code_simp
  subgoal by (simp add: get_def demo_vars_def)
  done

lemma demo_config: "\<exists>c. from_map demo_vars = Inr c \<and> \<not> log_json c"
proof -
  have "environment_parse ''development'' = Inr Development" and "provider_parse ''ollama'' = Inr Ollama"
    by code_simp+
  then show ?thesis
    by (simp add: from_map_def parse_numbers_def get_or_def demo_get parse_u32_def parse_u64_def parse_usize_def
        check_secret_def check_provider_key_def is_production_def build_config_def)
qed

section \<open>Properties\<close>

text \<open>
  C37. Which environments the server starts in: a known \<^verbatim>\<open>ENVIRONMENT\<close> and \<^verbatim>\<open>PROVIDER\<close>, a database
  URL, a secret of at least 32 bytes that in production contains no published placeholder, the
  API key the provider needs, TLS certificate and key together or not at all, and every
  numeric variable absent or a number of its width. Nothing else is refused.
\<close>

theorem config_accepted_iff:
  "is_ok (from_map vars) \<longleftrightarrow>
     (\<exists>env kind secret.
        environment_parse (get_or vars ''ENVIRONMENT'' ''development'') = Inr env \<and>
        get vars ''DATABASE_URL'' \<noteq> None \<and>
        get vars ''JWT_SECRET'' = Some secret \<and> 32 \<le> length secret \<and>
        \<not> (env = Production \<and> list_ex (\<lambda>weak. contains_str weak secret) WEAK_SECRETS) \<and>
        provider_parse (get_or vars ''PROVIDER'' ''ollama'') = Inr kind \<and>
        \<not> (kind = OpenAi \<and> get vars ''OPENAI_API_KEY'' = None) \<and>
        \<not> (kind = Anthropic \<and> get vars ''ANTHROPIC_API_KEY'' = None)) \<and>
     (get vars ''TLS_CERT_PATH'' = None \<longleftrightarrow> get vars ''TLS_KEY_PATH'' = None) \<and>
     list_all (\<lambda>(w, key). numeric_ok vars w key) numeric_vars"
  unfolding from_map_def is_ok_bindR parse_numbers_ok
  by (auto simp: check_secret_ok check_provider_key_ok)

text \<open>
  What a configuration in use guarantees the rest of the server: the signing secret has at
  least 32 bytes and, in production, contains no published placeholder; the selected provider
  has its key; TLS is configured completely or not at all; values were trimmed.
\<close>

lemma config_safe:
  assumes "from_map vars = Inr c"
  shows "32 \<le> length (jwt_secret c) \<and>
    \<not> (environment c = Production \<and> list_ex (\<lambda>weak. contains_str weak (jwt_secret c)) WEAK_SECRETS) \<and>
    \<not> (provider c = OpenAi \<and> openai_api_key c = None) \<and>
    \<not> (provider c = Anthropic \<and> anthropic_api_key c = None) \<and>
    (tls_cert_path c = None \<longleftrightarrow> tls_key_path c = None) \<and>
    trim (jwt_secret c) = jwt_secret c \<and> trim (database_url c) = database_url c \<and> database_url c \<noteq> []"
  using from_map_fields [OF assms] get_trimmed unfolding check_secret_ok check_provider_key_ok by blast

text \<open>The development defaults with the two required variables set.\<close>

lemma config_safe_witness:
  "\<exists>c. from_map demo_vars = Inr c \<and> trim (jwt_secret c) = jwt_secret c \<and> \<not> log_json c"
proof -
  obtain c where c: "from_map demo_vars = Inr c" and "\<not> log_json c" using demo_config by auto
  then show ?thesis using config_safe [OF c] by blast
qed

end
