(* ===== verification/Crypto_Tokens.thy ===== *)
theory Crypto_Tokens
  imports Rust_Text
begin

text \<open>
  \<^verbatim>\<open>src/crypto/tokens.rs\<close>, \<^verbatim>\<open>src/crypto/password.rs\<close> and \<^verbatim>\<open>src/crypto/jwt.rs\<close>: opaque tokens and their
  stored digests, passwords, and access tokens. The libraries are the records below, passed as
  arguments: SHA-256, URL-safe base64 and the operating system's randomness, Argon2, and the
  HS256 codec of \<^verbatim>\<open>jsonwebtoken\<close>. What the code relies on is stated by the predicates
  \<open>..._lawful\<close>.
\<close>

section \<open>Definitions\<close>

subsection \<open>Opaque tokens\<close>

record token_api =
  sha256 :: "bytes \<Rightarrow> bytes"
  b64url_encode :: "bytes \<Rightarrow> string"

definition hex_digit :: "nat \<Rightarrow> char" where
  "hex_digit d = (if d < 10 then char_of (48 + d) else char_of (87 + d))"

text \<open>The format \<^verbatim>\<open>{b:02x}\<close>, appended for each byte.\<close>

definition hex_byte :: "byte \<Rightarrow> string" where
  "hex_byte b = [hex_digit (unat b div 16), hex_digit (unat b mod 16)]"

primrec hex_encode :: "bytes \<Rightarrow> string" where
  "hex_encode [] = []"
| "hex_encode (b # bs) = hex_byte b @ hex_encode bs"

definition hash_token :: "token_api \<Rightarrow> string \<Rightarrow> string" where
  "hash_token api token = hex_encode (sha256 api (as_bytes token))"

text \<open>The argument is what the random number generator wrote into the 32-byte array.\<close>

definition generate_token :: "token_api \<Rightarrow> bytes \<Rightarrow> string" where
  "generate_token api random = b64url_encode api random"

text \<open>
  \<^verbatim>\<open>ct_eq\<close> on slices: lengths first, then a comparison without early exit that collects the
  differences of all bytes.
\<close>

definition hashes_equal :: "string \<Rightarrow> string \<Rightarrow> bool" where
  "hashes_equal a b =
     (length a = length b \<and> foldr (\<lambda>(x, y) acc. or (xor x y) acc) (zip (as_bytes a) (as_bytes b)) 0 = 0)"

text \<open>
  What a digest promises: 32 bytes, and no two of the tokens at hand collide. The base64
  alphabet is URL-safe, four characters for three bytes without padding, and injective.
\<close>

definition url_safe :: "char \<Rightarrow> bool" where
  "url_safe c \<longleftrightarrow> c \<in> set ''ABCDEFGHIJKLMNOPQRSTUVWXYZabcdefghijklmnopqrstuvwxyz0123456789-_''"

definition tokens_lawful :: "token_api \<Rightarrow> string set \<Rightarrow> bool" where
  "tokens_lawful api U \<longleftrightarrow>
     (\<forall>bs. length (sha256 api bs) = 32) \<and> inj_on (\<lambda>t. sha256 api (as_bytes t)) U"

subsection \<open>Passwords\<close>

record 'h argon_api =
  salt_generate :: "bytes \<Rightarrow> string"
  argon_hash :: "bytes \<Rightarrow> string \<Rightarrow> string + string"
  phc_parse :: "string \<Rightarrow> 'h option"
  argon_verify :: "bytes \<Rightarrow> 'h \<Rightarrow> bool"

text \<open>The salt is made from what the random number generator delivers.\<close>

definition hash_password :: "'h argon_api \<Rightarrow> bytes \<Rightarrow> string \<Rightarrow> string + string" where
  "hash_password api random password =
     (let salt = salt_generate api random in
     map_err (\<lambda>e. ''password hashing failed: '' @ e) (argon_hash api (as_bytes password) salt))"

definition verify_password :: "'h argon_api \<Rightarrow> string \<Rightarrow> string \<Rightarrow> bool" where
  "verify_password api password stored_hash =
     (case phc_parse api stored_hash of None \<Rightarrow> False
      | Some parsed \<Rightarrow> argon_verify api (as_bytes password) parsed)"

text \<open>A hash that was produced parses, and verifies the password it was made from.\<close>

definition argon_lawful :: "'h argon_api \<Rightarrow> bool" where
  "argon_lawful api \<longleftrightarrow>
     (\<forall>pw salt h. argon_hash api pw salt = Inr h \<longrightarrow>
        (\<exists>p. phc_parse api h = Some p \<and> argon_verify api pw p))"

subsection \<open>Access tokens\<close>

record claims =
  sub :: uuid
  sid :: uuid
  jti :: uuid
  iat :: int
  exp :: int
  iss :: string

definition ISSUER :: string where "ISSUER = ''encryptr-server''"

record validation =
  leeway :: nat
  issuers :: "string list"

record jwt_api =
  jwt_encode :: "bytes \<Rightarrow> claims \<Rightarrow> string + string"
  jwt_decode :: "bytes \<Rightarrow> validation \<Rightarrow> int \<Rightarrow> string \<Rightarrow> string + claims"

record jwt_service =
  encoding :: bytes
  decoding :: bytes
  ttl :: u64
  jwt_validation :: validation

definition jwt_new :: "bytes \<Rightarrow> u64 \<Rightarrow> jwt_service" where
  "jwt_new secret t =
     \<lparr>encoding = secret, decoding = secret, ttl = t, jwt_validation = \<lparr>leeway = 5, issuers = [ISSUER]\<rparr>\<rparr>"

definition jwt_ttl :: "jwt_service \<Rightarrow> u64" where
  "jwt_ttl svc = ttl svc"

text \<open>
  The 64-bit addition of the expiry wraps, as it does in the release profile of
  \<^verbatim>\<open>Cargo.toml\<close>, which leaves overflow checks off.
\<close>

definition wrapping_add_i64 :: "int \<Rightarrow> int \<Rightarrow> int" where
  "wrapping_add_i64 a b = sint (word_of_int (a + b) :: i64)"

definition jwt_issue :: "jwt_api \<Rightarrow> jwt_service \<Rightarrow> int \<Rightarrow> uuid \<Rightarrow> uuid \<Rightarrow> uuid \<Rightarrow> string + string" where
  "jwt_issue api svc now fresh user_id session_id =
     jwt_encode api (encoding svc)
       \<lparr>sub = user_id, sid = session_id, jti = fresh, iat = now,
        exp = wrapping_add_i64 now (as_i64 (ttl svc)), iss = ISSUER\<rparr>"

definition jwt_verify :: "jwt_api \<Rightarrow> jwt_service \<Rightarrow> int \<Rightarrow> string \<Rightarrow> claims option" where
  "jwt_verify api svc now token =
     (case jwt_decode api (decoding svc) (jwt_validation svc) now token of
        Inl _ \<Rightarrow> None | Inr c \<Rightarrow> Some c)"

text \<open>
  The documented behaviour of \<^verbatim>\<open>jsonwebtoken\<close> for HS256 with an issuer set, for the configured
  key: encoding the claims works, and decoding a token that was encoded with the key returns its
  claims when the issuer is accepted and the expiry, an unsigned number, is not more than the
  leeway in the past, and is an error otherwise. Nothing is said of tokens made in another way.
\<close>

definition acceptable :: "validation \<Rightarrow> int \<Rightarrow> claims \<Rightarrow> bool" where
  "acceptable v now c \<longleftrightarrow> iss c \<in> set (issuers v) \<and> 0 \<le> exp c \<and> now - int (leeway v) \<le> exp c"

definition jwt_lawful :: "jwt_api \<Rightarrow> bytes \<Rightarrow> bool" where
  "jwt_lawful api k \<longleftrightarrow>
     (\<forall>c. is_ok (jwt_encode api k c)) \<and>
     (\<forall>c t v now. jwt_encode api k c = Inr t \<longrightarrow>
        (if acceptable v now c then jwt_decode api k v now t = Inr c
         else \<not> is_ok (jwt_decode api k v now t)))"

subsection \<open>Concrete libraries\<close>

text \<open>
  Instances that satisfy the laws: they show that the laws can hold together, and witnesses
  run on them. Numbers are written in unary, separated by full stops.
\<close>

definition unary :: "nat \<Rightarrow> string" where
  "unary n = replicate n (CHR ''1'') @ ''.''"

definition unary_list :: "nat list \<Rightarrow> string" where
  "unary_list ns = concat (map unary ns)"

fun read_unary :: "nat \<Rightarrow> string \<Rightarrow> nat list" where
  "read_unary n [] = []"
| "read_unary n (c # cs) = (if c = CHR ''.'' then n # read_unary 0 cs else read_unary (Suc n) cs)"

definition int_code :: "int \<Rightarrow> nat list" where
  "int_code i = [nat i, nat (- i)]"

definition claims_code :: "claims \<Rightarrow> nat list" where
  "claims_code c = [sub c, sid c, jti c] @ int_code (iat c) @ int_code (exp c) @ map of_char (iss c)"

definition claims_decode :: "nat list \<Rightarrow> claims" where
  "claims_decode ns =
     \<lparr>sub = ns ! 0, sid = ns ! 1, jti = ns ! 2, iat = int (ns ! 3) - int (ns ! 4),
      exp = int (ns ! 5) - int (ns ! 6), iss = map char_of (drop 7 ns)\<rparr>"

definition demo_sign :: "bytes \<Rightarrow> claims \<Rightarrow> string" where
  "demo_sign k c = unary_list (length k # map unat k @ claims_code c)"

definition demo_unsign :: "string \<Rightarrow> claims" where
  "demo_unsign t = (let ns = read_unary 0 t in claims_decode (drop (Suc (hd ns)) ns))"

definition demo_jwt :: jwt_api where
  "demo_jwt = \<lparr>jwt_encode = \<lambda>k c. Inr (demo_sign k c),
     jwt_decode = \<lambda>k v now t. let c = demo_unsign t in
       if demo_sign k c = t \<and> acceptable v now c then Inr c else Inl ''InvalidToken''\<rparr>"

definition demo_argon :: "bytes argon_api" where
  "demo_argon = \<lparr>salt_generate = map chr, argon_hash = \<lambda>pw salt. Inr (''$'' @ map chr pw),
     phc_parse = \<lambda>h. if starts_with ''$'' h then Some (as_bytes (tl h)) else None,
     argon_verify = \<lambda>pw h. pw = h\<rparr>"

text \<open>A digest that tells short texts apart: the text itself, padded to 32 bytes.\<close>

definition demo_tokens :: token_api where
  "demo_tokens = \<lparr>sha256 = \<lambda>bs. take 32 (bs @ replicate 32 0),
     b64url_encode = map (\<lambda>b. CHR ''A'')\<rparr>"

section \<open>Lemmas\<close>

subsection \<open>Digests\<close>

lemma hex_digit_inject:
  "a < 16 \<Longrightarrow> b < 16 \<Longrightarrow> hex_digit a = hex_digit b \<longleftrightarrow> a = b"
  by (auto simp: hex_digit_def char_of_eq_iff take_bit_eq_mod split: if_splits)

lemma hex_byte_inject [simp]: "hex_byte a = hex_byte b \<longleftrightarrow> a = b"
proof
  have lt: "unat w div 16 < 16" "unat w mod 16 < 16" for w :: byte
    using unsigned_less [where 'a = nat, of w] by (simp_all add: less_mult_imp_div_less)
  assume "hex_byte a = hex_byte b"
  then have "unat a div 16 = unat b div 16" "unat a mod 16 = unat b mod 16"
    using lt by (simp_all add: hex_byte_def hex_digit_inject)
  then have "unat a = unat b" by (metis div_mult_mod_eq)
  then show "a = b" by (rule unsigned_word_eqI)
qed simp

lemma length_hex_encode [simp]: "length (hex_encode bs) = 2 * length bs"
  by (induction bs) (simp_all add: hex_byte_def)

lemma hex_encode_inject [simp]: "hex_encode as = hex_encode bs \<longleftrightarrow> as = bs"
proof (induction as arbitrary: bs)
  case Nil
  then show ?case by (cases bs) (simp_all add: hex_byte_def)
next
  case (Cons a as)
  have len: "length (hex_byte a) = length (hex_byte b)" for b by (simp add: hex_byte_def)
  show ?case
  proof (cases bs)
    case Nil
    then show ?thesis by (simp add: hex_byte_def)
  next
    case (Cons b bs')
    then show ?thesis using Cons.IH [of bs'] append_eq_append_conv [OF disjI1 [OF len [of b]]] by simp
  qed
qed

lemma hex_digit_set: "d < 16 \<Longrightarrow> hex_digit d \<in> set ''0123456789abcdef''"
proof -
  have "list_all (\<lambda>d. hex_digit d \<in> set ''0123456789abcdef'') [0..<16]" by code_simp
  then show "d < 16 \<Longrightarrow> hex_digit d \<in> set ''0123456789abcdef''" by (simp add: list_all_iff)
qed

lemma hex_encode_digits: "set (hex_encode bs) \<subseteq> set ''0123456789abcdef''"
proof (induction bs)
  case (Cons b bs)
  have "unat b div 16 < 16" "unat b mod 16 < 16"
    using unsigned_less [where 'a = nat, of b] by (simp_all add: less_mult_imp_div_less)
  from hex_digit_set [OF this(1)] hex_digit_set [OF this(2)] Cons show ?case
    by (simp add: hex_byte_def)
qed simp

lemma hash_token_inject:
  "tokens_lawful api U \<Longrightarrow> s \<in> U \<Longrightarrow> t \<in> U \<Longrightarrow> hash_token api s = hash_token api t \<longleftrightarrow> s = t"
  by (auto simp: hash_token_def tokens_lawful_def inj_on_def)

lemma xor_eq_0: "xor x y = 0 \<longleftrightarrow> x = y" for x y :: byte
  by (auto simp: bit_eq_iff bit_xor_iff)

lemma fold_differences:
  "length xs = length ys \<Longrightarrow>
     foldr (\<lambda>(x, y) acc. or (xor x y) acc) (zip xs ys) 0 = (0 :: byte) \<longleftrightarrow> xs = ys"
  by (induction xs ys rule: list_induct2) (auto simp: or_eq_0_iff xor_eq_0)

lemma hashes_equal_iff: "hashes_equal a b \<longleftrightarrow> a = b"
  using fold_differences [of "as_bytes a" "as_bytes b"] by (auto simp: hashes_equal_def)

subsection \<open>Access tokens\<close>

lemma wrapping_add_i64_small: "i64_min \<le> a + b \<Longrightarrow> a + b \<le> i64_max \<Longrightarrow> wrapping_add_i64 a b = a + b"
  unfolding wrapping_add_i64_def sint_sbintrunc'
  by (rule signed_take_bit_int_eq_self) (simp_all add: i64_min_def i64_max_def)

lemma i64_range:
  "0 \<le> a \<Longrightarrow> i64_min \<le> a"
  "0 \<le> a \<Longrightarrow> 2 ^ 63 \<le> n \<Longrightarrow> i64_min \<le> a + (n - 2 ^ 64)"
  "a \<le> i64_max \<Longrightarrow> n < 2 ^ 64 - 5 \<Longrightarrow> a + (n - 2 ^ 64) \<le> i64_max"
  by (simp_all add: i64_min_def i64_max_def)

lemma as_i64_small:
  assumes "unat w < 2 ^ 63"
  shows "as_i64 w = int (unat w)"
proof -
  have "uint w < 2 ^ 63" using assms by (simp flip: of_nat_less_iff [where 'a = int])
  moreover have "- (2 ^ 63) \<le> uint w" by (rule order_trans [OF _ unsigned_greater_eq]) simp
  ultimately show ?thesis
    unfolding as_i64_def sint_uint by (subst signed_take_bit_int_eq_self) simp_all
qed

lemma as_i64_large:
  assumes "2 ^ 63 \<le> unat w"
  shows "as_i64 w = int (unat w) - 2 ^ 64"
proof -
  have w: "2 ^ 63 \<le> uint w" "uint w < 2 ^ 64"
    using assms unsigned_less [where 'a = int, of w] by (simp_all flip: of_nat_le_iff [where 'a = int])
  have "uint w + 2 ^ 63 = (uint w - 2 ^ 63) + 2 ^ 64" by simp
  then have "take_bit 64 (uint w + 2 ^ 63) = uint w - 2 ^ 63"
    using w unfolding take_bit_eq_mod by (simp only: mod_add_self2) (simp add: mod_pos_pos_trivial)
  then show ?thesis
    unfolding as_i64_def sint_uint by (simp add: signed_take_bit_eq_take_bit_shift)
qed

lemma jwt_verify_encoded:
  assumes "jwt_lawful api (decoding svc)" and "jwt_encode api (decoding svc) c = Inr t"
  shows "jwt_verify api svc now t = (if acceptable (jwt_validation svc) now c then Some c else None)"
proof -
  have "if acceptable v now c then jwt_decode api (decoding svc) v now t = Inr c
      else \<not> is_ok (jwt_decode api (decoding svc) v now t)" for v
    using assms unfolding jwt_lawful_def by blast
  from this [of "jwt_validation svc"] show ?thesis
    by (auto simp: jwt_verify_def split: sum.split if_splits)
qed

lemma jwt_issue_works:
  assumes "jwt_lawful api secret"
  shows "\<exists>tok. jwt_issue api (jwt_new secret t) now fresh u s = Inr tok"
proof -
  have "is_ok (jwt_issue api (jwt_new secret t) now fresh u s)"
    using assms by (simp add: jwt_lawful_def jwt_issue_def jwt_new_def)
  then show ?thesis by (cases "jwt_issue api (jwt_new secret t) now fresh u s") simp_all
qed

lemma jwt_issue_verify:
  assumes "jwt_lawful api secret" and "jwt_issue api (jwt_new secret t) now fresh u s = Inr tok"
    and "e = wrapping_add_i64 now (as_i64 t)"
  shows "jwt_verify api (jwt_new secret t) later tok =
    (if 0 \<le> e \<and> later - 5 \<le> e
     then Some \<lparr>sub = u, sid = s, jti = fresh, iat = now, exp = e, iss = ISSUER\<rparr> else None)"
proof -
  let ?d = "\<lparr>sub = u, sid = s, jti = fresh, iat = now, exp = e, iss = ISSUER\<rparr>"
  have "jwt_encode api (decoding (jwt_new secret t)) ?d = Inr tok"
    using assms(2,3) by (simp add: jwt_issue_def jwt_new_def)
  moreover have "jwt_lawful api (decoding (jwt_new secret t))" using assms(1) by (simp add: jwt_new_def)
  ultimately show ?thesis by (simp add: jwt_verify_encoded jwt_new_def acceptable_def)
qed

lemma jwt_lifetime:
  assumes "jwt_lawful api secret" and "jwt_issue api (jwt_new secret t) now fresh u s = Inr tok"
    and "0 \<le> now" and "now + int (unat t) \<le> i64_max"
  shows "jwt_verify api (jwt_new secret t) later tok =
    (if later \<le> now + int (unat t) + 5
     then Some \<lparr>sub = u, sid = s, jti = fresh, iat = now, exp = now + int (unat t), iss = ISSUER\<rparr>
     else None)"
proof -
  have "int (unat t) < 2 ^ 63" using assms(3,4) by (simp add: i64_max_def)
  then have "as_i64 t = int (unat t)" by (intro as_i64_small) (simp flip: of_nat_less_iff [where 'a = int])
  moreover have "wrapping_add_i64 now (int (unat t)) = now + int (unat t)"
  proof (rule wrapping_add_i64_small)
    show "i64_min \<le> now + int (unat t)" using assms(3) by (intro i64_range(1)) simp
  qed (rule assms(4))
  ultimately have e: "now + int (unat t) = wrapping_add_i64 now (as_i64 t)" by simp
  have "0 \<le> now + int (unat t)" using assms(3) by simp
  then show ?thesis unfolding jwt_issue_verify [OF assms(1,2) e] by (simp add: algebra_simps)
qed

subsection \<open>The concrete libraries keep the laws\<close>

lemma read_unary_replicate:
  "read_unary n (replicate m (CHR ''1'') @ CHR ''.'' # cs) = (n + m) # read_unary 0 cs"
  by (induction m arbitrary: n) simp_all

lemma read_unary_list: "read_unary 0 (unary_list ns) = ns"
  by (induction ns) (simp_all add: unary_list_def unary_def read_unary_replicate)

lemma claims_decode_code: "claims_decode (claims_code c) = c"
proof -
  have "map (char_of \<circ> (of_char :: char \<Rightarrow> nat)) s = s" for s by (simp add: comp_def)
  then show ?thesis by (simp add: claims_decode_def claims_code_def int_code_def)
qed

lemma demo_unsign_sign: "demo_unsign (demo_sign k c) = c"
  by (simp add: demo_unsign_def demo_sign_def read_unary_list claims_decode_code)

lemma demo_jwt_lawful: "jwt_lawful demo_jwt k"
  by (simp add: jwt_lawful_def demo_jwt_def demo_unsign_sign Let_def)

lemma demo_argon_lawful: "argon_lawful demo_argon"
  by (simp add: argon_lawful_def demo_argon_def starts_with_def)

lemma demo_tokens_lawful: "tokens_lawful demo_tokens {''a'', ''b''}"
  by (simp add: tokens_lawful_def demo_tokens_def as_bytes_def min_def)

section \<open>Properties\<close>

text \<open>
  C23. The lifetime of an access token: a token the service issued to a user's session, verified
  with the same configured secret, is accepted until its lifetime and the five seconds of leeway
  have passed, with exactly the identity it was issued for, and never after.
\<close>

theorem access_token_lifetime:
  assumes "jwt_lawful api secret" and "jwt_issue api (jwt_new secret t) now fresh u s = Inr tok"
    and "0 \<le> now" and "now + int (unat t) \<le> i64_max"
  shows "jwt_verify api (jwt_new secret t) later tok =
    (if later \<le> now + int (unat t) + 5
     then Some \<lparr>sub = u, sid = s, jti = fresh, iat = now, exp = now + int (unat t), iss = ISSUER\<rparr>
     else None)"
  by (rule jwt_lifetime [OF assms])

theorem access_token_lifetime_witness:
  "jwt_verify demo_jwt (jwt_new [1, 2] 3) 19 (demo_sign [1, 2]
     \<lparr>sub = 1, sid = 2, jti = 7, iat = 10, exp = 13, iss = ISSUER\<rparr>) = None"
proof -
  have exp: "wrapping_add_i64 10 (as_i64 3) = 13" by code_simp
  have "jwt_issue demo_jwt (jwt_new [1, 2] 3) 10 7 1 2 = Inr (demo_sign [1, 2]
     \<lparr>sub = 1, sid = 2, jti = 7, iat = 10, exp = 13, iss = ISSUER\<rparr>)"
    by (simp add: jwt_issue_def demo_jwt_def jwt_new_def exp)
  from access_token_lifetime [OF demo_jwt_lawful this, of 19] show ?thesis
    by (simp add: i64_max_def)
qed

text \<open>
  A configured lifetime too large for the signed clock is not refused but wraps: the tokens
  issued under it have expired before they are handed out.
\<close>

lemma oversized_ttl_expires_at_once:
  assumes "jwt_lawful api secret" and "jwt_issue api (jwt_new secret t) now fresh u s = Inr tok"
    and "0 \<le> now" and "now \<le> i64_max" and "2 ^ 63 \<le> unat t" and "unat t < 2 ^ 64 - 5"
  shows "jwt_verify api (jwt_new secret t) now tok = None"
proof -
  have t: "as_i64 t = int (unat t) - 2 ^ 64" using as_i64_large [OF assms(5)] .
  have bounds: "2 ^ 63 \<le> int (unat t)" "int (unat t) < 2 ^ 64 - 5"
    using of_nat_mono [OF assms(5), where 'a = int] of_nat_less_iff [where 'a = int, THEN iffD2, OF assms(6)]
    by (simp_all add: of_nat_diff)
  have e: "now + (int (unat t) - 2 ^ 64) = wrapping_add_i64 now (as_i64 t)"
    unfolding t using assms(3,4) bounds by (intro wrapping_add_i64_small [symmetric] i64_range)
  have "\<not> now - 5 \<le> now + (n - 2 ^ 64)" if "n < 2 ^ 64 - 5" for n :: int
    using that by simp
  from this [OF bounds(2)] show ?thesis unfolding jwt_issue_verify [OF assms(1,2) e] by (simp only: simp_thms if_False)
qed

lemma oversized_ttl_expires_at_once_witness:
  "\<exists>tok. jwt_issue demo_jwt (jwt_new [1] 0x8000000000000000) 10 7 1 2 = Inr tok \<and>
     jwt_verify demo_jwt (jwt_new [1] 0x8000000000000000) 10 tok = None"
proof -
  obtain tok where tok: "jwt_issue demo_jwt (jwt_new [1] 0x8000000000000000) 10 7 1 2 = Inr tok"
    by (simp add: jwt_issue_def demo_jwt_def)
  have "unat (0x8000000000000000 :: u64) = 0x8000000000000000" by simp
  then have "jwt_verify demo_jwt (jwt_new [1] 0x8000000000000000) 10 tok = None"
    by (intro oversized_ttl_expires_at_once [OF demo_jwt_lawful tok]) (simp_all add: i64_max_def)
  with tok show ?thesis by blast
qed

text \<open>
  Stored digests identify tokens: the digest is 64 hexadecimal digits, the comparison without
  early exit decides equality, and two tokens whose SHA-256 values differ have different
  stored digests.
\<close>

lemma token_digest_exact:
  assumes "tokens_lawful api U" and "s \<in> U" and "t \<in> U"
  shows "length (hash_token api s) = 64 \<and>
    set (hash_token api s) \<subseteq> set ''0123456789abcdef'' \<and>
    (hashes_equal (hash_token api s) (hash_token api t) \<longleftrightarrow> s = t)"
  using assms hash_token_inject [OF assms] hex_encode_digits [of "sha256 api (as_bytes s)"]
  by (simp add: hashes_equal_iff) (simp add: hash_token_def tokens_lawful_def)

lemma token_digest_exact_witness:
  "length (hash_token demo_tokens ''a'') = 64 \<and>
   \<not> hashes_equal (hash_token demo_tokens ''a'') (hash_token demo_tokens ''b'')"
  using token_digest_exact [of demo_tokens "{''a'', ''b''}" "''a''" "''b''"]
    demo_tokens_lawful by simp

end
