(* ===== verification/Auth_Service.thy ===== *)
theory Auth_Service
  imports Store Validate Config Crypto_Tokens
begin

text \<open>
  \<^verbatim>\<open>src/services/auth.rs\<close>, \<^verbatim>\<open>src/services/audit.rs\<close> and \<^verbatim>\<open>src/middleware/auth.rs\<close>: registration,
  login, rotation of refresh tokens, logout, and the check of a bearer token. Services are
  actions on the \<open>store\<close>; the immutable part of \<^verbatim>\<open>AppState\<close> (configuration, JWT service) and the
  libraries are the record \<open>app\<close>. \<^verbatim>\<open>Utc::now()\<close> reads the clock of the store; random bytes and
  version 4 identifiers come from its supplies.
\<close>

section \<open>Definitions\<close>

record 'h app =
  app_config :: config
  app_jwt :: jwt_service
  token_lib :: token_api
  argon_lib :: "'h argon_api"
  jwt_lib :: jwt_api
  rng :: "nat \<Rightarrow> bytes"

type_synonym 'a service = "(store, app_error, 'a) action"

definition db :: "'a statement \<Rightarrow> 'a service" where
  "db m = map_errE Database m"

definition draw :: "'h app \<Rightarrow> bytes service" where
  "draw app s = (Inr (rng app (draws s)), s\<lparr>draws := draws s + 1\<rparr>)"

definition new_v4 :: "uuid service" where
  "new_v4 s = (Inr (next_id s), s\<lparr>next_id := next_id s + 1\<rparr>)"

definition utc_now :: "timestamp service" where
  "utc_now s = (Inr (now s), s)"

definition seconds :: "timestamp \<Rightarrow> int" where
  "seconds t = t div 1000000"

subsection \<open>Audit\<close>

text \<open>A failure to record is only logged.\<close>

definition audit_record ::
  "uuid option \<Rightarrow> string \<Rightarrow> (string \<times> meta_value) list \<Rightarrow> string option \<Rightarrow> unit service" where
  "audit_record user_id event_type metadata ip s = (Inr (), snd (audit_insert user_id event_type metadata ip s))"

subsection \<open>Authentication of a bearer token\<close>

record auth_user =
  au_user_id :: uuid
  au_session_id :: uuid
  au_expires_at :: int

definition bearer_token :: "(bytes \<Rightarrow> string option) \<Rightarrow> (string \<times> bytes) list \<Rightarrow> string option" where
  "bearer_token to_str headers =
     Option.bind (map_of headers ''authorization'') (\<lambda>v.
     Option.bind (to_str v) (strip_prefix ''Bearer ''))"

definition authenticate :: "'h app \<Rightarrow> string \<Rightarrow> auth_user service" where
  "authenticate app token =
     bindE utc_now (\<lambda>t.
     bindE (liftE (ok_or Unauthorized (jwt_verify (jwt_lib app) (app_jwt app) (seconds t) token))) (\<lambda>c.
     bindE (db (is_active (sid c))) (\<lambda>active.
     if \<not> active then failE Unauthorized
     else okE \<lparr>au_user_id = sub c, au_session_id = sid c, au_expires_at = exp c\<rparr>)))"

definition from_request_parts ::
  "'h app \<Rightarrow> (bytes \<Rightarrow> string option) \<Rightarrow> (string \<times> bytes) list \<Rightarrow> auth_user service" where
  "from_request_parts app to_str headers =
     bindE (liftE (ok_or Unauthorized (bearer_token to_str headers))) (authenticate app)"

subsection \<open>Tokens\<close>

record client_meta =
  user_agent :: "string option"
  ip_address :: "string option"

record register_request =
  rr_email :: string
  rr_password :: string
  rr_display_name :: "string option"

record token_response =
  access_token :: string
  refresh_token_text :: string
  token_type :: string
  expires_in :: u64

text \<open>
  \<^verbatim>\<open>chrono::Duration::from_std\<close> refuses more than \<^verbatim>\<open>i64::MAX\<close> milliseconds; adding it to the clock
  panics past the last representable instant, in the year 262142. There the model deviates: the
  source drops the connection without a response and without counting one, the model ends the
  request at the same statement with an internal error. It takes a configured
  \<^verbatim>\<open>REFRESH_TOKEN_TTL_SECS\<close> of more than 260,000 years.
\<close>

definition CHRONO_MAX_SECS :: nat where "CHRONO_MAX_SECS = (2 ^ 63 - 1) div 1000"
definition UTC_MAX_SECS :: int where "UTC_MAX_SECS = 8210266876799"

definition expiry :: "timestamp \<Rightarrow> u64 \<Rightarrow> app_error + timestamp" where
  "expiry t ttl_secs =
     (if unat ttl_secs > CHRONO_MAX_SECS
      then Inl (Internal ''Source duration value is out of range for the target type'')
      else if seconds t + int (unat ttl_secs) > UTC_MAX_SECS
      then Inl (Internal ''panic: DateTime + TimeDelta overflowed'')
      else Inr (t + 1000000 * int (unat ttl_secs)))"

definition issue_tokens :: "'h app \<Rightarrow> uuid \<Rightarrow> uuid \<Rightarrow> token_response service" where
  "issue_tokens app user_id session_id =
     bindE utc_now (\<lambda>t.
     bindE new_v4 (\<lambda>fresh.
     bindE (liftE (map_err Internal
       (jwt_issue (jwt_lib app) (app_jwt app) (seconds t) fresh user_id session_id))) (\<lambda>access.
     bindE (draw app) (\<lambda>random.
     let refresh = generate_token (token_lib app) random;
         token_hash = hash_token (token_lib app) refresh in
     bindE utc_now (\<lambda>t2.
     bindE (liftE (expiry t2 (refresh_token_ttl (app_config app)))) (\<lambda>expires_at.
     bindE (db (insert_refresh_token session_id user_id token_hash expires_at)) (\<lambda>_.
     okE \<lparr>access_token = access, refresh_token_text = refresh, token_type = ''Bearer'',
          expires_in = jwt_ttl (app_jwt app)\<rparr>)))))))"

subsection \<open>The flows\<close>

definition register :: "'h app \<Rightarrow> register_request \<Rightarrow> client_meta \<Rightarrow> user service" where
  "register app request meta =
     bindE (liftE (validate_email (rr_email request))) (\<lambda>email.
     bindE (liftE (validate_password (rr_password request))) (\<lambda>_.
     bindE (db (find_by_email email)) (\<lambda>existing.
     if existing \<noteq> None then failE (Conflict ''an account with this email already exists'')
     else bindE (draw app) (\<lambda>random.
     bindE (liftE (map_err Internal (hash_password (argon_lib app) random (rr_password request)))) (\<lambda>hash.
     bindE (db (users_insert email hash (rr_display_name request))) (\<lambda>user.
     bindE (audit_record (Some (u_id user)) ''user.registered'' [] (ip_address meta)) (\<lambda>_.
     okE user)))))))"

definition DUMMY_HASH :: string where
  "DUMMY_HASH = ''$argon2id$v=19$m=19456,t=2,p=1$MDEyMzQ1Njc4OWFiY2RlZg$GpZ3sK/oH9p7bIfIHg6TCVGFeDXS0OGWKgcpMoQ99bs''"

text \<open>The account and whether the password is right; verification always runs.\<close>

definition check_credentials :: "'h app \<Rightarrow> string \<Rightarrow> user option \<Rightarrow> user option \<times> bool" where
  "check_credentials app password_input found =
     (case found of
        Some user \<Rightarrow>
          let ok = verify_password (argon_lib app) password_input (u_password_hash user) in (Some user, ok)
      | None \<Rightarrow>
          let _ = verify_password (argon_lib app) password_input DUMMY_HASH in (None, False))"

definition login :: "'h app \<Rightarrow> string \<Rightarrow> string \<Rightarrow> client_meta \<Rightarrow> token_response service" where
  "login app email_input password_input meta =
     bindE (liftE (validate_email email_input)) (\<lambda>email.
     bindE (db (find_by_email email)) (\<lambda>found.
     let (user, valid) = check_credentials app password_input found in
     case (if valid then user else None) of
       None \<Rightarrow>
         bindE (audit_record None ''auth.login_failed'' [] (ip_address meta)) (\<lambda>_. failE Unauthorized)
     | Some user \<Rightarrow>
         bindE (db (create_session (u_id user) (user_agent meta) (ip_address meta))) (\<lambda>session.
         bindE (issue_tokens app (u_id user) (s_id session)) (\<lambda>response.
         bindE (audit_record (Some (u_id user)) ''auth.login'' [(''session_id'', M_uuid (s_id session))]
           (ip_address meta)) (\<lambda>_.
         okE response)))))"

text \<open>The two tests of \<^verbatim>\<open>refresh\<close>, with their short-circuits: stale tokens, and consumption.\<close>

definition token_stale :: "refresh_token \<Rightarrow> bool service" where
  "token_stale r =
     (if rt_rotated_at r \<noteq> None then okE False
      else if rt_revoked_at r \<noteq> None then okE True
      else bindE utc_now (\<lambda>t.
        if rt_expires_at r < t then okE True
        else bindE (db (is_active (rt_session_id r))) (\<lambda>active. okE (\<not> active))))"

definition token_reused :: "refresh_token \<Rightarrow> bool service" where
  "token_reused r =
     (if rt_rotated_at r \<noteq> None then okE True
      else bindE (db (mark_rotated (rt_id r))) (\<lambda>consumed. okE (\<not> consumed)))"

definition refresh :: "'h app \<Rightarrow> string \<Rightarrow> client_meta \<Rightarrow> token_response service" where
  "refresh app refresh_token meta =
     (let token_hash = hash_token (token_lib app) refresh_token in
     bindE (db (find_refresh_token token_hash)) (\<lambda>found.
     case found of
       None \<Rightarrow> failE Unauthorized
     | Some r \<Rightarrow>
         bindE (token_stale r) (\<lambda>stale.
         if stale then failE Unauthorized
         else bindE (token_reused r) (\<lambda>reused.
         if reused then
           bindE (db (revoke_session (rt_session_id r))) (\<lambda>_.
           bindE (audit_record (Some (rt_user_id r)) ''auth.refresh_token_reuse_detected''
             [(''session_id'', M_uuid (rt_session_id r))] (ip_address meta)) (\<lambda>_.
           failE Unauthorized))
         else
           bindE (issue_tokens app (rt_user_id r) (rt_session_id r)) (\<lambda>response.
           bindE (audit_record (Some (rt_user_id r)) ''auth.token_refreshed''
             [(''session_id'', M_uuid (rt_session_id r))] (ip_address meta)) (\<lambda>_.
           okE response))))))"

definition logout :: "uuid \<Rightarrow> uuid \<Rightarrow> client_meta \<Rightarrow> unit service" where
  "logout user_id session_id meta =
     bindE (db (revoke_session session_id)) (\<lambda>_.
     audit_record (Some user_id) ''auth.logout'' [(''session_id'', M_uuid session_id)] (ip_address meta))"

subsection \<open>States of sessions and tokens\<close>

definition revoked :: "uuid \<Rightarrow> store \<Rightarrow> bool" where
  "revoked i s \<longleftrightarrow> list_ex (\<lambda>x. s_id x = i \<and> s_revoked_at x \<noteq> None) (sessions s)"

definition rotated :: "string \<Rightarrow> store \<Rightarrow> bool" where
  "rotated h s \<longleftrightarrow> list_ex (\<lambda>r. rt_token_hash r = h \<and> rt_rotated_at r \<noteq> None) (refresh_tokens s)"

definition token_of_session :: "string \<Rightarrow> uuid \<Rightarrow> store \<Rightarrow> bool" where
  "token_of_session h i s \<longleftrightarrow> list_ex (\<lambda>r. rt_token_hash r = h \<and> rt_session_id r = i) (refresh_tokens s)"

subsection \<open>A concrete application\<close>

text \<open>
  Lawful libraries, a short access-token lifetime and a day for refresh tokens; and a database
  with one user, one session and one refresh token that has been exchanged.
\<close>

definition demo_config :: config where
  "demo_config = \<lparr>environment = Development, bind_addr = ''0.0.0.0:8080'', database_url = ''db'',
     database_max_connections = 10, jwt_secret = ''0123456789abcdef0123456789abcdef'',
     access_token_ttl = 3, refresh_token_ttl = 86400, provider = Ollama,
     provider_default_model = ''llama3.2'', openai_api_key = None, openai_base_url = ''o'',
     anthropic_api_key = None, anthropic_base_url = ''a'', ollama_base_url = ''l'',
     rate_limit_requests = 2, rate_limit_window = 60, auth_rate_limit_requests = 1,
     cors_allowed_origins = [], request_body_limit_bytes = 1024, trust_proxy_headers = False,
     request_timeout = 30, tls_cert_path = None, tls_key_path = None, log_json = False\<rparr>"

definition demo_app :: "bytes app" where
  "demo_app = \<lparr>app_config = demo_config, app_jwt = jwt_new [1, 2] 3, token_lib = demo_tokens,
     argon_lib = demo_argon, jwt_lib = demo_jwt, rng = \<lambda>n. replicate n 65\<rparr>"

definition demo_meta :: client_meta where
  "demo_meta = \<lparr>user_agent = None, ip_address = Some ''9''\<rparr>"

definition demo_store :: store where
  "demo_store = (store_empty 10000000 [])\<lparr>
     users := [\<lparr>u_id = 0, u_email = ''a@b.c'', u_password_hash = ''$0123456789'', u_display_name = None,
                u_created_at = 0, u_updated_at = 0\<rparr>],
     sessions := [\<lparr>s_id = 1, s_user_id = 0, s_user_agent = None, s_ip_address = None,
                    s_created_at = 0, s_revoked_at = None\<rparr>],
     refresh_tokens := [\<lparr>rt_id = 2, rt_session_id = 1, rt_user_id = 0,
                          rt_token_hash = hash_token demo_tokens ''old'', rt_expires_at = 99000000,
                          rt_created_at = 0, rt_rotated_at = Some 1, rt_revoked_at = None\<rparr>],
     next_id := 3\<rparr>"

section \<open>Lemmas\<close>

subsection \<open>History and well-formedness\<close>

lemma stays_db: "stays R m \<Longrightarrow> stays R (db m)"
  by (simp add: db_def stays_def)

lemma stays_audit: "stays R (audit_insert u ty me ip) \<Longrightarrow> stays R (audit_record u ty me ip)"
  by (simp add: audit_record_def stays_def)

lemma stays_utc_now: "state_order R \<Longrightarrow> stays R utc_now"
  by (simp add: stays_def utc_now_def state_order.R_refl)

text \<open>What a preorder must tolerate for the services: drawing randomness and identifiers.\<close>

locale service_order = store_order R for R +
  assumes R_draws: "R s (s\<lparr>draws := n\<rparr>)"
    and R_next_id: "R s (s\<lparr>next_id := Suc (next_id s)\<rparr>)"
    and R_audit: "stays R (audit_insert u ty me ip)"
begin

lemma stays_supplies: "stays R (draw app)" "stays R new_v4" "stays R utc_now"
  by (simp_all add: stays_def draw_def new_v4_def utc_now_def R_draws R_next_id R_refl)

lemmas service_intros = stays_intros stays_supplies stays_db stays_audit R_audit stays_reads

lemma stays_authenticate: "stays R (authenticate app token)"
  unfolding authenticate_def by (intro service_intros)

lemma stays_token_stale: "stays R (token_stale r)"
  unfolding token_stale_def by (intro service_intros)

lemma stays_token_reused: "stays R (mark_rotated (rt_id r)) \<Longrightarrow> stays R (token_reused r)"
  unfolding token_reused_def by (intro service_intros)

lemma stays_issue_tokens:
  assumes "\<And>h t. stays R (insert_refresh_token i u h t)"
  shows "stays R (issue_tokens app u i)"
  unfolding issue_tokens_def Let_def by (intro service_intros assms)

lemma stays_register:
  assumes "\<And>e p d. stays R (users_insert e p d)"
  shows "stays R (register app request meta)"
  unfolding register_def by (intro service_intros assms)

lemma stays_login:
  assumes "\<And>u a ip. stays R (create_session u a ip)" and "\<And>i u h t. stays R (insert_refresh_token i u h t)"
  shows "stays R (login app e p meta)"
  unfolding login_def Let_def case_prod_beta by (intro service_intros stays_issue_tokens assms)

text \<open>The part of \<^verbatim>\<open>refresh\<close> after the token was found.\<close>

lemma stays_refresh_found:
  assumes "stays R (mark_rotated (rt_id r))" and "stays R (revoke_session (rt_session_id r))"
    and "\<And>h t. stays R (insert_refresh_token (rt_session_id r) (rt_user_id r) h t)"
  shows "stays R (bindE (token_stale r) (\<lambda>stale.
         if stale then failE Unauthorized
         else bindE (token_reused r) (\<lambda>reused.
         if reused then
           bindE (db (revoke_session (rt_session_id r))) (\<lambda>_.
           bindE (audit_record a b c d) (\<lambda>_. failE Unauthorized))
         else
           bindE (issue_tokens app (rt_user_id r) (rt_session_id r)) (\<lambda>response.
           bindE (audit_record a' b' c' d') (\<lambda>_. okE response)))))"
  by (intro service_intros stays_token_stale stays_token_reused stays_issue_tokens assms)

lemma stays_refresh:
  assumes "\<And>i. stays R (mark_rotated i)" and "\<And>i. stays R (revoke_session i)"
    and "\<And>i u h t. stays R (insert_refresh_token i u h t)"
  shows "stays R (refresh app tok meta)"
  unfolding refresh_def Let_def by (intro service_intros stays_refresh_found assms)

lemma stays_logout: "stays R (revoke_session i) \<Longrightarrow> stays R (logout u i meta)"
  unfolding logout_def by (intro service_intros)

end

interpretation hist_service: service_order history
  by unfold_locales (auto simp: history_def evolve_refl intro: history_inserts)

interpretation wf_service: service_order "\<lambda>s t. db_ok s \<longrightarrow> db_ok t"
proof unfold_locales
  show "stays (\<lambda>s t. db_ok s \<longrightarrow> db_ok t) (audit_insert u ty me ip)" for u ty me ip
    by (rule wf_inserts)
qed (auto simp: db_ok_defs list_all_iff less_Suc_eq)

lemma history_auth:
  "stays history (authenticate app token)" "stays history (register app request meta)"
  "stays history (login app e p meta)" "stays history (refresh app tok meta)"
  "stays history (logout u i meta)" "stays history (issue_tokens app u i)"
  by (intro hist_service.stays_authenticate hist_service.stays_register hist_service.stays_login
      hist_service.stays_refresh hist_service.stays_logout hist_service.stays_issue_tokens
      history_inserts history_updates history_revoke)+

lemma owned_from_wf:
  assumes "stays (\<lambda>s t. db_ok s \<longrightarrow> db_ok t) m" and "stays history m"
  shows "stays (\<lambda>s t. db_ok s \<and> session_owned i u s \<longrightarrow> db_ok t \<and> session_owned i u t) m"
  using assms history_owned(1) unfolding stays_def by blast

interpretation owned_service: service_order
  "\<lambda>s t. db_ok s \<and> session_owned i u s \<longrightarrow> db_ok t \<and> session_owned i u t" for i u
proof unfold_locales
  show "stays (\<lambda>s t. db_ok s \<and> session_owned i u s \<longrightarrow> db_ok t \<and> session_owned i u t)
      (audit_insert v ty me ip)" for v ty me ip
    by (intro owned_from_wf wf_inserts history_inserts)
qed (auto simp: db_ok_defs list_all_iff less_Suc_eq session_owned_def)

lemma wf_bindE:
  assumes "stays (\<lambda>s t. db_ok s \<longrightarrow> db_ok t) m"
    and "\<And>s x t. db_ok s \<Longrightarrow> db_ok t \<Longrightarrow> m s = (Inr x, t) \<Longrightarrow> db_ok (snd (f x t))"
  shows "stays (\<lambda>s t. db_ok s \<longrightarrow> db_ok t) (bindE m f)"
proof (intro staysI impI)
  fix s assume "db_ok s"
  moreover have "db_ok (snd (m s))" using staysD [OF assms(1), of s] \<open>db_ok s\<close> by simp
  ultimately show "db_ok (snd (bindE m f s))"
    using assms(2) by (auto simp: bindE_def split: prod.splits sum.splits)
qed

lemma owned_wfD:
  assumes "stays (\<lambda>s t. db_ok s \<and> session_owned i u s \<longrightarrow> db_ok t \<and> session_owned i u t) m"
    and "db_ok s" and "session_owned i u s"
  shows "db_ok (snd (m s))"
  using staysD [OF assms(1), of s] assms(2,3) by simp

lemma db_ok_Inr: "db m s = (Inr x, t) \<longleftrightarrow> m s = (Inr x, t)"
  by (simp add: db_def)

lemma create_session_owned:
  "db (create_session u a ip) s = (Inr x, t) \<Longrightarrow> session_owned (s_id x) u t"
  unfolding db_ok_Inr create_session_def
  by (erule sql_ok) (auto simp: session_owned_def Let_def split: if_splits)

lemma found_token_owned:
  assumes "db (find_refresh_token h) s = (Inr (Some r), t)" and "db_ok s"
  shows "r \<in> set (refresh_tokens t) \<and> rt_token_hash r = h \<and> session_owned (rt_session_id r) (rt_user_id r) t"
proof -
  from assms(1) obtain n sc where t: "t = s\<lparr>now := n, script := sc\<rparr>"
    and "find (\<lambda>r. rt_token_hash r = h) (refresh_tokens s) = Some r"
    unfolding db_ok_Inr find_refresh_token_def by (auto elim: sql_ok)
  then have "r \<in> set (refresh_tokens s)" and "rt_token_hash r = h"
    by (auto simp: find_Some_iff)
  with assms(2) t show ?thesis by (auto simp: db_ok_defs list_all_iff session_owned_def)
qed

lemma wf_login_found:
  "stays (\<lambda>s t. db_ok s \<longrightarrow> db_ok t) (bindE (db (create_session u a ip)) (\<lambda>session.
     bindE (issue_tokens app u (s_id session)) (\<lambda>response.
     bindE (audit_record v ty (me session) ip') (\<lambda>_. okE response))))"
proof (rule wf_bindE)
  fix s session t
  assume t: "db_ok t" and created: "db (create_session u a ip) s = (Inr session, t)"
  show "db_ok (snd ((bindE (issue_tokens app u (s_id session)) (\<lambda>response.
     bindE (audit_record v ty (me session) ip') (\<lambda>_. okE response))) t))"
    by (rule owned_wfD [OF _ t create_session_owned [OF created]])
      (intro owned_service.service_intros owned_service.stays_issue_tokens wf_insert_refresh_token)
qed (intro stays_db wf_inserts)

lemma wf_login: "stays (\<lambda>s t. db_ok s \<longrightarrow> db_ok t) (login app e p meta)"
  unfolding login_def Let_def case_prod_beta by (intro wf_login_found wf_service.service_intros)

lemma wf_refresh: "stays (\<lambda>s t. db_ok s \<longrightarrow> db_ok t) (refresh app tok meta)"
  unfolding refresh_def Let_def
proof (rule wf_bindE)
  fix s found t
  assume s: "db_ok s" and t: "db_ok t"
    and found: "db (find_refresh_token (hash_token (token_lib app) tok)) s = (Inr found, t)"
  show "db_ok (snd ((case found of
       None \<Rightarrow> failE Unauthorized
     | Some r \<Rightarrow>
         bindE (token_stale r) (\<lambda>stale.
         if stale then failE Unauthorized
         else bindE (token_reused r) (\<lambda>reused.
         if reused then
           bindE (db (revoke_session (rt_session_id r))) (\<lambda>_.
           bindE (audit_record (Some (rt_user_id r)) ''auth.refresh_token_reuse_detected''
             [(''session_id'', M_uuid (rt_session_id r))] (ip_address meta)) (\<lambda>_.
           failE Unauthorized))
         else
           bindE (issue_tokens app (rt_user_id r) (rt_session_id r)) (\<lambda>response.
           bindE (audit_record (Some (rt_user_id r)) ''auth.token_refreshed''
             [(''session_id'', M_uuid (rt_session_id r))] (ip_address meta)) (\<lambda>_.
           okE response))))) t))"
  proof (cases found)
    case (Some r)
    then have "session_owned (rt_session_id r) (rt_user_id r) t" using found_token_owned found s by blast
    with t show ?thesis
      unfolding Some option.case
      by (rule owned_wfD [OF owned_service.stays_refresh_found [OF
            owned_from_wf [OF wf_updates(1) history_updates(1)] owned_from_wf [OF wf_revoke history_revoke]
            wf_insert_refresh_token]])
  qed (simp add: t)
qed (intro stays_db wf.stays_reads)

lemma wf_auth:
  "stays (\<lambda>s t. db_ok s \<longrightarrow> db_ok t) (authenticate app token)"
  "stays (\<lambda>s t. db_ok s \<longrightarrow> db_ok t) (register app request meta)"
  "stays (\<lambda>s t. db_ok s \<longrightarrow> db_ok t) (logout u i meta)"
  by (intro wf_service.stays_authenticate wf_service.stays_register wf_service.stays_logout
      wf_inserts wf_revoke)+

subsection \<open>Revocation\<close>

lemma history_revoked: "history s t \<Longrightarrow> revoked i s \<Longrightarrow> revoked i t"
  unfolding history_def evolve_def session_later_def revoked_def list_ex_iff final_def by metis

lemma history_rotated: "history s t \<Longrightarrow> rotated h s \<Longrightarrow> rotated h t"
  unfolding history_def evolve_def token_later_def rotated_def list_ex_iff final_def by metis

lemma history_token_of_session: "history s t \<Longrightarrow> token_of_session h i s \<Longrightarrow> token_of_session h i t"
  unfolding history_def evolve_def token_later_def token_of_session_def list_ex_iff by metis

lemma distinct_map_eq: "distinct (map f xs) \<Longrightarrow> x \<in> set xs \<Longrightarrow> y \<in> set xs \<Longrightarrow> f x = f y \<Longrightarrow> x = y"
  by (meson distinct_map inj_onD)

lemma is_active_sound:
  assumes "db (is_active i) s = (Inr b, t)" and "db_ok s" and "b"
  shows "\<not> revoked i s"
proof
  assume "revoked i s"
  then obtain y where y: "y \<in> set (sessions s)" "s_id y = i" "s_revoked_at y \<noteq> None"
    by (auto simp: revoked_def list_ex_iff)
  from assms(1,3) obtain x where "x \<in> set (sessions s)" "s_id x = i" "s_revoked_at x = None"
    unfolding db_ok_Inr is_active_def by (auto elim!: sql_ok simp: find_Some_iff2 find_None_iff)
  with y assms(2) show False
    using distinct_map_eq [of s_id "sessions s" x y] by (auto simp: db_ok_defs)
qed

lemma authenticate_cases:
  assumes "authenticate app token s = (Inr a, t)"
  obtains c s1 where "jwt_verify (jwt_lib app) (app_jwt app) (seconds (now s)) token = Some c"
    and "db (is_active (sid c)) s = (Inr True, t)"
    and "a = \<lparr>au_user_id = sub c, au_session_id = sid c, au_expires_at = exp c\<rparr>"
  using assms unfolding authenticate_def bindE_eq_Inr
  by (auto simp: utc_now_def ok_or_def split: option.splits if_splits)

lemma authenticate_not_revoked:
  assumes "authenticate app token s = (Inr a, t)" and "db_ok s"
  shows "\<not> revoked (au_session_id a) s"
  using assms(1) by (rule authenticate_cases) (auto dest: is_active_sound [OF _ assms(2)])

subsection \<open>Rotation\<close>

lemma token_unique:
  assumes "db_ok s" and "r \<in> set (refresh_tokens s)" and "x \<in> set (refresh_tokens s)"
    and "rt_token_hash r = rt_token_hash x \<or> rt_id r = rt_id x"
  shows "r = x"
  using assms distinct_map_eq [of rt_token_hash "refresh_tokens s" r x]
    distinct_map_eq [of rt_id "refresh_tokens s" r x] by (auto simp: db_ok_defs)

lemma find_refresh_token_state:
  "db (find_refresh_token h) s = (Inr found, t) \<Longrightarrow>
     (\<exists>n sc. t = s\<lparr>now := n, script := sc\<rparr> \<and> now s \<le> n) \<and>
     found = find (\<lambda>r. rt_token_hash r = h) (refresh_tokens s)"
  unfolding db_ok_Inr find_refresh_token_def by (erule sql_ok) auto

lemma token_stale_False:
  assumes "token_stale r s = (Inr False, t)" and "rt_rotated_at r = None" and "db_ok s"
  shows "rt_revoked_at r = None \<and> now s \<le> rt_expires_at r \<and> \<not> revoked (rt_session_id r) s"
  using assms is_active_sound [OF _ assms(3), of "rt_session_id r" True t]
  by (auto simp: token_stale_def bindE_eq_Inr utc_now_def split: if_splits)

lemma token_reused_False:
  "token_reused r s = (Inr False, t) \<Longrightarrow> rt_rotated_at r = None \<and> db (mark_rotated (rt_id r)) s = (Inr True, t)"
  by (auto simp: token_reused_def bindE_eq_Inr split: if_splits)

text \<open>How a successful exchange went.\<close>

lemma refresh_steps:
  assumes "refresh app tok meta s = (Inr resp, t)"
  obtains r s0 s1 s2 s3 where
    "db (find_refresh_token (hash_token (token_lib app) tok)) s = (Inr (Some r), s0)"
    "token_stale r s0 = (Inr False, s1)" "token_reused r s1 = (Inr False, s2)"
    "issue_tokens app (rt_user_id r) (rt_session_id r) s2 = (Inr resp, s3)" "history s3 t"
proof -
  obtain found s0 where f: "db (find_refresh_token (hash_token (token_lib app) tok)) s = (Inr found, s0)"
    and rest: "(case found of None \<Rightarrow> failE Unauthorized
     | Some r \<Rightarrow>
         bindE (token_stale r) (\<lambda>stale.
         if stale then failE Unauthorized
         else bindE (token_reused r) (\<lambda>reused.
         if reused then
           bindE (db (revoke_session (rt_session_id r))) (\<lambda>_.
           bindE (audit_record (Some (rt_user_id r)) ''auth.refresh_token_reuse_detected''
             [(''session_id'', M_uuid (rt_session_id r))] (ip_address meta)) (\<lambda>_.
           failE Unauthorized))
         else
           bindE (issue_tokens app (rt_user_id r) (rt_session_id r)) (\<lambda>response.
           bindE (audit_record (Some (rt_user_id r)) ''auth.token_refreshed''
             [(''session_id'', M_uuid (rt_session_id r))] (ip_address meta)) (\<lambda>_.
           okE response))))) s0 = (Inr resp, t)"
    using assms unfolding refresh_def Let_def bindE_eq_Inr by blast
  then obtain r where "found = Some r" by (cases found) auto
  moreover have "history s3 t" if "audit_record u ty me ip s3 = (Inr x, t)" for u ty me ip x s3
    using that staysD [OF history_inserts(7), of s3] by (auto simp: audit_record_def)
  ultimately show ?thesis
    using rest f that by (auto simp: bindE_eq_Inr split: if_splits)
qed

lemma refresh_success:
  assumes "refresh app tok meta s = (Inr resp, t)" and "db_ok s"
  obtains r s1 s2 s3 where "r \<in> set (refresh_tokens s)" "rt_token_hash r = hash_token (token_lib app) tok"
    "rt_rotated_at r = None" "rt_revoked_at r = None" "now s \<le> rt_expires_at r"
    "\<not> revoked (rt_session_id r) s" "history s s1" "db_ok s1"
    "db (mark_rotated (rt_id r)) s1 = (Inr True, s2)"
    "issue_tokens app (rt_user_id r) (rt_session_id r) s2 = (Inr resp, s3)" "history s3 t"
proof -
  obtain r s0 s1 s2 s3 where f: "db (find_refresh_token (hash_token (token_lib app) tok)) s = (Inr (Some r), s0)"
    and stale: "token_stale r s0 = (Inr False, s1)" and reused: "token_reused r s1 = (Inr False, s2)"
    and issue: "issue_tokens app (rt_user_id r) (rt_session_id r) s2 = (Inr resp, s3)" "history s3 t"
    by (rule refresh_steps [OF assms(1)])
  obtain n sc where s0: "s0 = s\<lparr>now := n, script := sc\<rparr>" "now s \<le> n"
    and found: "find (\<lambda>x. rt_token_hash x = hash_token (token_lib app) tok) (refresh_tokens s) = Some r"
    using find_refresh_token_state [OF f] by auto
  have ok0: "db_ok s0" and h0: "history s s0"
    using assms(2) s0 wf.quiet [of s n sc] hist.quiet [of s n sc] by simp_all
  have h1: "history s0 s1" and ok1: "db_ok s1"
    using staysD [OF hist_service.stays_token_stale, of s0 r] staysD [OF wf_service.stays_token_stale, of s0 r]
      stale ok0 by simp_all
  have r: "r \<in> set (refresh_tokens s)" "rt_token_hash r = hash_token (token_lib app) tok"
    using found by (auto simp: find_Some_iff)
  have "rt_rotated_at r = None" and mark: "db (mark_rotated (rt_id r)) s1 = (Inr True, s2)"
    using token_reused_False [OF reused] by simp_all
  moreover have "rt_revoked_at r = None" "now s0 \<le> rt_expires_at r" "\<not> revoked (rt_session_id r) s0"
    using token_stale_False [OF stale _ ok0] calculation by simp_all
  moreover have "now s \<le> now s0" "revoked (rt_session_id r) s0 = revoked (rt_session_id r) s"
    using s0 by (simp_all add: revoked_def)
  ultimately show ?thesis
    using that [OF r _ _ _ _ history_trans [OF h0 h1] ok1 mark issue] by simp
qed

lemma mark_rotated_rotates:
  assumes "db (mark_rotated i) s = (Inr b, t)" and "r \<in> set (refresh_tokens s)" and "rt_id r = i"
  shows "rotated (rt_token_hash r) t"
proof -
  from assms(1) obtain n sc where t: "t = s\<lparr>now := n, script := sc, refresh_tokens :=
      update_rows (\<lambda>r. rt_id r = i \<and> rt_rotated_at r = None) (\<lambda>r. r\<lparr>rt_rotated_at := Some n\<rparr>) (refresh_tokens s)\<rparr>"
    unfolding db_ok_Inr mark_rotated_def by (auto simp: Let_def elim: sql_ok)
  let ?y = "if rt_id r = i \<and> rt_rotated_at r = None then r\<lparr>rt_rotated_at := Some n\<rparr> else r"
  have "?y \<in> set (refresh_tokens t)"
    unfolding t using update_rows_mem [OF assms(2), of "\<lambda>r. rt_id r = i \<and> rt_rotated_at r = None"] by simp
  moreover have "rt_token_hash ?y = rt_token_hash r" "rt_rotated_at ?y \<noteq> None" using assms(3) by auto
  ultimately show ?thesis unfolding rotated_def list_ex_iff by blast
qed

lemma refresh_rotates:
  assumes "refresh app tok meta s = (Inr resp, t)" and "db_ok s"
  shows "rotated (hash_token (token_lib app) tok) t"
  using assms
proof (rule refresh_success)
  fix r s1 s2 s3
  assume r: "r \<in> set (refresh_tokens s)" "rt_token_hash r = hash_token (token_lib app) tok"
    and h: "history s s1" "history s3 t"
    and mark: "db (mark_rotated (rt_id r)) s1 = (Inr True, s2)"
    and issue: "issue_tokens app (rt_user_id r) (rt_session_id r) s2 = (Inr resp, s3)"
  from h(1) r(1) obtain r1 where "r1 \<in> set (refresh_tokens s1)" "rt_id r1 = rt_id r"
    "rt_token_hash r1 = rt_token_hash r"
    unfolding history_def evolve_def token_later_def by blast
  then have "rotated (rt_token_hash r) s2" using mark_rotated_rotates [OF mark, of r1] by simp
  moreover have "history s2 s3" using staysD [OF history_auth(6), of s2 app] issue by (metis snd_conv)
  ultimately show ?thesis using r(2) h(2) history_rotated by metis
qed

text \<open>A rotated token, and a token of a revoked session, are never exchanged.\<close>

lemma refresh_rotated_fails: "db_ok s \<Longrightarrow> rotated (hash_token (token_lib app) tok) s \<Longrightarrow> \<not> is_ok (fst (refresh app tok meta s))"
proof
  assume ok: "db_ok s" and rot: "rotated (hash_token (token_lib app) tok) s"
    and "is_ok (fst (refresh app tok meta s))"
  then obtain resp t where "refresh app tok meta s = (Inr resp, t)"
    by (cases "refresh app tok meta s"; cases "fst (refresh app tok meta s)") auto
  from this ok show False
    using rot by - (rule refresh_success, auto simp: rotated_def list_ex_iff dest: token_unique [OF ok])
qed

lemma refresh_revoked_fails:
  "db_ok s \<Longrightarrow> token_of_session (hash_token (token_lib app) tok) i s \<Longrightarrow> revoked i s \<Longrightarrow>
     \<not> is_ok (fst (refresh app tok meta s))"
proof
  assume ok: "db_ok s" and i: "token_of_session (hash_token (token_lib app) tok) i s" "revoked i s"
    and "is_ok (fst (refresh app tok meta s))"
  then obtain resp t where "refresh app tok meta s = (Inr resp, t)"
    by (cases "refresh app tok meta s"; cases "fst (refresh app tok meta s)") auto
  from this ok show False
    using i by - (rule refresh_success, auto simp: token_of_session_def list_ex_iff dest: token_unique [OF ok])
qed

subsection \<open>Runs on a database that answers\<close>

lemma revoke_session_quiet:
  "script s = [] \<Longrightarrow> revoke_session i s = (Inr (), s\<lparr>
     sessions := update_rows (\<lambda>x. s_id x = i \<and> s_revoked_at x = None)
       (\<lambda>x. x\<lparr>s_revoked_at := Some (now s)\<rparr>) (sessions s),
     refresh_tokens := update_rows (\<lambda>r. rt_session_id r = i \<and> rt_revoked_at r = None)
       (\<lambda>r. r\<lparr>rt_revoked_at := Some (now s)\<rparr>) (refresh_tokens s)\<rparr>)"
  unfolding revoke_session_def by (intro transaction_quiet) (simp_all add: bindE_def Let_def)

lemma update_rows_all: "(\<And>x. Q (f x)) \<Longrightarrow> (\<And>x. \<not> P x \<Longrightarrow> Q x) \<Longrightarrow> list_all Q (update_rows P f rows)"
  by (auto simp: update_rows_def list_all_iff)

lemma update_rows_ex:
  "list_ex Q rows \<Longrightarrow> (\<And>x. Q x \<Longrightarrow> Q' (if P x then f x else x)) \<Longrightarrow> list_ex Q' (update_rows P f rows)"
  unfolding list_ex_iff by (metis update_rows_mem)

lemma revoked_after_revoke:
  assumes "script s = []" and "list_ex (\<lambda>x. s_id x = i) (sessions s)"
  shows "revoked i (snd (revoke_session i s)) \<and>
    list_all (\<lambda>r. rt_session_id r \<noteq> i \<or> rt_revoked_at r \<noteq> None) (refresh_tokens (snd (revoke_session i s)))"
  unfolding revoke_session_quiet [OF assms(1)] revoked_def
  by (auto intro!: update_rows_ex [OF assms(2)] update_rows_all)

lemma owned_session_ex: "session_owned i u s \<Longrightarrow> list_ex (\<lambda>x. s_id x = i) (sessions s)"
  by (auto simp: session_owned_def list_ex_iff)

lemma owned_session_user: "db_ok s \<Longrightarrow> session_owned i u s \<Longrightarrow> u \<in> u_id ` set (users s)"
  by (auto simp: session_owned_def db_ok_defs list_all_iff)

lemma token_session_owned:
  "db_ok s \<Longrightarrow> r \<in> set (refresh_tokens s) \<Longrightarrow> session_owned (rt_session_id r) (rt_user_id r) s"
  by (auto simp: db_ok_defs list_all_iff session_owned_def)

lemma find_by_hash:
  "db_ok s \<Longrightarrow> r \<in> set (refresh_tokens s) \<Longrightarrow>
     find (\<lambda>x. rt_token_hash x = rt_token_hash r) (refresh_tokens s) = Some r"
proof (cases "find (\<lambda>x. rt_token_hash x = rt_token_hash r) (refresh_tokens s)")
  case (Some x)
  assume "db_ok s" "r \<in> set (refresh_tokens s)"
  with Some token_unique [of s x r] show ?thesis by (auto simp: find_Some_iff)
qed (auto simp: find_None_iff)

lemma find_by_email_unique:
  "db_ok s \<Longrightarrow> u \<in> set (users s) \<Longrightarrow> find (\<lambda>x. u_email x = u_email u) (users s) = Some u"
proof (cases "find (\<lambda>x. u_email x = u_email u) (users s)")
  case (Some x)
  assume "db_ok s" "u \<in> set (users s)"
  with Some distinct_map_eq [of u_email "users s" x u] show ?thesis
    by (auto simp: find_Some_iff db_ok_defs)
qed (auto simp: find_None_iff)

lemma verify_hashed: "argon_lawful api \<Longrightarrow> hash_password api random pw = Inr h \<Longrightarrow> verify_password api pw h"
  by (fastforce simp: argon_lawful_def hash_password_def verify_password_def Let_def)

lemma register_quiet:
  assumes "register app request meta s = (Inr u, t)" and "script s = []"
  shows "validate_email (rr_email request) = Inr (u_email u) \<and>
    hash_password (argon_lib app) (rng app (draws s)) (rr_password request) = Inr (u_password_hash u) \<and>
    u \<in> set (users t) \<and> script t = [] \<and> now t = now s \<and> refresh_tokens t = refresh_tokens s"
  using assms
  by (auto simp: register_def bindE_eq_Inr db_ok_Inr find_by_email_def users_insert_def draw_def
      audit_record_def audit_insert_def Let_def split: if_splits)

lemma issue_tokens_quiet:
  assumes "script s = []" and "session_owned i u s" and "u \<in> u_id ` set (users s)"
    and "jwt_issue (jwt_lib app) (app_jwt app) (seconds (now s)) (next_id s) u i = Inr access"
    and "expiry (now s) (refresh_token_ttl (app_config app)) = Inr e"
    and "hash_token (token_lib app) (generate_token (token_lib app) (rng app (draws s)))
           \<notin> rt_token_hash ` set (refresh_tokens s)"
  shows "\<exists>resp t. issue_tokens app u i s = (Inr resp, t) \<and> access_token resp = access \<and>
    sessions t = sessions s \<and> users t = users s \<and> script t = [] \<and> now t = now s"
proof -
  have "i \<in> s_id ` set (sessions s)" using assms(2) by (auto simp: session_owned_def)
  then show ?thesis
    using assms(1,3-6)
    by (simp add: issue_tokens_def bindE_def utc_now_def new_v4_def draw_def db_def map_errE_def
        insert_refresh_token_def Let_def)
qed

subsection \<open>The concrete database\<close>

lemma db_ok_demo_store: "db_ok demo_store"
  by (simp add: db_ok_defs demo_store_def store_empty_def)

lemma db_ok_empty: "db_ok (store_empty t sc)"
  by (simp add: db_ok_defs store_empty_def)

lemma reuse_detected:
  assumes "db_ok s" and "script s = []" and "r \<in> set (refresh_tokens s)"
    and "rt_token_hash r = hash_token (token_lib app) tok" and "rt_rotated_at r \<noteq> None"
  shows "\<exists>t. refresh app tok meta s = (Inl Unauthorized, t) \<and> revoked (rt_session_id r) t \<and>
    list_all (\<lambda>x. rt_session_id x \<noteq> rt_session_id r \<or> rt_revoked_at x \<noteq> None) (refresh_tokens t) \<and>
    audit_events t = audit_events s @ [\<lparr>a_user_id = Some (rt_user_id r),
      a_event_type = ''auth.refresh_token_reuse_detected'',
      a_metadata = [(''session_id'', M_uuid (rt_session_id r))],
      a_ip_address = ip_address meta, a_created_at = now s\<rparr>]"
proof -
  let ?i = "rt_session_id r"
  have owned: "session_owned ?i (rt_user_id r) s" using token_session_owned assms(1,3) by blast
  have found: "find (\<lambda>x. rt_token_hash x = hash_token (token_lib app) tok) (refresh_tokens s) = Some r"
    using find_by_hash [OF assms(1,3)] assms(4) by simp
  have user: "rt_user_id r \<in> u_id ` set (users s)" using owned_session_user assms(1) owned by blast
  obtain t where t: "revoke_session ?i s = (Inr (), t)" "script t = []" "users t = users s"
    "audit_events t = audit_events s" "now t = now s"
    using revoke_session_quiet [OF assms(2), of ?i] assms(2) by simp
  have rev: "revoked ?i t \<and> list_all (\<lambda>x. rt_session_id x \<noteq> ?i \<or> rt_revoked_at x \<noteq> None) (refresh_tokens t)"
    using revoked_after_revoke [OF assms(2) owned_session_ex [OF owned]] t(1) by simp
  have "refresh app tok meta s = (Inl Unauthorized, t\<lparr>audit_events := audit_events s @
      [\<lparr>a_user_id = Some (rt_user_id r), a_event_type = ''auth.refresh_token_reuse_detected'',
        a_metadata = [(''session_id'', M_uuid ?i)], a_ip_address = ip_address meta, a_created_at = now s\<rparr>]\<rparr>)"
    using assms(2,5) found user t
    by (simp add: refresh_def bindE_def db_def map_errE_def find_refresh_token_def token_stale_def
        token_reused_def audit_record_def audit_insert_def)
  with rev show ?thesis by (simp add: revoked_def)
qed

text \<open>
  Two registrations of one address can both find it free; the insertion of the second then violates
  the unique constraint, and that error is answered with 500, not with the 409 of the lookup.
\<close>

lemma late_duplicate_is_internal:
  assumes "script s = []" and "email \<in> u_email ` set (users s)"
  shows "fst (db (users_insert email hash name) s) = Inl (Database Unique_violation)"
    and "fst (status_and_code (Database Unique_violation)) = 500"
  using assms by (simp_all add: db_def map_errE_def users_insert_def)

section \<open>Properties\<close>

text \<open>
  C7. Theft response: presenting a refresh token that was already exchanged is refused and, when the
  database answers, revokes the session and every refresh token of it, and leaves an audit
  event that names the session.
\<close>

theorem token_reuse_revokes:
  assumes "db_ok s" and "script s = []" and "r \<in> set (refresh_tokens s)"
    and "rt_token_hash r = hash_token (token_lib app) tok" and "rt_rotated_at r \<noteq> None"
  shows "\<exists>t. refresh app tok meta s = (Inl Unauthorized, t) \<and> revoked (rt_session_id r) t \<and>
    list_all (\<lambda>x. rt_session_id x \<noteq> rt_session_id r \<or> rt_revoked_at x \<noteq> None) (refresh_tokens t) \<and>
    audit_events t = audit_events s @ [\<lparr>a_user_id = Some (rt_user_id r),
      a_event_type = ''auth.refresh_token_reuse_detected'',
      a_metadata = [(''session_id'', M_uuid (rt_session_id r))],
      a_ip_address = ip_address meta, a_created_at = now s\<rparr>]"
  using assms by (rule reuse_detected)

theorem token_reuse_revokes_witness:
  "\<exists>t. refresh demo_app ''old'' demo_meta demo_store = (Inl Unauthorized, t) \<and> revoked 1 t"
proof -
  let ?r = "hd (refresh_tokens demo_store)"
  have "script demo_store = []" "?r \<in> set (refresh_tokens demo_store)"
    "rt_token_hash ?r = hash_token (token_lib demo_app) ''old''" "rt_rotated_at ?r \<noteq> None" "rt_session_id ?r = 1"
    by (simp_all add: demo_store_def store_empty_def demo_app_def)
  with token_reuse_revokes [OF db_ok_demo_store, of ?r demo_app "''old''" demo_meta] show ?thesis by auto
qed

text \<open>
  C24. A failed login reveals nothing: for an unknown account and for a wrong password, the answer
  and the change to the database (one anonymous audit event) are the same.
\<close>

theorem login_failures_alike:
  assumes "script s = []" and "validate_email email = Inr e"
    and "\<forall>u \<in> set (users s). u_email u = e \<longrightarrow> \<not> verify_password (argon_lib app) pw (u_password_hash u)"
  shows "login app email pw meta s = (Inl Unauthorized, s\<lparr>audit_events := audit_events s @
     [\<lparr>a_user_id = None, a_event_type = ''auth.login_failed'', a_metadata = [],
       a_ip_address = ip_address meta, a_created_at = now s\<rparr>]\<rparr>)"
proof -
  have "(case check_credentials app pw (find (\<lambda>u. u_email u = e) (users s)) of
      (user, valid) \<Rightarrow> if valid then user else None) = None"
    using assms(3) by (auto simp: check_credentials_def find_Some_iff split: option.split)
  then show ?thesis
    using assms(1,2)
    by (simp add: login_def bindE_def db_def map_errE_def find_by_email_def audit_record_def
        audit_insert_def case_prod_beta)
qed

theorem login_failures_alike_witness:
  "fst (login demo_app ''A@B.C'' ''wrong password'' demo_meta demo_store) = Inl Unauthorized"
proof -
  have "validate_email ''A@B.C'' = Inr ''a@b.c''" by code_simp
  moreover have "\<not> verify_password (argon_lib demo_app) ''wrong password'' ''$0123456789''" by code_simp
  ultimately show ?thesis
    using login_failures_alike [of demo_store "''A@B.C''" "''a@b.c''" demo_app "''wrong password''" demo_meta]
    by (simp add: demo_store_def store_empty_def)
qed

text \<open>
  C22. The way in: after a registration that succeeded, logging in with the same email and password
  succeeds, and the access token handed out authenticates exactly the registered user, provided
  the token lifetimes fit the clock and the random refresh token does not collide with a
  stored one.
\<close>

theorem register_then_login:
  assumes "argon_lawful (argon_lib app)" and "jwt_lawful (jwt_lib app) secret"
    and "app_jwt app = jwt_new secret t0" and "db_ok s" and "script s = []"
    and "register app request meta s = (Inr u, s1)"
    and "0 \<le> seconds (now s)" and "seconds (now s) + int (unat t0) \<le> i64_max"
    and "expiry (now s) (refresh_token_ttl (app_config app)) = Inr e"
    and "hash_token (token_lib app) (generate_token (token_lib app) (rng app (draws s1)))
           \<notin> rt_token_hash ` set (refresh_tokens s)"
  shows "\<exists>resp s2 a. login app (rr_email request) (rr_password request) meta' s1 = (Inr resp, s2) \<and>
    fst (authenticate app (access_token resp) s2) = Inr a \<and> au_user_id a = u_id u"
proof -
  have reg: "validate_email (rr_email request) = Inr (u_email u)"
    "hash_password (argon_lib app) (rng app (draws s)) (rr_password request) = Inr (u_password_hash u)"
    "u \<in> set (users s1)" "script s1 = []" "now s1 = now s" "refresh_tokens s1 = refresh_tokens s"
    using register_quiet [OF assms(6,5)] by simp_all
  have ok1: "db_ok s1" using staysD [OF wf_auth(2), of s app request meta] assms(4,6) by simp
  let ?x = "\<lparr>s_id = next_id s1, s_user_id = u_id u, s_user_agent = user_agent meta',
      s_ip_address = ip_address meta', s_created_at = now s, s_revoked_at = None\<rparr>"
  let ?s2 = "s1\<lparr>sessions := sessions s1 @ [?x], next_id := Suc (next_id s1)\<rparr>"
  have sess: "create_session (u_id u) (user_agent meta') (ip_address meta') s1 = (Inr ?x, ?s2)"
    using reg by (simp add: create_session_def Let_def)
  obtain access where jwt: "jwt_issue (jwt_lib app) (app_jwt app) (seconds (now s)) (Suc (next_id s1))
      (u_id u) (next_id s1) = Inr access"
    unfolding assms(3) using jwt_issue_works [OF assms(2)] by blast
  have "session_owned (next_id s1) (u_id u) ?s2" and "u_id u \<in> u_id ` set (users ?s2)"
    using reg by (simp_all add: session_owned_def)
  from issue_tokens_quiet [OF _ this, of app access e]
  obtain resp t where iss: "issue_tokens app (u_id u) (next_id s1) ?s2 = (Inr resp, t)"
    "access_token resp = access" "sessions t = sessions ?s2" "users t = users ?s2" "script t = []" "now t = now s"
    using jwt reg assms(9,10) by auto
  have login: "login app (rr_email request) (rr_password request) meta' s1 =
      (Inr resp, snd (audit_record (Some (u_id u)) ''auth.login'' [(''session_id'', M_uuid (next_id s1))] (ip_address meta') t))"
    using reg sess iss find_by_email_unique [OF ok1 reg(3)] verify_hashed [OF assms(1) reg(2)]
    by (simp add: login_def bindE_def db_def map_errE_def find_by_email_def check_credentials_def audit_record_def)
  define s3 where "s3 = snd (audit_record (Some (u_id u)) ''auth.login'' [(''session_id'', M_uuid (next_id s1))] (ip_address meta') t)"
  have s3: "sessions s3 = sessions s1 @ [?x]" "script s3 = []" "now s3 = now s"
    using iss by (simp_all add: s3_def audit_record_def audit_insert_def)
  have active: "is_active (next_id s1) s3 = (Inr True, s3)"
    using s3 by (auto simp: is_active_def find_None_iff intro!: exI [of _ ?x])
  have "jwt_verify (jwt_lib app) (app_jwt app) (seconds (now s)) access =
      Some \<lparr>sub = u_id u, sid = next_id s1, jti = Suc (next_id s1), iat = seconds (now s),
        exp = seconds (now s) + int (unat t0), iss = ISSUER\<rparr>"
    using jwt_lifetime [OF assms(2) jwt [unfolded assms(3)] assms(7,8), of "seconds (now s)"] assms(3) by simp
  then have "fst (authenticate app (access_token resp) s3) =
      Inr \<lparr>au_user_id = u_id u, au_session_id = next_id s1, au_expires_at = seconds (now s) + int (unat t0)\<rparr>"
    using iss(2) s3 active by (simp add: authenticate_def bindE_def utc_now_def db_def map_errE_def)
  with login show ?thesis unfolding s3_def [symmetric] by simp
qed

theorem register_then_login_witness:
  "\<exists>u s1 resp s2 a.
     register demo_app \<lparr>rr_email = ''N@b.c'', rr_password = ''0123456789'', rr_display_name = None\<rparr>
       demo_meta demo_store = (Inr u, s1) \<and>
     login demo_app ''N@b.c'' ''0123456789'' demo_meta s1 = (Inr resp, s2) \<and>
     fst (authenticate demo_app (access_token resp) s2) = Inr a \<and> au_user_id a = u_id u"
proof -
  let ?req = "\<lparr>rr_email = ''N@b.c'', rr_password = ''0123456789'', rr_display_name = None\<rparr>"
  have email: "validate_email ''N@b.c'' = Inr ''n@b.c''" and pw: "validate_password ''0123456789'' = Inr ()"
    by code_simp+
  obtain u s1 where reg: "register demo_app ?req demo_meta demo_store = (Inr u, s1)"
    and "draws s1 = 1"
    by (simp add: register_def bindE_def email pw db_def map_errE_def find_by_email_def demo_store_def
        store_empty_def draw_def hash_password_def demo_app_def demo_argon_def users_insert_def
        audit_record_def audit_insert_def Let_def)
  have lawful: "argon_lawful (argon_lib demo_app)" "jwt_lawful (jwt_lib demo_app) [1, 2]"
    "app_jwt demo_app = jwt_new [1, 2] 3" "script demo_store = []" "now demo_store = 10000000"
    by (simp_all add: demo_app_def demo_argon_lawful demo_jwt_lawful demo_store_def store_empty_def)
  have expiry: "expiry (now demo_store) (refresh_token_ttl (app_config demo_app)) = Inr 86410000000"
    by (simp add: lawful(5) demo_app_def demo_config_def expiry_def CHRONO_MAX_SECS_def UTC_MAX_SECS_def seconds_def)
  have "hash_token demo_tokens ''A'' \<noteq> hash_token demo_tokens ''old''"
    by code_simp
  then have fresh: "hash_token (token_lib demo_app) (generate_token (token_lib demo_app) (rng demo_app (draws s1)))
      \<notin> rt_token_hash ` set (refresh_tokens demo_store)"
    using \<open>draws s1 = 1\<close>
    by (simp add: demo_app_def demo_store_def generate_token_def demo_tokens_def)
  have "\<exists>resp s2 a. login demo_app (rr_email ?req) (rr_password ?req) demo_meta s1 = (Inr resp, s2) \<and>
    fst (authenticate demo_app (access_token resp) s2) = Inr a \<and> au_user_id a = u_id u"
    by (rule register_then_login [OF lawful(1-3) db_ok_demo_store lawful(4) reg _ _ expiry fresh])
      (simp_all add: lawful(5) seconds_def i64_max_def)
  with reg show ?thesis by auto
qed

end
