(* ===== verification/Channel.thy ===== *)
theory Channel
  imports Prelude
begin

text \<open>
  The contract of a one-way sequenced channel: what the WebSocket handler relies on from
  \<^verbatim>\<open>StreamSession\<close>. A frame is accepted exactly when its position is the next expected one, and a
  refused frame changes nothing; a frame that does not open under the receiver's key is refused.
  From the contract follow in-order delivery, and that an adversary who replays, reorders and
  drops genuine frames and injects forged ones can only cut the stream short.
  The two directions of a stream session are interpreted in theory \<^verbatim>\<open>Stream_Session\<close>.
\<close>

text \<open>Run an action over a list of inputs, keeping the results of the calls that succeed.\<close>

fun run_oks :: "('m \<Rightarrow> ('s, 'e, 'a) action) \<Rightarrow> 'm list \<Rightarrow> 's \<Rightarrow> 'a list \<times> 's" where
  "run_oks f [] s = ([], s)"
| "run_oks f (m # ms) s =
     (case f m s of
        (Inl _, t) \<Rightarrow> run_oks f ms t
      | (Inr a, t) \<Rightarrow> (let (as, u) = run_oks f ms t in (a # as, u)))"

lemma length_run_oks_le: "length (fst (run_oks f ms s)) \<le> length ms"
proof (induction ms arbitrary: s)
  case (Cons m ms)
  show ?case
  proof (cases "f m s")
    case (Pair r t)
    then show ?thesis using Cons.IH [of t] by (cases r) (auto split: prod.splits)
  qed
qed simp

lemma run_oks_Cons_all:
  assumes "run_oks f (m # ms) s = (as, u)" and "length as = Suc (length ms)"
  obtains a t bs where "f m s = (Inr a, t)" and "run_oks f ms t = (bs, u)" and "as = a # bs"
proof (cases "f m s")
  case (Pair r t)
  show ?thesis
  proof (cases r)
    case (Inl e)
    with Pair assms have "length (fst (run_oks f ms t)) = Suc (length ms)" by simp
    with length_run_oks_le [of f ms t] show ?thesis by simp
  next
    case (Inr a)
    with Pair assms(1) show ?thesis by (auto split: prod.splits intro: that)
  qed
qed

locale sequenced_channel =
  fixes send :: "'m \<Rightarrow> ('s, 'e, 'f) action"
    and recv :: "'f \<Rightarrow> ('r, 'd, 'm) action"
    and sent :: "'s \<Rightarrow> nat"
    and received :: "'r \<Rightarrow> nat"
    and linked :: "'s \<Rightarrow> 'r \<Rightarrow> bool"
    and opens :: "'r \<Rightarrow> 'f \<Rightarrow> bool"
  assumes send_ok: "send m s = (Inr f, s') \<Longrightarrow> sent s' = Suc (sent s)"
    and send_err: "send m s = (Inl e, s') \<Longrightarrow> s' = s"
    and send_linked: "linked s r \<Longrightarrow> linked (snd (send m s)) r"
    and recv_linked: "linked s r \<Longrightarrow> linked s (snd (recv f r))"
    and recv_ok: "recv f r = (Inr m, r') \<Longrightarrow> received r' = Suc (received r)"
    and recv_err: "recv f r = (Inl d, r') \<Longrightarrow> r' = r"
    and recv_next: "\<lbrakk>linked s r; send m s = (Inr f, s'); received r = sent s\<rbrakk>
      \<Longrightarrow> \<exists>r'. recv f r = (Inr m, r')"
    and recv_other: "\<lbrakk>linked s r; send m s = (Inr f, s'); received r \<noteq> sent s\<rbrakk>
      \<Longrightarrow> \<exists>d. recv f r = (Inl d, r)"
    and recv_opens: "recv f r = (Inr m, r') \<Longrightarrow> opens r f"
    and opens_stable: "opens (snd (recv f r)) g = opens r g"
begin

text \<open>A frame that does not open is refused and leaves no trace, wherever it is injected.\<close>

lemma forged_refused:
  assumes "\<not> opens r f"
  obtains d where "recv f r = (Inl d, r)"
proof (cases "recv f r")
  case (Pair x r')
  then obtain d where "x = Inl d" using recv_opens assms by (cases x) auto
  with Pair recv_err that show ?thesis by blast
qed

lemma forgeries_inert:
  "(\<And>g. g \<in> set gs \<Longrightarrow> P g \<or> \<not> opens r g) \<Longrightarrow> run_oks recv gs r = run_oks recv (filter P gs) r"
proof (induction gs arbitrary: r)
  case (Cons g gs)
  show ?case
  proof (cases "P g")
    case True
    obtain x r' where run: "recv g r = (x, r')" by fastforce
    have "run_oks recv gs r' = run_oks recv (filter P gs) r'"
      using Cons.prems opens_stable [of g r] run by (intro Cons.IH) auto
    with True run show ?thesis by (cases x) simp_all
  next
    case False
    then obtain d where "recv g r = (Inl d, r)" using Cons.prems [of g] forged_refused by auto
    with False Cons show ?thesis by simp
  qed
qed simp

lemma genuine_frame:
  assumes "linked s r" and "send m s = (Inr f, s')"
  shows "recv f r = (Inr x, r') \<Longrightarrow> received r = sent s \<and> x = m"
    and "received r = sent s \<Longrightarrow> \<exists>r'. recv f r = (Inr m, r') \<and> received r' = Suc (sent s)"
proof -
  show "received r = sent s \<and> x = m" if "recv f r = (Inr x, r')"
  proof -
    have "received r = sent s" using recv_other [OF assms] that by fastforce
    with recv_next [OF assms] that show ?thesis by auto
  qed
  show "\<exists>r'. recv f r = (Inr m, r') \<and> received r' = Suc (sent s)" if eq: "received r = sent s"
  proof -
    obtain r' where "recv f r = (Inr m, r')" using recv_next [OF assms eq] by blast
    with recv_ok eq show ?thesis by fastforce
  qed
qed

text \<open>Frames of one run, by position.\<close>

lemma run_positions:
  assumes "linked s r" and "run_oks send ms s = (fs, s')" and "length fs = length ms"
  shows "i < length fs \<Longrightarrow>
    \<exists>t t'. linked t r \<and> sent t = sent s + i \<and> send (ms ! i) t = (Inr (fs ! i), t')"
    and "sent s' = sent s + length ms"
  using assms
proof (induction ms arbitrary: s fs i)
  case (Cons m ms)
  {
    case 1
    from "1"(3,4) obtain f t gs where f: "send m s = (Inr f, t)"
      and run: "run_oks send ms t = (gs, s')" and fs: "fs = f # gs"
      by (metis length_Cons run_oks_Cons_all)
    have t: "linked t r" using send_linked [OF "1"(2), of m] f by simp
    have len: "length gs = length ms" using "1"(4) fs by simp
    show ?case
    proof (cases i)
      case 0
      with f fs "1"(2) show ?thesis by fastforce
    next
      case (Suc j)
      then have "j < length gs" using "1"(1) fs by simp
      from Cons.IH(1) [OF this t run len] Suc fs send_ok [OF f]
      show ?thesis by (metis add_Suc_shift nth_Cons_Suc)
    qed
  next
    case 2
    from "2"(2,3) obtain f t gs where f: "send m s = (Inr f, t)"
      and run: "run_oks send ms t = (gs, s')" and fs: "fs = f # gs"
      by (metis length_Cons run_oks_Cons_all)
    have "linked t r" using send_linked [OF "2"(1), of m] f by simp
    moreover have "length gs = length ms" using "2"(3) fs by simp
    ultimately show ?case using Cons.IH(2) run send_ok [OF f] by fastforce
  }
qed simp_all

text \<open>
  The adversary schedules genuine frames at will and injects forgeries: the receiver accepts a
  prefix.
\<close>

lemma scheduled_genuine:
  assumes "linked s r" and run: "run_oks send ms s = (fs, s')" "length fs = length ms"
    and "received r = sent s + k" "k \<le> length ms" and "set gs \<subseteq> set fs"
  shows "\<exists>n. fst (run_oks recv gs r) = take n (drop k ms)"
  using assms(1,4-6)
proof (induction gs arbitrary: r k)
  case Nil
  then show ?case by (auto intro: exI [of _ 0])
next
  case (Cons g gs)
  then obtain i where i: "i < length fs" and g: "g = fs ! i"
    by (auto simp: in_set_conv_nth)
  obtain t t' where t: "linked t r" "sent t = sent s + i" "send (ms ! i) t = (Inr g, t')"
    using run_positions(1) [OF Cons.prems(1) run i] g by blast
  have rest: "set gs \<subseteq> set fs" using Cons.prems(4) by simp
  show ?case
  proof (cases "i = k")
    case True
    then have eq: "received r = sent t" using Cons.prems(2) t(2) by simp
    from genuine_frame(2) [OF t(1,3) eq]
    obtain r' where r': "recv g r = (Inr (ms ! k), r')" "received r' = sent s + Suc k"
      using True t(2) by auto
    have "linked s r'" using recv_linked [OF Cons.prems(1), of g] r'(1) by simp
    moreover have k: "k < length ms" using i run(2) True by simp
    ultimately obtain n where n: "fst (run_oks recv gs r') = take n (drop (Suc k) ms)"
      using Cons.IH [OF _ r'(2) _ rest] by (metis Suc_leI)
    have "fst (run_oks recv (g # gs) r) = take (Suc n) (drop k ms)"
      using r'(1) n k by (auto simp: Cons_nth_drop_Suc [symmetric] split: prod.splits)
    then show ?thesis by blast
  next
    case False
    then have "received r \<noteq> sent t" using Cons.prems(2) t(2) by simp
    then obtain d where "recv g r = (Inl d, r)" using recv_other [OF t(1,3)] by blast
    then show ?thesis using Cons.IH [OF Cons.prems(1-3) rest] by simp
  qed
qed

lemma scheduled_prefix:
  assumes "linked s r" and "run_oks send ms s = (fs, s')" "length fs = length ms"
    and "received r = sent s" and "\<And>g. g \<in> set gs \<Longrightarrow> g \<in> set fs \<or> \<not> opens r g"
  shows "\<exists>n. fst (run_oks recv gs r) = take n ms"
  using scheduled_genuine [OF assms(1-3), of 0 "filter (\<lambda>g. g \<in> set fs) gs"] assms(4)
  by (simp add: forgeries_inert [of gs "\<lambda>g. g \<in> set fs" r, OF assms(5)] subset_iff)

text \<open>In-order delivery: the whole run arrives.\<close>

lemma delivered_in_order:
  assumes "linked s r" and "run_oks send ms s = (fs, s')" and "length fs = length ms"
    and "received r = sent s"
  shows "fst (run_oks recv fs r) = ms"
  using assms
proof (induction ms arbitrary: s fs r)
  case (Cons m ms)
  from Cons.prems(2,3) obtain f t gs where f: "send m s = (Inr f, t)"
    and run: "run_oks send ms t = (gs, s')" and fs: "fs = f # gs"
    by (metis length_Cons run_oks_Cons_all)
  obtain r' where r': "recv f r = (Inr m, r')" "received r' = Suc (sent s)"
    using genuine_frame(2) [OF Cons.prems(1) f Cons.prems(4)] by blast
  have "linked t r" using send_linked [OF Cons.prems(1), of m] f by simp
  from recv_linked [OF this, of f] have "linked t r'" using r'(1) by simp
  then have "fst (run_oks recv gs r') = ms"
    using Cons.IH [OF _ run] Cons.prems(3) fs r'(2) send_ok [OF f] by simp
  then show ?case using r'(1) fs by (auto split: prod.splits)
qed simp

text \<open>A frame the receiver never takes blocks every later frame of the sender.\<close>

lemma skipped_frame_refused:
  assumes "linked s r" and "received r = sent s" and "send m s = (Inr f, s')"
    and "run_oks send ms s' = (fs, s'')" and "length fs = length ms" and "g \<in> set fs"
  shows "\<exists>d. recv g r = (Inl d, r)"
proof -
  have link: "linked s' r" using send_linked [OF assms(1), of m] assms(3) by simp
  obtain i where i: "i < length fs" and g: "g = fs ! i"
    using assms(6) by (metis in_set_conv_nth)
  obtain t t' where t: "linked t r" "sent t = sent s' + i" "send (ms ! i) t = (Inr g, t')"
    using run_positions(1) [OF link assms(4,5) i] g by blast
  have "received r \<noteq> sent t"
    using t(2) assms(2) send_ok [OF assms(3)] by linarith
  then show ?thesis using recv_other [OF t(1,3)] by blast
qed

text \<open>A frame of a run is accepted at its position only, and yields its message.\<close>

lemma run_frame_accepted:
  assumes "linked s r" and "run_oks send ms s = (fs, s')" and "length fs = length ms"
    and "f \<in> set fs" and "recv f r = (Inr m, r')" and "received r = sent s + k"
  shows "k < length ms \<and> m = ms ! k \<and> received r' = sent s + Suc k \<and> linked s r'"
proof -
  obtain i where i: "i < length fs" and f: "f = fs ! i" using assms(4) by (metis in_set_conv_nth)
  obtain t t' where t: "linked t r" "sent t = sent s + i" "send (ms ! i) t = (Inr f, t')"
    using run_positions(1) [OF assms(1-3) i] f by blast
  have "received r = sent t \<and> m = ms ! i" using genuine_frame(1) [OF t(1,3) assms(5)] .
  then show ?thesis
    using t(2) i assms(3,6) recv_ok [OF assms(5)] recv_linked [OF assms(1), of f] assms(5) by simp
qed

end

end
