(* ===== verification/Stream_Session.thy ===== *)
theory Stream_Session
  imports Channel Crypto_Keys
begin

text \<open>
  \<^verbatim>\<open>src/crypto/aead.rs\<close> and \<^verbatim>\<open>src/crypto/stream_session.rs\<close>: the AEAD wrappers, the X25519
  handshake, and the per-connection session with one counter nonce per direction.

  AES-GCM (aes-gcm), X25519 (x25519-dalek) and HKDF (hkdf, sha2) are parameters, bundled in
  the records \<open>aead_api\<close> and \<open>kex_api\<close>; \<open>aead_lawful\<close> and \<open>kex_lawful\<close> state what their
  documentation promises. A method that takes \<^verbatim>\<open>&mut self\<close> is an action on the session; an
  \<^verbatim>\<open>anyhow\<close> error is its fixed message.
\<close>

section \<open>Definitions\<close>

subsection \<open>AEAD\<close>

definition KEY_LEN :: nat where "KEY_LEN = 32"
definition NONCE_LEN :: nat where "NONCE_LEN = 12"
definition TAG_LEN :: nat where "TAG_LEN = 16"

record 'c aead_api =
  new_from_slice :: "bytes \<Rightarrow> 'c option"
  cipher_encrypt :: "'c \<Rightarrow> bytes \<Rightarrow> bytes \<Rightarrow> bytes \<Rightarrow> bytes option"
  cipher_decrypt :: "'c \<Rightarrow> bytes \<Rightarrow> bytes \<Rightarrow> bytes \<Rightarrow> bytes option"

text \<open>Arguments of the cipher: nonce, message or ciphertext, associated data.\<close>

definition encrypt_with_nonce ::
  "'c aead_api \<Rightarrow> bytes \<Rightarrow> bytes \<Rightarrow> bytes \<Rightarrow> bytes \<Rightarrow> string + bytes" where
  "encrypt_with_nonce G key plaintext aad nonce =
     (case new_from_slice G key of
        None \<Rightarrow> Inl ''bad key length''
      | Some cipher \<Rightarrow> ok_or ''encryption failed'' (cipher_encrypt G cipher nonce plaintext aad))"

text \<open>The nonce of \<^verbatim>\<open>encrypt\<close> comes from the operating system's generator: an argument.\<close>

definition aead_encrypt ::
  "'c aead_api \<Rightarrow> bytes \<Rightarrow> bytes \<Rightarrow> bytes \<Rightarrow> bytes \<Rightarrow> string + bytes \<times> bytes" where
  "aead_encrypt G os_rng_nonce key plaintext aad =
     bindR (encrypt_with_nonce G key plaintext aad os_rng_nonce) (\<lambda>ciphertext.
     Inr (ciphertext, os_rng_nonce))"

definition aead_decrypt ::
  "'c aead_api \<Rightarrow> bytes \<Rightarrow> bytes \<Rightarrow> bytes \<Rightarrow> bytes \<Rightarrow> string + bytes" where
  "aead_decrypt G key ciphertext aad nonce =
     (case new_from_slice G key of
        None \<Rightarrow> Inl ''bad key length''
      | Some cipher \<Rightarrow>
          ok_or ''decryption failed: ciphertext rejected'' (cipher_decrypt G cipher nonce ciphertext aad))"

text \<open>
  What the aes-gcm crate documents: a 32-byte key is accepted; decryption inverts encryption
  and the ciphertext is the message plus a 16-byte tag; decryption yields a message only for
  the ciphertext that encryption under the same key, nonce and associated data produces.
\<close>

definition aead_lawful :: "'c aead_api \<Rightarrow> bool" where
  "aead_lawful G \<longleftrightarrow>
     (\<forall>k. length k = KEY_LEN \<longrightarrow> new_from_slice G k \<noteq> None) \<and>
     (\<forall>c n m a x. cipher_encrypt G c n m a = Some x \<longrightarrow>
        cipher_decrypt G c n x a = Some m \<and> length x = length m + TAG_LEN) \<and>
     (\<forall>c n m a x. cipher_decrypt G c n x a = Some m \<longrightarrow> cipher_encrypt G c n m a = Some x)"

subsection \<open>Sessions\<close>

definition HKDF_INFO_CLIENT_TO_SERVER :: bytes where
  "HKDF_INFO_CLIENT_TO_SERVER = as_bytes ''encryptr chat-stream v1 c2s''"

definition HKDF_INFO_SERVER_TO_CLIENT :: bytes where
  "HKDF_INFO_SERVER_TO_CLIENT = as_bytes ''encryptr chat-stream v1 s2c''"

record stream_session =
  recv_key :: bytes
  send_key :: bytes
  recv_counter :: u64
  send_counter :: u64

definition counter_nonce :: "u64 \<Rightarrow> bytes" where
  "counter_nonce counter = replicate 4 0 @ to_be_bytes counter"

text \<open>The three steps shared by the two encrypting methods, and by the two decrypting ones.\<close>

definition encrypt_frame ::
  "'c aead_api \<Rightarrow> string \<Rightarrow> bytes \<Rightarrow> (stream_session, string, bytes \<times> bytes) action" where
  "encrypt_frame G aad plaintext s =
     (let nonce = counter_nonce (send_counter s) in
      case encrypt_with_nonce G (send_key s) plaintext (as_bytes aad) nonce of
        Inl e \<Rightarrow> (Inl e, s)
      | Inr ciphertext \<Rightarrow>
          (case checked_add_u64 (send_counter s) 1 of
             None \<Rightarrow> (Inl ''send counter exhausted'', s)
           | Some n \<Rightarrow> (Inr (ciphertext, nonce), s\<lparr>send_counter := n\<rparr>)))"

definition decrypt_frame ::
  "'c aead_api \<Rightarrow> string \<Rightarrow> string \<Rightarrow> bytes \<Rightarrow> bytes \<Rightarrow> (stream_session, string, bytes) action" where
  "decrypt_frame G aad refusal ciphertext nonce s =
     (let expected = counter_nonce (recv_counter s) in
      if nonce \<noteq> expected then (Inl refusal, s)
      else case aead_decrypt G (recv_key s) ciphertext (as_bytes aad) nonce of
        Inl e \<Rightarrow> (Inl e, s)
      | Inr plaintext \<Rightarrow>
          (case checked_add_u64 (recv_counter s) 1 of
             None \<Rightarrow> (Inl ''recv counter exhausted'', s)
           | Some n \<Rightarrow> (Inr plaintext, s\<lparr>recv_counter := n\<rparr>)))"

definition session_encrypt ::
  "'c aead_api \<Rightarrow> bytes \<Rightarrow> (stream_session, string, bytes \<times> bytes) action" where
  "session_encrypt G plaintext = encrypt_frame G ''s2c'' plaintext"

definition session_decrypt ::
  "'c aead_api \<Rightarrow> bytes \<Rightarrow> bytes \<Rightarrow> (stream_session, string, bytes) action" where
  "session_decrypt G ciphertext nonce =
     decrypt_frame G ''c2s'' ''unexpected nonce: replay or out-of-order frame rejected'' ciphertext nonce"

definition encrypt_client ::
  "'c aead_api \<Rightarrow> bytes \<Rightarrow> (stream_session, string, bytes \<times> bytes) action" where
  "encrypt_client G plaintext = encrypt_frame G ''c2s'' plaintext"

definition decrypt_client ::
  "'c aead_api \<Rightarrow> bytes \<Rightarrow> bytes \<Rightarrow> (stream_session, string, bytes) action" where
  "decrypt_client G ciphertext nonce =
     decrypt_frame G ''s2c'' ''unexpected nonce'' ciphertext nonce"

subsection \<open>Handshake\<close>

record 'sk kex_api =
  public_from :: "'sk \<Rightarrow> bytes"
  diffie_hellman :: "'sk \<Rightarrow> bytes \<Rightarrow> bytes"
  was_contributory :: "bytes \<Rightarrow> bool"
  hkdf_expand :: "bytes \<Rightarrow> bytes \<Rightarrow> bytes \<Rightarrow> bytes option"

text \<open>\<^verbatim>\<open>hkdf_expand salt ikm info\<close> fills a 32-byte buffer.\<close>

record 'sk handshake =
  secret :: 'sk
  public :: bytes

definition handshake_new :: "'sk kex_api \<Rightarrow> 'sk \<Rightarrow> 'sk handshake" where
  "handshake_new K os_rng_secret =
     \<lparr>secret = os_rng_secret, public = public_from K os_rng_secret\<rparr>"

definition public_key_bytes :: "'sk handshake \<Rightarrow> bytes" where
  "public_key_bytes h = public h"

definition complete :: "'sk kex_api \<Rightarrow> 'sk handshake \<Rightarrow> bytes \<Rightarrow> string + stream_session" where
  "complete K h client_public =
     bindR (validate_x25519_public_key client_public) (\<lambda>client_key_bytes.
     let shared = diffie_hellman K (secret h) client_key_bytes in
     if \<not> was_contributory K shared then Inl ''non-contributory key exchange'' else
     let salt = public h @ client_key_bytes in
     bindR (ok_or ''hkdf expand failed'' (hkdf_expand K salt shared HKDF_INFO_CLIENT_TO_SERVER)) (\<lambda>rk.
     bindR (ok_or ''hkdf expand failed'' (hkdf_expand K salt shared HKDF_INFO_SERVER_TO_CLIENT)) (\<lambda>sk.
     Inr \<lparr>recv_key = rk, send_key = sk, recv_counter = 0, send_counter = 0\<rparr>)))"

definition client_side ::
  "'sk kex_api \<Rightarrow> 'sk \<Rightarrow> bytes \<Rightarrow> bytes \<Rightarrow> string + stream_session" where
  "client_side K client_secret client_public server_public_bytes =
     bindR (validate_x25519_public_key server_public_bytes) (\<lambda>server_key_bytes.
     let shared = diffie_hellman K client_secret server_key_bytes in
     if \<not> was_contributory K shared then Inl ''non-contributory key exchange'' else
     let salt = server_key_bytes @ client_public in
     bindR (ok_or ''hkdf expand failed'' (hkdf_expand K salt shared HKDF_INFO_CLIENT_TO_SERVER)) (\<lambda>sk.
     bindR (ok_or ''hkdf expand failed'' (hkdf_expand K salt shared HKDF_INFO_SERVER_TO_CLIENT)) (\<lambda>rk.
     Inr \<lparr>recv_key = rk, send_key = sk, recv_counter = 0, send_counter = 0\<rparr>)))"

text \<open>Documented behaviour of the exchange: commutative agreement, and a 32-byte expansion.\<close>

definition kex_lawful :: "'sk kex_api \<Rightarrow> bool" where
  "kex_lawful K \<longleftrightarrow>
     (\<forall>a b. diffie_hellman K a (public_from K b) = diffie_hellman K b (public_from K a)) \<and>
     (\<forall>salt ikm info okm. hkdf_expand K salt ikm info = Some okm \<longrightarrow> length okm = 32)"

text \<open>Sender and receiver of one direction share a key.\<close>

definition key_linked :: "'c aead_api \<Rightarrow> stream_session \<Rightarrow> stream_session \<Rightarrow> bool" where
  "key_linked G s r \<longleftrightarrow> aead_lawful G \<and> send_key s = recv_key r \<and> length (recv_key r) = 32"

text \<open>
  Integrity of the cipher, as the handler relies on it: of the frames delivered in a direction
  only the sender's own open under the receiving key and that direction's label. Everything else
  an attacker injects, made up or altered in any bit, is a frame the cipher does not open.
\<close>

definition frame_opens :: "'c aead_api \<Rightarrow> string \<Rightarrow> bytes \<Rightarrow> bytes \<times> bytes \<Rightarrow> bool" where
  "frame_opens G aad key f = is_ok (aead_decrypt G key (fst f) (as_bytes aad) (snd f))"

definition unforgeable ::
  "'c aead_api \<Rightarrow> string \<Rightarrow> bytes \<Rightarrow> (bytes \<times> bytes) list \<Rightarrow> (bytes \<times> bytes) list \<Rightarrow> bool" where
  "unforgeable G aad key sent delivered \<longleftrightarrow>
     list_all (\<lambda>f. f \<in> set sent \<or> \<not> frame_opens G aad key f) delivered"

section \<open>Lemmas\<close>

lemma length_counter_nonce [simp]: "length (counter_nonce n) = 12"
  by (simp add: counter_nonce_def)

lemma counter_nonce_inject [simp]: "counter_nonce m = counter_nonce n \<longleftrightarrow> m = n"
  by (simp add: counter_nonce_def)

lemma encrypt_frame_ok:
  "encrypt_frame G aad m s = (Inr (x, n), s') \<longleftrightarrow>
     n = counter_nonce (send_counter s) \<and> unat (send_counter s) + 1 < 2 ^ 64 \<and>
     encrypt_with_nonce G (send_key s) m (as_bytes aad) n = Inr x \<and>
     s' = s\<lparr>send_counter := send_counter s + 1\<rparr>"
  by (auto simp: encrypt_frame_def Let_def checked_add_u64_def split: sum.splits if_splits)

lemma encrypt_frame_err: "encrypt_frame G aad m s = (Inl e, s') \<Longrightarrow> s' = s"
  by (auto simp: encrypt_frame_def Let_def split: sum.splits option.splits)

lemma decrypt_frame_ok:
  "decrypt_frame G aad d x n r = (Inr m, r') \<longleftrightarrow>
     n = counter_nonce (recv_counter r) \<and> unat (recv_counter r) + 1 < 2 ^ 64 \<and>
     aead_decrypt G (recv_key r) x (as_bytes aad) n = Inr m \<and>
     r' = r\<lparr>recv_counter := recv_counter r + 1\<rparr>"
  by (auto simp: decrypt_frame_def Let_def checked_add_u64_def split: sum.splits if_splits)

lemma decrypt_frame_err: "decrypt_frame G aad d x n r = (Inl e, r') \<Longrightarrow> r' = r"
  by (auto simp: decrypt_frame_def Let_def split: sum.splits option.splits if_splits)

lemma decrypt_frame_other:
  "n \<noteq> counter_nonce (recv_counter r) \<Longrightarrow> decrypt_frame G aad d x n r = (Inl d, r)"
  by (simp add: decrypt_frame_def Let_def)

lemma unat_Suc_u64: "unat (c :: u64) + 1 < 2 ^ 64 \<Longrightarrow> unat (c + 1) = Suc (unat c)"
  by (simp add: unat_word_ariths)

lemma aead_lawfulD:
  assumes "aead_lawful G"
  shows "length k = 32 \<Longrightarrow> \<exists>c. new_from_slice G k = Some c"
    and "cipher_encrypt G c n m a = Some x \<Longrightarrow> cipher_decrypt G c n x a = Some m"
    and "cipher_encrypt G c n m a = Some x \<Longrightarrow> length x = length m + 16"
    and "cipher_decrypt G c n x a = Some m \<Longrightarrow> cipher_encrypt G c n m a = Some x"
  using assms unfolding aead_lawful_def KEY_LEN_def TAG_LEN_def by blast+

lemma aead_roundtrip:
  assumes "aead_lawful G" and "encrypt_with_nonce G k m a n = Inr x"
  shows "aead_decrypt G k x a n = Inr m" and "length x = length m + 16"
proof -
  from assms(2) obtain c where c: "new_from_slice G k = Some c" "cipher_encrypt G c n m a = Some x"
    by (auto simp: encrypt_with_nonce_def split: option.splits)
  show "aead_decrypt G k x a n = Inr m"
    using aead_lawfulD(2) [OF assms(1) c(2)] c(1) by (simp add: aead_decrypt_def)
  show "length x = length m + 16" by (rule aead_lawfulD(3) [OF assms(1) c(2)])
qed

lemma aead_decrypt_unique:
  assumes "aead_lawful G" and "aead_decrypt G k x a n = Inr m"
  shows "encrypt_with_nonce G k m a n = Inr x"
proof -
  from assms(2) obtain c where c: "new_from_slice G k = Some c" "cipher_decrypt G c n x a = Some m"
    by (auto simp: aead_decrypt_def split: option.splits)
  then show ?thesis
    using aead_lawfulD(4) [OF assms(1) c(2)] by (simp add: encrypt_with_nonce_def)
qed

text \<open>One direction of a session, for a fixed label bound as associated data.\<close>

lemma frame_channel:
  "sequenced_channel (encrypt_frame G aad) (\<lambda>(x, n). decrypt_frame G aad d x n)
     (\<lambda>s. unat (send_counter s)) (\<lambda>r. unat (recv_counter r)) (key_linked G) (\<lambda>r. frame_opens G aad (recv_key r))"
proof (unfold_locales, goal_cases)
  case (1 m s f s') then show ?case by (cases f) (auto simp: encrypt_frame_ok unat_Suc_u64)
next
  case (2 m s e s') then show ?case by (rule encrypt_frame_err)
next
  case (3 s r m) then show ?case
    by (auto simp: key_linked_def encrypt_frame_def Let_def split: sum.split option.split)
next
  case (4 s r f) then show ?case
    by (auto simp: key_linked_def decrypt_frame_def Let_def split: prod.split sum.split option.split)
next
  case (5 f r m r') then show ?case by (cases f) (auto simp: decrypt_frame_ok unat_Suc_u64)
next
  case (6 f r e r') then show ?case by (cases f) (auto dest: decrypt_frame_err)
next
  case (7 s r m f s')
  then have "send_counter s = recv_counter r" by (simp add: word_unat_eq_iff)
  moreover obtain x n where f: "f = (x, n)" by (cases f)
  moreover from 7(2) have "encrypt_with_nonce G (send_key s) m (as_bytes aad) n = Inr x"
    and "n = counter_nonce (send_counter s)" and "unat (send_counter s) + 1 < 2 ^ 64"
    unfolding f encrypt_frame_ok by blast+
  moreover from 7(1) have "aead_lawful G" and "send_key s = recv_key r"
    by (simp_all add: key_linked_def)
  ultimately have "decrypt_frame G aad d x n r = (Inr m, r\<lparr>recv_counter := recv_counter r + 1\<rparr>)"
    using aead_roundtrip(1) [of G "recv_key r"] by (simp only: decrypt_frame_ok)
  then show ?case by (auto simp: f)
next
  case (8 s r m f s')
  then have "counter_nonce (send_counter s) \<noteq> counter_nonce (recv_counter r)" by auto
  with 8 show ?case
    by (cases f) (auto simp: encrypt_frame_ok decrypt_frame_other)
next
  case (9 f r m r') then show ?case by (cases f) (auto simp: decrypt_frame_ok frame_opens_def)
next
  case (10 f r g)
  have "recv_key (snd (decrypt_frame G aad d x n r)) = recv_key r" for x n
    by (auto simp: decrypt_frame_def Let_def split: sum.split option.split)
  then show ?case by (simp add: frame_opens_def split: prod.split)
qed

interpretation c2s: sequenced_channel "encrypt_client G" "\<lambda>(x, n). session_decrypt G x n"
  "\<lambda>s. unat (send_counter s)" "\<lambda>r. unat (recv_counter r)" "key_linked G" "\<lambda>r. frame_opens G ''c2s'' (recv_key r)" for G
  unfolding encrypt_client_def session_decrypt_def by (rule frame_channel)

interpretation s2c: sequenced_channel "session_encrypt G" "\<lambda>(x, n). decrypt_client G x n"
  "\<lambda>s. unat (send_counter s)" "\<lambda>r. unat (recv_counter r)" "key_linked G" "\<lambda>r. frame_opens G ''s2c'' (recv_key r)" for G
  unfolding session_encrypt_def decrypt_client_def by (rule frame_channel)

subsection \<open>Agreement of the handshake\<close>

lemma complete_ok:
  "complete K h pk = Inr srv \<longleftrightarrow>
     (\<exists>rk sk. validate_x25519_public_key pk = Inr pk \<and>
       was_contributory K (diffie_hellman K (secret h) pk) \<and>
       hkdf_expand K (public h @ pk) (diffie_hellman K (secret h) pk) HKDF_INFO_CLIENT_TO_SERVER = Some rk \<and>
       hkdf_expand K (public h @ pk) (diffie_hellman K (secret h) pk) HKDF_INFO_SERVER_TO_CLIENT = Some sk \<and>
       srv = \<lparr>recv_key = rk, send_key = sk, recv_counter = 0, send_counter = 0\<rparr>)"
  by (auto simp: complete_def bindR_eq_Inr Let_def validate_x25519_iff split: if_splits)

lemma client_side_ok:
  "client_side K sec cpk spk = Inr cli \<longleftrightarrow>
     (\<exists>rk sk. validate_x25519_public_key spk = Inr spk \<and>
       was_contributory K (diffie_hellman K sec spk) \<and>
       hkdf_expand K (spk @ cpk) (diffie_hellman K sec spk) HKDF_INFO_CLIENT_TO_SERVER = Some sk \<and>
       hkdf_expand K (spk @ cpk) (diffie_hellman K sec spk) HKDF_INFO_SERVER_TO_CLIENT = Some rk \<and>
       cli = \<lparr>recv_key = rk, send_key = sk, recv_counter = 0, send_counter = 0\<rparr>)"
  by (auto simp: client_side_def bindR_eq_Inr Let_def validate_x25519_iff split: if_splits)

lemma handshake_linked:
  assumes "kex_lawful K" and "aead_lawful G"
    and "complete K (handshake_new K a) (public_from K b) = Inr srv"
    and "client_side K b (public_from K b) (public_key_bytes (handshake_new K a)) = Inr cli"
  shows "key_linked G cli srv \<and> key_linked G srv cli \<and>
     send_counter cli = 0 \<and> recv_counter cli = 0 \<and> send_counter srv = 0 \<and> recv_counter srv = 0"
proof -
  have dh: "diffie_hellman K a (public_from K b) = diffie_hellman K b (public_from K a)"
    using assms(1) by (simp add: kex_lawful_def)
  have len: "length okm = 32" if "hkdf_expand K salt ikm info = Some okm" for salt ikm info okm
    using assms(1) that unfolding kex_lawful_def by blast
  show ?thesis
    using assms(2-4) dh len
    by (auto simp: complete_ok client_side_ok handshake_new_def public_key_bytes_def key_linked_def)
qed

subsection \<open>Nonces\<close>

lemma run_encrypt_nonces:
  assumes "run_oks (encrypt_frame G aad) ms s = (fs, s')"
  shows "map snd fs = map (\<lambda>i. counter_nonce (of_nat (unat (send_counter s) + i))) [0..<length fs] \<and>
     unat (send_counter s) + length fs < 2 ^ 64"
  using assms
proof (induction ms arbitrary: s fs)
  case Nil
  have "unat (send_counter s) < 2 ^ LENGTH(64)" by (rule unsigned_less)
  with Nil show ?case by simp
next
  case (Cons m ms)
  show ?case
  proof (cases "encrypt_frame G aad m s")
    case (Pair res t)
    show ?thesis
    proof (cases res)
      case (Inl e)
      with Pair encrypt_frame_err [of G aad m s e t] Cons show ?thesis by simp
    next
      case (Inr f)
      obtain x n where f: "f = (x, n)" by (cases f)
      with Inr Pair have n: "n = counter_nonce (send_counter s)"
        and t: "t = s\<lparr>send_counter := send_counter s + 1\<rparr>" and lt: "unat (send_counter s) + 1 < 2 ^ 64"
        by (simp_all add: encrypt_frame_ok)
      obtain gs where run: "run_oks (encrypt_frame G aad) ms t = (gs, s')" and fs: "fs = f # gs"
        using Cons.prems Pair Inr by (auto split: prod.splits)
      have u: "unat (send_counter t) = Suc (unat (send_counter s))"
        using unat_Suc_u64 [OF lt] by (simp add: t)
      have "map (\<lambda>i. counter_nonce (of_nat (unat (send_counter t) + i))) [0..<length gs]
          = map (\<lambda>i. counter_nonce (of_nat (unat (send_counter s) + i))) [1..<Suc (length gs)]"
        by (simp add: u map_Suc_upt [symmetric] del: upt_Suc)
      with Cons.IH [OF run] u show ?thesis
        by (simp add: fs f n upt_conv_Cons del: upt_Suc)
    qed
  qed
qed

lemma run_encrypt_distinct:
  assumes "run_oks (encrypt_frame G aad) ms s = (fs, s')"
  shows "distinct (map snd fs)"
proof -
  let ?c = "unat (send_counter s)"
  note run = run_encrypt_nonces [OF assms]
  have "inj_on (\<lambda>i. counter_nonce (of_nat (?c + i))) (set [0..<length fs])"
  proof (rule inj_onI)
    fix i j assume i: "i \<in> set [0..<length fs]" and j: "j \<in> set [0..<length fs]"
      and "counter_nonce (of_nat (?c + i)) = counter_nonce (of_nat (?c + j))"
    then have "(of_nat (?c + i) :: u64) = of_nat (?c + j)" by simp
    then have "unat (of_nat (?c + i) :: u64) = unat (of_nat (?c + j) :: u64)" by (rule arg_cong)
    moreover have "?c + i < 2 ^ 64" and "?c + j < 2 ^ 64"
      using run i j by (auto simp del: of_nat_add)
    ultimately show "i = j" by (simp add: unat_of_nat take_bit_nat_eq_self del: of_nat_add)
  qed
  then show ?thesis using run by (simp add: distinct_map)
qed

section \<open>Demonstration instances\<close>

text \<open>
  Concrete ciphers and groups that satisfy the laws, at which the properties are evaluated:
  an unkeyed cipher that appends a constant tag, and an additive key exchange.
\<close>

definition demo_aead :: "bytes aead_api" where
  "demo_aead = \<lparr>new_from_slice = Some,
     cipher_encrypt = (\<lambda>c n m a. Some (m @ replicate 16 7)),
     cipher_decrypt = (\<lambda>c n x a.
       if 16 \<le> length x \<and> drop (length x - 16) x = replicate 16 7
       then Some (take (length x - 16) x) else None)\<rparr>"

definition demo_kex :: "bytes kex_api" where
  "demo_kex = \<lparr>public_from = (\<lambda>sk. sk), diffie_hellman = (\<lambda>a b. map2 (+) a b),
     was_contributory = (\<lambda>_. True),
     hkdf_expand = (\<lambda>salt ikm info. Some (replicate 32 (last info)))\<rparr>"

definition demo_key :: "byte \<Rightarrow> bytes" where
  "demo_key b = b # replicate 31 0"

definition demo_client :: stream_session where
  "demo_client = \<lparr>recv_key = replicate 32 99, send_key = replicate 32 115, recv_counter = 0, send_counter = 0\<rparr>"

definition demo_server :: stream_session where
  "demo_server = \<lparr>recv_key = replicate 32 115, send_key = replicate 32 99, recv_counter = 0, send_counter = 0\<rparr>"

lemma demo_aead_lawful: "aead_lawful demo_aead"
proof -
  have "m @ replicate 16 7 = x"
    if "16 \<le> length x" "drop (length x - 16) x = replicate 16 7" "take (length x - 16) x = m"
    for m x :: bytes
    using that append_take_drop_id [of "length x - 16" x] by simp
  then show ?thesis
    by (auto simp: aead_lawful_def demo_aead_def TAG_LEN_def split: if_splits)
qed

lemma demo_kex_lawful: "kex_lawful demo_kex"
proof -
  have "map2 (+) a b = map2 (+) b a" for a b :: bytes
    by (rule nth_equalityI) (auto simp: add.commute)
  then show ?thesis by (simp add: kex_lawful_def demo_kex_def)
qed

lemma demo_infos:
  "last HKDF_INFO_CLIENT_TO_SERVER = 115" "last HKDF_INFO_SERVER_TO_CLIENT = 99"
  by (simp_all add: HKDF_INFO_CLIENT_TO_SERVER_def HKDF_INFO_SERVER_TO_CLIENT_def as_bytes_def ord_def)

lemma demo_keys_valid: "validate_x25519_public_key (demo_key 9) = Inr (demo_key 9)"
  "validate_x25519_public_key (demo_key 20) = Inr (demo_key 20)"
  unfolding validate_x25519_iff
  by (simp_all add: demo_key_def replicate_bytes u_coordinate_small blocked_u_def)

lemma demo_handshake:
  "complete demo_kex (handshake_new demo_kex (demo_key 9)) (public_from demo_kex (demo_key 20))
     = Inr demo_server"
  "client_side demo_kex (demo_key 20) (public_from demo_kex (demo_key 20))
     (public_key_bytes (handshake_new demo_kex (demo_key 9))) = Inr demo_client"
  by (simp_all add: complete_ok client_side_ok handshake_new_def public_key_bytes_def demo_keys_valid
      demo_client_def demo_server_def demo_infos del: bindR_simps)
    (simp_all add: demo_kex_def demo_infos demo_keys_valid)

lemma demo_run_client:
  "run_oks (encrypt_client demo_aead) [[1], [2]] demo_client =
     ([([1] @ replicate 16 7, counter_nonce 0), ([2] @ replicate 16 7, counter_nonce 1)],
      demo_client\<lparr>send_counter := 2\<rparr>)"
  by (simp add: encrypt_client_def encrypt_frame_def encrypt_with_nonce_def demo_aead_def
      demo_client_def checked_add_u64_def Let_def)

lemma demo_run_server:
  "run_oks (session_encrypt demo_aead) [[1], [2]] demo_server =
     ([([1] @ replicate 16 7, counter_nonce 0), ([2] @ replicate 16 7, counter_nonce 1)],
      demo_server\<lparr>send_counter := 2\<rparr>)"
  by (simp add: session_encrypt_def encrypt_frame_def encrypt_with_nonce_def demo_aead_def
      demo_server_def checked_add_u64_def Let_def)

section \<open>Properties\<close>

text \<open>
  C1. Client to server: after a handshake, whatever is delivered to the server, genuine frames of
  the client replayed, reordered and dropped at will, and frames an attacker made up or tampered
  with (which do not open under the session's key), the server accepts a prefix of the client's
  messages, in order and without repetition; the forgeries leave results and session exactly as if
  they had not been delivered, so that genuine frames that arrive in order between them are all
  accepted.
\<close>

theorem prompts_replay_safe:
  assumes "kex_lawful K" and "aead_lawful G"
    and "complete K (handshake_new K a) (public_from K b) = Inr srv"
    and "client_side K b (public_from K b) (public_key_bytes (handshake_new K a)) = Inr cli"
    and "run_oks (encrypt_client G) ms cli = (fs, cli')" and "length fs = length ms"
    and "unforgeable G ''c2s'' (recv_key srv) fs gs"
  shows "(\<exists>n. fst (run_oks (\<lambda>(x, n). session_decrypt G x n) gs srv) = take n ms) \<and>
    run_oks (\<lambda>(x, n). session_decrypt G x n) gs srv =
      run_oks (\<lambda>(x, n). session_decrypt G x n) (filter (\<lambda>g. g \<in> set fs) gs) srv \<and>
    fst (run_oks (\<lambda>(x, n). session_decrypt G x n) fs srv) = ms"
proof -
  have genuine: "g \<in> set fs \<or> \<not> frame_opens G ''c2s'' (recv_key srv) g" if "g \<in> set gs" for g
    using assms(7) that by (auto simp: unforgeable_def list_all_iff)
  note linked = handshake_linked [OF assms(1-4)]
  have prefix: "\<exists>n. fst (run_oks (\<lambda>(x, n). session_decrypt G x n) gs srv) = take n ms"
    by (rule c2s.scheduled_prefix [OF _ assms(5,6) _ genuine]) (use linked in simp_all)
  show ?thesis
    using linked prefix c2s.forgeries_inert [of gs "\<lambda>g. g \<in> set fs" G srv, OF genuine]
      c2s.delivered_in_order [OF _ assms(5,6)]
    by simp
qed

text \<open>The frames arrive in the wrong order, once with a tampered tag and with a made-up frame in between.\<close>

theorem prompts_replay_safe_witness:
  "(\<exists>n. fst (run_oks (\<lambda>(x, n). session_decrypt demo_aead x n)
      [([2] @ replicate 16 7, counter_nonce 1), ([1] @ replicate 16 8, counter_nonce 0),
       ([1] @ replicate 16 7, counter_nonce 0), ([9, 9], counter_nonce 1),
       ([1] @ replicate 16 7, counter_nonce 0)] demo_server) = take n [[1], [2]]) \<and>
    fst (run_oks (\<lambda>(x, n). session_decrypt demo_aead x n)
      [([1] @ replicate 16 7, counter_nonce 0), ([2] @ replicate 16 7, counter_nonce 1)] demo_server)
      = [[1], [2]]"
proof -
  have "unforgeable demo_aead ''c2s'' (recv_key demo_server)
      [([1] @ replicate 16 7, counter_nonce 0), ([2] @ replicate 16 7, counter_nonce 1)]
      [([2] @ replicate 16 7, counter_nonce 1), ([1] @ replicate 16 8, counter_nonce 0),
       ([1] @ replicate 16 7, counter_nonce 0), ([9, 9], counter_nonce 1),
       ([1] @ replicate 16 7, counter_nonce 0)]" by code_simp
  from prompts_replay_safe [OF demo_kex_lawful demo_aead_lawful demo_handshake demo_run_client _ this]
  show ?thesis unfolding list.size by blast
qed

text \<open>
  Server to client: the same for the streamed response chunks.
\<close>

lemma chunks_replay_safe:
  assumes "kex_lawful K" and "aead_lawful G"
    and "complete K (handshake_new K a) (public_from K b) = Inr srv"
    and "client_side K b (public_from K b) (public_key_bytes (handshake_new K a)) = Inr cli"
    and "run_oks (session_encrypt G) ms srv = (fs, srv')" and "length fs = length ms"
    and "unforgeable G ''s2c'' (recv_key cli) fs gs"
  shows "(\<exists>n. fst (run_oks (\<lambda>(x, n). decrypt_client G x n) gs cli) = take n ms) \<and>
    run_oks (\<lambda>(x, n). decrypt_client G x n) gs cli =
      run_oks (\<lambda>(x, n). decrypt_client G x n) (filter (\<lambda>g. g \<in> set fs) gs) cli \<and>
    fst (run_oks (\<lambda>(x, n). decrypt_client G x n) fs cli) = ms"
proof -
  have genuine: "g \<in> set fs \<or> \<not> frame_opens G ''s2c'' (recv_key cli) g" if "g \<in> set gs" for g
    using assms(7) that by (auto simp: unforgeable_def list_all_iff)
  note linked = handshake_linked [OF assms(1-4)]
  have prefix: "\<exists>n. fst (run_oks (\<lambda>(x, n). decrypt_client G x n) gs cli) = take n ms"
    by (rule s2c.scheduled_prefix [OF _ assms(5,6) _ genuine]) (use linked in simp_all)
  show ?thesis
    using linked prefix s2c.forgeries_inert [of gs "\<lambda>g. g \<in> set fs" G cli, OF genuine]
      s2c.delivered_in_order [OF _ assms(5,6)]
    by simp
qed

text \<open>
  C18. Handshake agreement: when server and client complete the exchange with each other's
  public keys, the client's sending key is the server's receiving key and conversely, the keys
  have 32 bytes and all four counters start at zero; and where both public keys pass
  validation the two sides succeed or fail together.
\<close>

theorem handshake_agreement:
  assumes "kex_lawful K"
    and "validate_x25519_public_key (public_from K a) = Inr (public_from K a)"
    and "validate_x25519_public_key (public_from K b) = Inr (public_from K b)"
  shows "is_ok (complete K (handshake_new K a) (public_from K b)) =
      is_ok (client_side K b (public_from K b) (public_key_bytes (handshake_new K a))) \<and>
    (\<forall>srv cli. complete K (handshake_new K a) (public_from K b) = Inr srv \<longrightarrow>
      client_side K b (public_from K b) (public_key_bytes (handshake_new K a)) = Inr cli \<longrightarrow>
      send_key cli = recv_key srv \<and> send_key srv = recv_key cli \<and>
      length (recv_key srv) = 32 \<and> length (recv_key cli) = 32 \<and>
      send_counter cli = 0 \<and> recv_counter cli = 0 \<and> send_counter srv = 0 \<and> recv_counter srv = 0)"
proof (intro conjI allI impI)
  have "diffie_hellman K a (public_from K b) = diffie_hellman K b (public_from K a)"
    using assms(1) by (simp add: kex_lawful_def)
  then show "is_ok (complete K (handshake_new K a) (public_from K b)) =
      is_ok (client_side K b (public_from K b) (public_key_bytes (handshake_new K a)))"
    using assms(2,3)
    by (auto simp: complete_def client_side_def handshake_new_def public_key_bytes_def Let_def
        ok_or_def split: option.split)
qed (use handshake_linked [OF assms(1) demo_aead_lawful] in \<open>auto simp: key_linked_def\<close>)

theorem handshake_agreement_witness:
  "send_key demo_client = recv_key demo_server \<and> send_key demo_server = recv_key demo_client"
  using handshake_agreement [OF demo_kex_lawful, of "demo_key 9" "demo_key 20"]
    demo_handshake demo_keys_valid
  by (simp add: demo_kex_def)

text \<open>
  C19. No nonce is used twice under a key: the frames one session object returns carry
  pairwise distinct nonces, in either role and whatever calls fail in between, and at most
  \<open>2 ^ 64 - 1\<close> frames are ever returned (the counter is checked, it never wraps).
\<close>

theorem nonces_never_repeat:
  "distinct (map snd (fst (run_oks (session_encrypt G) ms s))) \<and>
   unat (send_counter s) + length (fst (run_oks (session_encrypt G) ms s)) < 2 ^ 64 \<and>
   distinct (map snd (fst (run_oks (encrypt_client G) ms s))) \<and>
   unat (send_counter s) + length (fst (run_oks (encrypt_client G) ms s)) < 2 ^ 64"
proof -
  have "distinct (map snd (fst (run_oks (encrypt_frame G aad) ms s))) \<and>
      unat (send_counter s) + length (fst (run_oks (encrypt_frame G aad) ms s)) < 2 ^ 64" for aad
    using run_encrypt_distinct [of G aad ms s] run_encrypt_nonces [of G aad ms s]
    by (cases "run_oks (encrypt_frame G aad) ms s") simp
  then show ?thesis by (simp add: session_encrypt_def [abs_def] encrypt_client_def [abs_def])
qed

text \<open>
  A prompt frame the server accepts is genuine and is accepted once: its nonce is the
  expected counter, its ciphertext is bit for bit what encryption under the receiving key,
  that nonce and the client-to-server label yields for the returned plaintext, the counter
  moves on by one without wrapping, and any frame with the same nonce is refused from then on.
\<close>

lemma accepted_prompt_genuine:
  assumes "aead_lawful G" and "session_decrypt G x n s = (Inr m, s')"
  shows "n = counter_nonce (recv_counter s) \<and>
    encrypt_with_nonce G (recv_key s) m (as_bytes ''c2s'') n = Inr x \<and>
    length x = length m + 16 \<and>
    s' = s\<lparr>recv_counter := recv_counter s + 1\<rparr> \<and> unat (recv_counter s') = Suc (unat (recv_counter s)) \<and>
    (\<forall>y. session_decrypt G y n s' =
      (Inl ''unexpected nonce: replay or out-of-order frame rejected'', s'))"
proof -
  from assms(2) have n: "n = counter_nonce (recv_counter s)" and lt: "unat (recv_counter s) + 1 < 2 ^ 64"
    and dec: "aead_decrypt G (recv_key s) x (as_bytes ''c2s'') n = Inr m"
    and s': "s' = s\<lparr>recv_counter := recv_counter s + 1\<rparr>"
    unfolding session_decrypt_def decrypt_frame_ok by blast+
  have enc: "encrypt_with_nonce G (recv_key s) m (as_bytes ''c2s'') n = Inr x"
    by (rule aead_decrypt_unique [OF assms(1) dec])
  have "n \<noteq> counter_nonce (recv_counter s')" by (simp add: n s')
  then show ?thesis
    using n s' enc aead_roundtrip(2) [OF assms(1) enc] unat_Suc_u64 [OF lt]
    by (simp add: session_decrypt_def decrypt_frame_other)
qed

lemma accepted_prompt_genuine_witness:
  "session_decrypt demo_aead ([1] @ replicate 16 7) (counter_nonce 0) demo_server
     = (Inr [1], demo_server\<lparr>recv_counter := 1\<rparr>) \<and>
   (\<forall>y. session_decrypt demo_aead y (counter_nonce 0) (demo_server\<lparr>recv_counter := 1\<rparr>) =
      (Inl ''unexpected nonce: replay or out-of-order frame rejected'', demo_server\<lparr>recv_counter := 1\<rparr>))"
proof -
  have run: "session_decrypt demo_aead ([1] @ replicate 16 7) (counter_nonce 0) demo_server
      = (Inr [1], demo_server\<lparr>recv_counter := 1\<rparr>)"
    by (simp add: session_decrypt_def decrypt_frame_ok aead_decrypt_def demo_aead_def demo_server_def)
  with accepted_prompt_genuine [OF demo_aead_lawful run] show ?thesis by blast
qed

end
