(* ===== verification/Data_Services.thy ===== *)
theory Data_Services
  imports Auth_Service Crypto_Keys Stream_Session
begin

text \<open>
  \<^verbatim>\<open>src/services/{conversations,messages,keys}.rs\<close> with their requests and responses from
  \<^verbatim>\<open>src/domain/dto.rs\<close>. The base64 engine and the Ed25519 point decoder are the record
  \<open>data_lib\<close>.
\<close>

section \<open>Definitions\<close>

record 'pt data_lib =
  b64_encode :: "bytes \<Rightarrow> string"
  b64_decode :: "string \<Rightarrow> bytes option"
  ed_from_bytes :: "bytes \<Rightarrow> 'pt option"
  ed_is_weak :: "'pt \<Rightarrow> bool"

definition b64_lawful :: "'pt data_lib \<Rightarrow> bool" where
  "b64_lawful lib \<longleftrightarrow> (\<forall>bs. b64_decode lib (b64_encode lib bs) = Some bs)"

subsection \<open>Conversations\<close>

record conversation_request =
  cq_title :: "string option"
  cq_model :: "string option"

definition conversations_create :: "uuid \<Rightarrow> conversation_request \<Rightarrow> conversation service" where
  "conversations_create user_id request =
     bindE (liftE (case cq_title request of
         Some raw \<Rightarrow> validate_title raw | None \<Rightarrow> Inr ''New conversation'')) (\<lambda>title.
     bindE (liftE (transposeR validate_model (cq_model request))) (\<lambda>model.
     bindE (db (conversations_insert user_id title model)) (\<lambda>c.
     bindE (audit_record (Some user_id) ''conversation.created'' [(''conversation_id'', M_uuid (c_id c))] None) (\<lambda>_.
     okE c))))"

definition conversations_list :: "uuid \<Rightarrow> conversation list service" where
  "conversations_list user_id = db (conversations_list_for_user user_id)"

definition conversations_change :: "uuid \<Rightarrow> uuid \<Rightarrow> conversation_request \<Rightarrow> conversation service" where
  "conversations_change user_id i request =
     bindE (liftE (transposeR validate_title (cq_title request))) (\<lambda>title.
     bindE (liftE (transposeR validate_model (cq_model request))) (\<lambda>model.
     bindE (db (update_conversation i user_id title model)) (\<lambda>found.
     liftE (ok_or NotFound found))))"

definition conversations_delete :: "uuid \<Rightarrow> uuid \<Rightarrow> unit service" where
  "conversations_delete user_id i =
     bindE (db (soft_delete i user_id)) (\<lambda>deleted.
     if \<not> deleted then failE NotFound
     else audit_record (Some user_id) ''conversation.deleted'' [(''conversation_id'', M_uuid i)] None)"

definition assert_owned :: "uuid \<Rightarrow> uuid \<Rightarrow> conversation service" where
  "assert_owned user_id i =
     bindE (db (find_owned i user_id)) (\<lambda>found. liftE (ok_or NotFound found))"

subsection \<open>Messages\<close>

definition DEFAULT_PAGE_SIZE :: int where "DEFAULT_PAGE_SIZE = 50"
definition MAX_PAGE_SIZE :: int where "MAX_PAGE_SIZE = 200"

record create_message_request =
  mq_conversation_id :: uuid
  mq_role :: string
  mq_ciphertext :: string
  mq_nonce :: string
  mq_algorithm :: "string option"
  mq_key_id :: "uuid option"

text \<open>The checks of \<^verbatim>\<open>create\<close> that need no database, in their order; then the checks and writes that do.\<close>

definition checked_message ::
  "'pt data_lib \<Rightarrow> create_message_request \<Rightarrow> app_error + string \<times> bytes \<times> bytes \<times> string" where
  "checked_message lib request =
     bindR (message_role (mq_role request)) (\<lambda>role.
     bindR (base64_field (b64_decode lib) (mq_ciphertext request) ''ciphertext'' MAX_CIPHERTEXT_BYTES) (\<lambda>ciphertext.
     bindR (base64_field (b64_decode lib) (mq_nonce request) ''nonce'' NONCE_LEN) (\<lambda>nonce.
     if length nonce \<noteq> NONCE_LEN
     then Inl (Validation (''nonce must be exactly '' @ show_nat NONCE_LEN @ '' bytes''))
     else
     bindR (case mq_algorithm request of
         Some raw \<Rightarrow> validate_algorithm raw | None \<Rightarrow> Inr ''AES-256-GCM'') (\<lambda>algorithm.
     Inr (role, ciphertext, nonce, algorithm)))))"

definition check_key_id :: "uuid \<Rightarrow> uuid option \<Rightarrow> unit service" where
  "check_key_id user_id key_id = (case key_id of
       None \<Rightarrow> okE ()
     | Some k \<Rightarrow>
         bindE (db (belongs_to_user k user_id)) (\<lambda>own.
         if \<not> own then failE (Validation ''key_id does not reference one of your keys'') else okE ()))"

definition messages_create :: "'pt data_lib \<Rightarrow> uuid \<Rightarrow> create_message_request \<Rightarrow> encrypted_message service" where
  "messages_create lib user_id request =
     bindE (assert_owned user_id (mq_conversation_id request)) (\<lambda>_.
     bindE (liftE (checked_message lib request)) (\<lambda>(role, ciphertext, nonce, algorithm).
     bindE (check_key_id user_id (mq_key_id request)) (\<lambda>_.
     bindE (db (messages_insert (mq_conversation_id request) user_id role ciphertext nonce algorithm
         (mq_key_id request))) (\<lambda>message.
     bindE (db (touch (mq_conversation_id request))) (\<lambda>_.
     okE message)))))"

record list_messages_query =
  lq_conversation_id :: uuid
  lq_limit :: "int option"
  lq_before :: "timestamp option"

definition page_size :: "int option \<Rightarrow> nat" where
  "page_size limit = nat (max 1 (min MAX_PAGE_SIZE (case limit of None \<Rightarrow> DEFAULT_PAGE_SIZE | Some l \<Rightarrow> l)))"

definition messages_list :: "uuid \<Rightarrow> list_messages_query \<Rightarrow> encrypted_message list service" where
  "messages_list user_id query =
     bindE (assert_owned user_id (lq_conversation_id query)) (\<lambda>_.
     db (list_for_conversation (lq_conversation_id query) user_id (page_size (lq_limit query)) (lq_before query)))"

definition messages_delete :: "uuid \<Rightarrow> uuid \<Rightarrow> unit service" where
  "messages_delete user_id i =
     bindE (db (delete_owned i user_id)) (\<lambda>deleted. if \<not> deleted then failE NotFound else okE ())"

subsection \<open>Keys\<close>

record create_key_request =
  kq_ed25519 :: string
  kq_x25519 :: string
  kq_label :: "string option"

definition key_insert_error :: "string \<Rightarrow> sqlx_error \<Rightarrow> app_error" where
  "key_insert_error label e = (case e of
       Unique_violation \<Rightarrow>
         Conflict (''a key with label '' @ [CHR 0x27] @ label @ [CHR 0x27] @ '' already exists'')
     | _ \<Rightarrow> Database e)"

definition keys_upload :: "'pt data_lib \<Rightarrow> uuid \<Rightarrow> create_key_request \<Rightarrow> public_key_record service" where
  "keys_upload lib user_id request =
     bindE (liftE (base64_field (b64_decode lib) (kq_ed25519 request) ''ed25519_public_key'' PUBLIC_KEY_LEN)) (\<lambda>ed_bytes.
     bindE (liftE (base64_field (b64_decode lib) (kq_x25519 request) ''x25519_public_key'' PUBLIC_KEY_LEN)) (\<lambda>x_bytes.
     bindE (liftE (map_err Validation (validate_ed25519_public_key (ed_from_bytes lib) (ed_is_weak lib) ed_bytes))) (\<lambda>ed.
     bindE (liftE (map_err Validation (validate_x25519_public_key x_bytes))) (\<lambda>x.
     bindE (liftE (case kq_label request of Some raw \<Rightarrow> validate_label raw | None \<Rightarrow> Inr ''default'')) (\<lambda>label.
     bindE (map_errE (key_insert_error label) (keys_insert user_id ed x label)) (\<lambda>k.
     bindE (audit_record (Some user_id) ''key.uploaded''
       [(''key_id'', M_uuid (pk_id k)), (''label'', M_text (pk_label k))] None) (\<lambda>_.
     okE k)))))))"

definition keys_list :: "uuid \<Rightarrow> public_key_record list service" where
  "keys_list user_id = db (keys_list_for_user user_id)"

subsection \<open>Responses\<close>

record conversation_response =
  co_id :: uuid
  co_title :: string
  co_model :: "string option"
  co_created_at :: timestamp
  co_updated_at :: timestamp

definition conversation_response_of :: "conversation \<Rightarrow> conversation_response" where
  "conversation_response_of c = \<lparr>co_id = c_id c, co_title = c_title c, co_model = c_model c,
     co_created_at = c_created_at c, co_updated_at = c_updated_at c\<rparr>"

record message_response =
  mo_id :: uuid
  mo_conversation_id :: uuid
  mo_role :: string
  mo_ciphertext :: string
  mo_nonce :: string
  mo_algorithm :: string
  mo_key_id :: "uuid option"
  mo_created_at :: timestamp

definition message_response_of :: "'pt data_lib \<Rightarrow> encrypted_message \<Rightarrow> message_response" where
  "message_response_of lib m = \<lparr>mo_id = m_id m, mo_conversation_id = m_conversation_id m,
     mo_role = m_role m, mo_ciphertext = b64_encode lib (m_ciphertext m),
     mo_nonce = b64_encode lib (m_nonce m), mo_algorithm = m_algorithm m, mo_key_id = m_key_id m,
     mo_created_at = m_created_at m\<rparr>"

record key_response =
  ko_id :: uuid
  ko_ed25519 :: string
  ko_x25519 :: string
  ko_label :: string
  ko_created_at :: timestamp

definition key_response_of :: "'pt data_lib \<Rightarrow> public_key_record \<Rightarrow> key_response" where
  "key_response_of lib k = \<lparr>ko_id = pk_id k, ko_ed25519 = b64_encode lib (pk_ed25519 k),
     ko_x25519 = b64_encode lib (pk_x25519 k), ko_label = pk_label k, ko_created_at = pk_created_at k\<rparr>"

subsection \<open>Reading a conversation page by page\<close>

text \<open>
  What a client does that follows the pagination of \<^verbatim>\<open>GET /messages\<close>: ask for a page, then for the
  messages before the last one of it, until a page is not full. The fuel bounds the requests.
\<close>

fun all_pages :: "nat \<Rightarrow> uuid \<Rightarrow> uuid \<Rightarrow> int option \<Rightarrow> timestamp option \<Rightarrow> store \<Rightarrow> encrypted_message list option" where
  "all_pages 0 u i limit before s = None"
| "all_pages (Suc fuel) u i limit before s =
     (case messages_list u \<lparr>lq_conversation_id = i, lq_limit = limit, lq_before = before\<rparr> s of
        (Inl e, t) \<Rightarrow> None
      | (Inr page, t) \<Rightarrow>
          if length page < page_size limit then Some page
          else map_option (\<lambda>rest. page @ rest)
            (all_pages fuel u i limit (Some (m_created_at (last page))) t))"

text \<open>The same on a table.\<close>

fun table_pages :: "nat \<Rightarrow> uuid \<Rightarrow> uuid \<Rightarrow> nat \<Rightarrow> timestamp option \<Rightarrow> encrypted_message list \<Rightarrow>
    encrypted_message list option" where
  "table_pages 0 i u n before table = None"
| "table_pages (Suc fuel) i u n before table =
     (let page = take n (sort_key (\<lambda>m. - m_created_at m) (filter (page_filter i u before) table))
      in if length page < n then Some page
         else map_option (\<lambda>rest. page @ rest)
           (table_pages fuel i u n (Some (m_created_at (last page))) table))"

subsection \<open>Requests of a signed-in user\<close>

datatype data_request =
    Create_conversation conversation_request
  | List_conversations
  | Change_conversation uuid conversation_request
  | Delete_conversation uuid
  | Create_message create_message_request
  | List_messages list_messages_query
  | Delete_message uuid
  | Upload_key create_key_request
  | List_keys

fun data_step :: "'pt data_lib \<Rightarrow> uuid \<Rightarrow> data_request \<Rightarrow> store \<Rightarrow> store" where
  "data_step lib u (Create_conversation r) s = snd (conversations_create u r s)"
| "data_step lib u List_conversations s = snd (conversations_list u s)"
| "data_step lib u (Change_conversation i r) s = snd (conversations_change u i r s)"
| "data_step lib u (Delete_conversation i) s = snd (conversations_delete u i s)"
| "data_step lib u (Create_message r) s = snd (messages_create lib u r s)"
| "data_step lib u (List_messages q) s = snd (messages_list u q s)"
| "data_step lib u (Delete_message i) s = snd (messages_delete u i s)"
| "data_step lib u (Upload_key r) s = snd (keys_upload lib u r s)"
| "data_step lib u List_keys s = snd (keys_list u s)"

definition demo_lib :: "unit data_lib" where
  "demo_lib = \<lparr>b64_encode = map chr, b64_decode = Some \<circ> as_bytes,
     ed_from_bytes = \<lambda>bs. Some (), ed_is_weak = \<lambda>_. False\<rparr>"

definition demo_message_request :: create_message_request where
  "demo_message_request = \<lparr>mq_conversation_id = 3, mq_role = ''user'', mq_ciphertext = ''abc'',
     mq_nonce = ''012345678901'', mq_algorithm = None, mq_key_id = None\<rparr>"

definition demo_message_store :: store where
  "demo_message_store = demo_store\<lparr>conversations := [\<lparr>c_id = 3, c_user_id = 0, c_title = ''t'', c_model = None,
     c_created_at = 0, c_updated_at = 0, c_deleted_at = None\<rparr>], next_id := 4\<rparr>"

section \<open>Lemmas\<close>

subsection \<open>History, well-formedness, frames\<close>

lemma stays_map_err: "stays R m \<Longrightarrow> stays R (map_errE g m)"
  by (simp add: stays_def)

lemma history_data:
  "stays history (conversations_create u cr)" "stays history (conversations_list u)"
  "stays history (conversations_change u i cr)" "stays history (conversations_delete u i)"
  "stays history (assert_owned u i)" "stays history (messages_create lib u mr)"
  "stays history (messages_list u q)" "stays history (messages_delete u i)"
  "stays history (keys_upload lib u kr)" "stays history (keys_list u)"
  unfolding conversations_create_def conversations_list_def conversations_change_def conversations_delete_def
    assert_owned_def messages_create_def check_key_id_def messages_list_def messages_delete_def
    keys_upload_def keys_list_def case_prod_beta
  by (intro hist_service.service_intros hist.stays_reads history_inserts history_updates)+

lemma wf_data:
  "stays (\<lambda>s t. db_ok s \<longrightarrow> db_ok t) (conversations_create u cr)"
  "stays (\<lambda>s t. db_ok s \<longrightarrow> db_ok t) (conversations_list u)"
  "stays (\<lambda>s t. db_ok s \<longrightarrow> db_ok t) (conversations_change u i cr)"
  "stays (\<lambda>s t. db_ok s \<longrightarrow> db_ok t) (conversations_delete u i)"
  "stays (\<lambda>s t. db_ok s \<longrightarrow> db_ok t) (assert_owned u i)"
  "stays (\<lambda>s t. db_ok s \<longrightarrow> db_ok t) (messages_list u q)"
  "stays (\<lambda>s t. db_ok s \<longrightarrow> db_ok t) (messages_delete u i)"
  "stays (\<lambda>s t. db_ok s \<longrightarrow> db_ok t) (keys_upload lib u kr)"
  "stays (\<lambda>s t. db_ok s \<longrightarrow> db_ok t) (keys_list u)"
  unfolding conversations_create_def conversations_list_def conversations_change_def conversations_delete_def
    assert_owned_def messages_list_def messages_delete_def keys_upload_def keys_list_def
  by (intro wf_service.service_intros wf.stays_reads wf_inserts wf_updates wf_delete_owned)+

interpretation frame_service: service_order "foreign u" for u
  by unfold_locales (auto simp: foreign_def intro: foreign_statements)

lemma foreign_data:
  "stays (foreign u) (conversations_create u cr)" "stays (foreign u) (conversations_list u)"
  "stays (foreign u) (conversations_change u i cr)" "stays (foreign u) (conversations_delete u i)"
  "stays (foreign u) (assert_owned u i)" "stays (foreign u) (messages_list u q)"
  "stays (foreign u) (messages_delete u i)" "stays (foreign u) (keys_upload lib u kr)"
  "stays (foreign u) (keys_list u)"
  unfolding conversations_create_def conversations_list_def conversations_change_def conversations_delete_def
    assert_owned_def messages_list_def messages_delete_def keys_upload_def keys_list_def
  by (intro frame_service.service_intros frame.stays_reads foreign_statements)+

subsection \<open>Storing a message\<close>

lemma bindE_final:
  assumes "\<And>e t. m s = (Inl e, t) \<Longrightarrow> Q t" and "\<And>x t. m s = (Inr x, t) \<Longrightarrow> Q (snd (f x t))"
  shows "Q (snd (bindE m f s))"
  using assms by (cases "m s"; cases "fst (m s)") (auto simp: bindE_def)

lemma calm_reads: "stays quiet_step (assert_owned u i)" "stays quiet_step (check_key_id u k)"
  unfolding assert_owned_def check_key_id_def
  by (intro calm.stays_intros stays_db calm.stays_reads)+

lemma quiet_owned:
  assumes "quiet_step s t"
  shows "session_owned i u t = session_owned i u s" "conversation_owned i u t = conversation_owned i u s"
    "key_owned i u t = key_owned i u s" "conversations t = conversations s" "public_keys t = public_keys s"
    "encrypted_messages t = encrypted_messages s"
proof -
  obtain n sc where "t = s\<lparr>now := n, script := sc\<rparr>" using assms by (auto simp: quiet_step_def)
  then show "session_owned i u t = session_owned i u s" "conversation_owned i u t = conversation_owned i u s"
    "key_owned i u t = key_owned i u s" "conversations t = conversations s" "public_keys t = public_keys s"
    "encrypted_messages t = encrypted_messages s" by simp_all
qed

lemma assert_owned_ok:
  assumes "assert_owned u i s = (Inr c, t)"
  shows "c \<in> set (conversations s) \<and> owned_by i u c"
proof -
  have "find_owned i u s = (Inr (Some c), t)"
    using assms by (auto simp: assert_owned_def bindE_eq_Inr db_ok_Inr)
  then show ?thesis
    unfolding find_owned_def by (rule sql_ok) (auto simp: find_Some_iff)
qed

lemma assert_owned_conversation: "assert_owned u i s = (Inr c, t) \<Longrightarrow> conversation_owned i u s"
  using assert_owned_ok [of u i s c t] by (auto simp: conversation_owned_def owned_by_def)

lemma belongs_ok:
  assumes "belongs_to_user k u s = (Inr True, t)"
  shows "\<exists>x \<in> set (public_keys s). pk_id x = k \<and> pk_user_id x = u \<and> pk_revoked_at x = None"
  using assms unfolding belongs_to_user_def
  by (rule sql_ok) (auto simp: find_Some_iff2 find_None_iff)

lemma check_key_id_ok:
  assumes "check_key_id u k s = (Inr x, t)" and "j \<in> set_option k"
  shows "key_owned j u s"
proof -
  have "belongs_to_user j u s = (Inr True, t)"
    using assms by (auto simp: check_key_id_def bindE_eq_Inr db_ok_Inr split: if_splits)
  from belongs_ok [OF this] show ?thesis by (auto simp: key_owned_def)
qed

lemma snd_db [simp]: "snd (db m s) = snd (m s)"
  by (simp add: db_def)

lemma snd_bind_ok: "snd (bindE m (\<lambda>_. okE x) s) = snd (m s)"
  by (simp add: bindE_def split: prod.split sum.split)

lemma insert_touch_final:
  assumes "t = snd (messages_insert i u role ct nonce al k s)" and "Q t" and "Q (snd (touch i t))"
  shows "Q (snd (bindE (db (messages_insert i u role ct nonce al k)) (\<lambda>message.
         bindE (db (touch i)) (\<lambda>_. okE message)) s))"
proof (rule bindE_final)
  fix e t' assume "db (messages_insert i u role ct nonce al k) s = (Inl e, t')"
  then show "Q t'" using assms snd_db by (metis snd_conv)
next
  fix m t' assume "db (messages_insert i u role ct nonce al k) s = (Inr m, t')"
  then have "t' = t" using assms snd_db by (metis snd_conv)
  then show "Q (snd (bindE (db (touch i)) (\<lambda>_. okE m) t'))"
    using assms by (simp add: snd_bind_ok)
qed

text \<open>
  The shape of every run: reads that leave the tables alone, then possibly the insert and the
  touch in a state where conversation and key are known to be the user's.
\<close>

lemma messages_create_final:
  assumes read: "\<And>t. quiet_step s t \<Longrightarrow> Q t"
    and insert: "\<And>t role ct nonce al t'. quiet_step s t \<Longrightarrow> conversation_owned (mq_conversation_id r) u t \<Longrightarrow>
        \<forall>k \<in> set_option (mq_key_id r). key_owned k u t \<Longrightarrow>
        t' = snd (messages_insert (mq_conversation_id r) u role ct nonce al (mq_key_id r) t) \<Longrightarrow>
        Q t' \<and> Q (snd (touch (mq_conversation_id r) t'))"
  shows "Q (snd (messages_create lib u r s))"
proof (cases "\<exists>c s1 p. assert_owned u (mq_conversation_id r) s = (Inr c, s1) \<and> checked_message lib r = Inr p")
  case False
  obtain res s1 where a: "assert_owned u (mq_conversation_id r) s = (res, s1)"
    by (cases "assert_owned u (mq_conversation_id r) s")
  then have "quiet_step s s1" using staysD [OF calm_reads(1), of s u "mq_conversation_id r"] by simp
  moreover have "snd (messages_create lib u r s) = s1"
    using a False by (cases res; cases "checked_message lib r"; auto simp: messages_create_def bindE_def)
  ultimately show ?thesis using read by simp
next
  case True
  then obtain c s1 role ct nonce al where a: "assert_owned u (mq_conversation_id r) s = (Inr c, s1)"
    and p: "checked_message lib r = Inr (role, ct, nonce, al)" by (auto simp: prod_eq_iff)
  have q1: "quiet_step s s1" using staysD [OF calm_reads(1), of s u "mq_conversation_id r"] a by simp
  have "Q (snd (bindE (check_key_id u (mq_key_id r)) (\<lambda>_.
     bindE (db (messages_insert (mq_conversation_id r) u role ct nonce al (mq_key_id r))) (\<lambda>message.
     bindE (db (touch (mq_conversation_id r))) (\<lambda>_. okE message))) s1))"
  proof (rule bindE_final)
    fix e t assume "check_key_id u (mq_key_id r) s1 = (Inl e, t)"
    then show "Q t" using read q1 staysD [OF calm_reads(2), of s1 u "mq_key_id r"] calm.R_trans by fastforce
  next
    fix x s3 assume k: "check_key_id u (mq_key_id r) s1 = (Inr x, s3)"
    have q3: "quiet_step s1 s3" using staysD [OF calm_reads(2), of s1 u "mq_key_id r"] k by simp
    then have q: "quiet_step s s3" using q1 calm.R_trans by blast
    have "conversation_owned (mq_conversation_id r) u s3" "\<forall>k \<in> set_option (mq_key_id r). key_owned k u s3"
      using assert_owned_conversation [OF a] check_key_id_ok [OF k] quiet_owned(2) [OF q] quiet_owned(3) [OF q3] by auto
    note ins = insert [OF q this refl, of role ct nonce al]
    show "Q (snd (bindE
        (db (messages_insert (mq_conversation_id r) u role ct nonce al (mq_key_id r))) (\<lambda>message.
         bindE (db (touch (mq_conversation_id r))) (\<lambda>_. okE message)) s3))"
      by (rule insert_touch_final [OF refl conjunct1 [OF ins] conjunct2 [OF ins]])
  qed
  then show ?thesis using a p by (simp add: messages_create_def bindE_def)
qed

lemma wf_messages_create: "stays (\<lambda>s t. db_ok s \<longrightarrow> db_ok t) (messages_create lib u r)"
proof (intro staysI impI)
  fix s assume s: "db_ok s"
  have ok: "db_ok t" if "quiet_step s t" for t using that s wf.R_quiet by blast
  show "db_ok (snd (messages_create lib u r s))"
  proof (rule messages_create_final)
    fix t role ct nonce al t'
    assume t: "quiet_step s t" "conversation_owned (mq_conversation_id r) u t"
      "\<forall>k \<in> set_option (mq_key_id r). key_owned k u t"
      "t' = snd (messages_insert (mq_conversation_id r) u role ct nonce al (mq_key_id r) t)"
    then have "db_ok t'" using ok [OF t(1)]
      staysD [OF wf_messages_insert [of "mq_conversation_id r" u "mq_key_id r" role ct nonce al], where s = t] by simp
    then show "db_ok t' \<and> db_ok (snd (touch (mq_conversation_id r) t'))"
      using staysD [OF wf_updates(4), of t' "mq_conversation_id r"] by simp
  qed (rule ok)
qed

lemma owned_conversation_unique:
  assumes "db_ok s" and "conversation_owned i u s" and "c \<in> set (conversations s)" and "c_id c = i"
  shows "c_user_id c = u"
proof -
  obtain d where "d \<in> set (conversations s)" "c_id d = i" "c_user_id d = u"
    using assms(2) by (auto simp: conversation_owned_def)
  moreover have "distinct (map c_id (conversations s))" using assms(1) by (simp add: db_ok_def ids_ok_def)
  ultimately show ?thesis using distinct_map_eq [of c_id "conversations s" c d] assms(3,4) by simp
qed

lemma foreign_messages_create:
  assumes "db_ok s"
  shows "foreign u s (snd (messages_create lib u r s))"
proof (rule messages_create_final)
  show "foreign u s t" if "quiet_step s t" for t
    using that by (rule frame.R_quiet)
next
  fix t role ct nonce al t'
  assume t: "quiet_step s t" "conversation_owned (mq_conversation_id r) u t"
    "\<forall>k \<in> set_option (mq_key_id r). key_owned k u t"
    "t' = snd (messages_insert (mq_conversation_id r) u role ct nonce al (mq_key_id r) t)"
  have "db_ok t" using assms t(1) wf.R_quiet by blast
  then have t': "db_ok t'" "conversation_owned (mq_conversation_id r) u t'"
    using t(2-4) staysD [OF wf_messages_insert [of "mq_conversation_id r" u "mq_key_id r" role ct nonce al], where s = t]
    by simp_all
  have "foreign u s t" using t(1) by (rule frame.R_quiet)
  moreover have "foreign u t t'" using staysD [OF foreign_statements(5), where s = t] t(4) by simp
  moreover have "foreign u t' (snd (touch (mq_conversation_id r) t'))"
    using owned_conversation_unique [OF t'] by (intro foreign_touch) auto
  ultimately show "foreign u s t' \<and> foreign u s (snd (touch (mq_conversation_id r) t'))"
    using frame.R_trans by blast
qed

lemma history_data_step: "history s (data_step lib u req s)"
  by (cases req) (simp_all add: staysD [OF history_data(1)] staysD [OF history_data(2)] staysD [OF history_data(3)]
      staysD [OF history_data(4)] staysD [OF history_data(6)] staysD [OF history_data(7)]
      staysD [OF history_data(8)] staysD [OF history_data(9)] staysD [OF history_data(10)])

lemma wf_data_step: "db_ok s \<Longrightarrow> db_ok (data_step lib u req s)"
  using staysD [OF wf_messages_create, of s lib u]
  by (cases req) (simp_all add: staysD [OF wf_data(1), rule_format] staysD [OF wf_data(2), rule_format]
      staysD [OF wf_data(3), rule_format] staysD [OF wf_data(4), rule_format] staysD [OF wf_data(6), rule_format]
      staysD [OF wf_data(7), rule_format] staysD [OF wf_data(8), rule_format] staysD [OF wf_data(9), rule_format])

lemma checked_message_ok:
  assumes "checked_message lib r = Inr (role, ct, nonce, al)"
  shows "role \<in> {''user'', ''assistant''} \<and> b64_decode lib (mq_ciphertext r) = Some ct \<and>
    b64_decode lib (mq_nonce r) = Some nonce \<and> 0 < length ct \<and> length ct \<le> MAX_CIPHERTEXT_BYTES \<and>
    length nonce = 12 \<and> al \<in> set ALLOWED_ALGORITHMS"
  using assms
  by (auto simp: checked_message_def bindR_eq_Inr message_role_def base64_field_def validate_algorithm_def
      NONCE_LEN_def ALLOWED_ALGORITHMS_def Let_def split: if_splits option.splits)

subsection \<open>Pages\<close>

abbreviation newest_first :: "encrypted_message list \<Rightarrow> encrypted_message list" where
  "newest_first ms \<equiv> sort_key (\<lambda>m. - m_created_at m) ms"

lemma sorted_desc_filter:
  assumes "sorted (map (\<lambda>m. - m_created_at m) xs)" and "distinct (map m_created_at xs)" and "0 < n" and "n \<le> length xs"
  shows "filter (\<lambda>m. m_created_at m < m_created_at (xs ! (n - 1))) xs = drop n xs"
proof -
  have strict: "m_created_at (xs ! j) < m_created_at (xs ! i)" if "i < j" "j < length xs" for i j
  proof -
    have "m_created_at (xs ! j) \<le> m_created_at (xs ! i)"
      using sorted_nth_mono [OF assms(1), of i j] that by simp
    moreover have "m_created_at (xs ! j) \<noteq> m_created_at (xs ! i)"
      using nth_eq_iff_index_eq [OF assms(2), of i j] that by simp
    ultimately show ?thesis by simp
  qed
  let ?P = "\<lambda>m. m_created_at m < m_created_at (xs ! (n - 1))"
  have "\<forall>m \<in> set (take n xs). \<not> ?P m"
  proof
    fix m assume "m \<in> set (take n xs)"
    then obtain i where i: "i < n" "m = xs ! i" using assms(4) by (auto simp: in_set_conv_nth)
    moreover have "n - 1 < length xs" using assms(3,4) by linarith
    then have "\<not> ?P (xs ! i)" if "i < n - 1" using strict [OF that] by simp
    ultimately show "\<not> ?P m" using assms(3) by (cases "i = n - 1") auto
  qed
  moreover have "\<forall>m \<in> set (drop n xs). ?P m"
  proof
    fix m assume "m \<in> set (drop n xs)"
    then obtain i where "i < length xs - n" "m = xs ! (n + i)" using assms(4) by (auto simp: in_set_conv_nth)
    then show "?P m" using strict [of "n - 1" "n + i"] assms(3) by simp
  qed
  ultimately have "filter ?P (take n xs @ drop n xs) = drop n xs"
    by (simp only: filter_append filter_False filter_True append_Nil)
  then show ?thesis by simp
qed

lemma page_filter_before:
  assumes "m' \<in> set table" and "page_filter i u before m'"
  shows "filter (page_filter i u (Some (m_created_at m'))) table =
    filter (\<lambda>m. m_created_at m < m_created_at m') (filter (page_filter i u before) table)"
  using assms(2) by (auto simp: page_filter_def intro!: filter_cong split: option.splits)

lemma table_pages_complete:
  assumes "0 < n" and "distinct (map m_created_at (filter (page_filter i u before) table))"
    and "length (filter (page_filter i u before) table) < fuel"
  shows "table_pages fuel i u n before table = Some (newest_first (filter (page_filter i u before) table))"
  using assms(2,3)
proof (induction fuel arbitrary: before)
  case (Suc fuel)
  let ?ms = "filter (page_filter i u before) table"
  let ?L = "newest_first ?ms"
  have L: "sorted (map (\<lambda>m. - m_created_at m) ?L)" "length ?L = length ?ms" "set ?L = set ?ms"
    by simp_all
  have dist: "distinct (map m_created_at ?L)"
    using Suc.prems(1) by (simp add: distinct_map)
  show ?case
  proof (cases "length ?L < n")
    case True
    then show ?thesis by simp
  next
    case False
    then have n: "n \<le> length ?L" by simp
    have last: "last (take n ?L) = ?L ! (n - 1)"
      using take_Suc_conv_app_nth [of "n - 1" ?L] n assms(1) by simp
    have "?L ! (n - 1) \<in> set ?L" using n assms(1) by (intro nth_mem) simp
    then have mem: "?L ! (n - 1) \<in> set table" "page_filter i u before (?L ! (n - 1))" using L(3) by auto
    let ?b = "Some (m_created_at (?L ! (n - 1)))"
    have "newest_first (filter (page_filter i u ?b) table) =
        newest_first (filter (\<lambda>m. m_created_at m < m_created_at (?L ! (n - 1))) ?ms)"
      by (simp only: page_filter_before [OF mem])
    also have "\<dots> = filter (\<lambda>m. m_created_at m < m_created_at (?L ! (n - 1))) ?L"
      by (rule filter_sort [symmetric])
    also have "\<dots> = drop n ?L" by (rule sorted_desc_filter [OF L(1) dist assms(1) n])
    finally have next': "newest_first (filter (page_filter i u ?b) table) = drop n ?L" .
    have "length (filter (page_filter i u ?b) table) < length ?ms"
      using arg_cong [OF next', of length] n assms(1) L(2) by simp
    moreover have "distinct (map m_created_at (filter (page_filter i u ?b) table))"
      unfolding page_filter_before [OF mem] using Suc.prems(1) by (rule distinct_map_filter)
    ultimately have rest: "table_pages fuel i u n ?b table = Some (drop n ?L)"
      using Suc.IH [of ?b] Suc.prems(2) next' by simp
    have full: "\<not> length (take n ?L) < n" using n by simp
    show ?thesis
      by (simp only: table_pages.simps Let_def full if_False last rest option.map append_take_drop_id)
  qed
qed simp

subsection \<open>Storing and listing messages\<close>

lemma messages_create_ok:
  assumes "messages_create lib u r s = (Inr m, t)"
  obtains c s1 role ct nonce al x s3 where "assert_owned u (mq_conversation_id r) s = (Inr c, s1)"
    and "checked_message lib r = Inr (role, ct, nonce, al)"
    and "check_key_id u (mq_key_id r) s1 = (Inr x, s3)"
    and "m_user_id m = u" and "m_conversation_id m = mq_conversation_id r" and "m_ciphertext m = ct"
    and "m_nonce m = nonce" and "m_role m = role" and "m_algorithm m = al" and "m_key_id m = mq_key_id r"
    and "m \<in> set (encrypted_messages t)"
proof -
  obtain c s1 role ct nonce al x s3 s4 y where a: "assert_owned u (mq_conversation_id r) s = (Inr c, s1)"
    and p: "checked_message lib r = Inr (role, ct, nonce, al)"
    and k: "check_key_id u (mq_key_id r) s1 = (Inr x, s3)"
    and ins: "messages_insert (mq_conversation_id r) u role ct nonce al (mq_key_id r) s3 = (Inr m, s4)"
    and tch: "touch (mq_conversation_id r) s4 = (Inr y, t)"
    using assms by (auto simp: messages_create_def bindE_eq_Inr db_ok_Inr)
  have "m_user_id m = u \<and> m_conversation_id m = mq_conversation_id r \<and> m_ciphertext m = ct \<and> m_nonce m = nonce \<and>
      m_role m = role \<and> m_algorithm m = al \<and> m_key_id m = mq_key_id r \<and> m \<in> set (encrypted_messages s4)"
    using ins unfolding messages_insert_def by (rule sql_ok) (auto simp: Let_def split: if_splits)
  moreover have "encrypted_messages t = encrypted_messages s4" using tch unfolding touch_def by (rule sql_ok) auto
  ultimately show ?thesis using that [OF a p k] by simp
qed

lemma messages_list_ok:
  assumes "messages_list u q s = (Inr ms, t)"
  shows "ms = take (page_size (lq_limit q)) (newest_first
    (filter (page_filter (lq_conversation_id q) u (lq_before q)) (encrypted_messages s)))"
proof -
  obtain c s1 where a: "assert_owned u (lq_conversation_id q) s = (Inr c, s1)"
    and l: "list_for_conversation (lq_conversation_id q) u (page_size (lq_limit q)) (lq_before q) s1 = (Inr ms, t)"
    using assms by (auto simp: messages_list_def bindE_eq_Inr db_ok_Inr)
  have "encrypted_messages s1 = encrypted_messages s"
    using quiet_owned(6) [OF staysD [OF calm_reads(1), of s u "lq_conversation_id q"]] a by simp
  with l show ?thesis unfolding list_for_conversation_def by (elim sql_ok) simp
qed

lemma messages_list_quiet:
  assumes "script s = []" and "list_ex (owned_by (lq_conversation_id q) u) (conversations s)"
  shows "messages_list u q s = (Inr (take (page_size (lq_limit q)) (newest_first
    (filter (page_filter (lq_conversation_id q) u (lq_before q)) (encrypted_messages s)))), s)"
proof -
  obtain c where "find (owned_by (lq_conversation_id q) u) (conversations s) = Some c"
    using assms(2) by (cases "find (owned_by (lq_conversation_id q) u) (conversations s)")
      (auto simp: find_None_iff list_ex_iff)
  then show ?thesis
    using assms(1) by (simp add: messages_list_def assert_owned_def find_owned_def list_for_conversation_def
        bindE_def db_def map_errE_def)
qed

lemma all_pages_table:
  assumes "script s = []" and "list_ex (owned_by i u) (conversations s)"
  shows "all_pages fuel u i limit before s = table_pages fuel i u (page_size limit) before (encrypted_messages s)"
  by (induction fuel arbitrary: before) (simp_all add: messages_list_quiet assms Let_def del: length_take)

lemma demo_message_store_ok: "db_ok demo_message_store"
  by (simp add: db_ok_defs demo_message_store_def demo_store_def store_empty_def)

lemma demo_message:
  "\<exists>m t. messages_create demo_lib 0 demo_message_request demo_message_store = (Inr m, t) \<and>
     length (encrypted_messages t) = 1 \<and>
     \<not> isl (fst (messages_list 0 \<lparr>lq_conversation_id = 3, lq_limit = None, lq_before = None\<rparr> t))"
  by (simp add: messages_create_def messages_list_def assert_owned_def bindE_def db_def map_errE_def find_owned_def
      owned_by_def checked_message_def message_role_def base64_field_def demo_lib_def NONCE_LEN_def
      MAX_CIPHERTEXT_BYTES_def check_key_id_def messages_insert_def touch_def list_for_conversation_def
      demo_message_request_def demo_message_store_def demo_store_def store_empty_def Let_def as_bytes_def update_rows_def)

section \<open>Properties\<close>

text \<open>
  C6. Tenant isolation for writes: whatever a signed-in user asks for, with whatever identifiers,
  and whatever fails on the way, no row of another user in the key, conversation and message
  tables changes, and users, sessions and refresh tokens stay as they are.
\<close>

theorem tenant_isolation:
  assumes "db_ok s"
  shows "foreign u s (data_step lib u req s)"
  using foreign_messages_create [OF assms, of u lib]
  by (cases req) (simp_all add: staysD [OF foreign_data(1)] staysD [OF foreign_data(2)] staysD [OF foreign_data(3)]
      staysD [OF foreign_data(4)] staysD [OF foreign_data(6)] staysD [OF foreign_data(7)]
      staysD [OF foreign_data(8)] staysD [OF foreign_data(9)])

theorem tenant_isolation_witness:
  "foreign 7 demo_store (data_step demo_lib 7 (Delete_conversation 3) demo_store)"
  by (rule tenant_isolation [OF db_ok_demo_store])

text \<open>
  Tenant isolation for reads: the lists a user gets hold only rows of that user, live ones, and
  of messages only those of the conversation asked for, at most 200.
\<close>

lemma lists_are_owned:
  "(conversations_list u s = (Inr cs, t) \<longrightarrow> list_all (\<lambda>c. c_user_id c = u \<and> c_deleted_at c = None) cs) \<and>
   (keys_list u s = (Inr ks, t) \<longrightarrow> list_all (\<lambda>k. pk_user_id k = u \<and> pk_revoked_at k = None) ks) \<and>
   (messages_list u q s = (Inr ms, t) \<longrightarrow>
      list_all (\<lambda>m. m_user_id m = u \<and> m_conversation_id m = lq_conversation_id q) ms \<and> length ms \<le> 200)"
proof (intro conjI impI)
  assume "conversations_list u s = (Inr cs, t)"
  then show "list_all (\<lambda>c. c_user_id c = u \<and> c_deleted_at c = None) cs"
    unfolding conversations_list_def db_ok_Inr conversations_list_for_user_def
    by (auto elim!: sql_ok simp: list_all_iff)
next
  assume "keys_list u s = (Inr ks, t)"
  then show "list_all (\<lambda>k. pk_user_id k = u \<and> pk_revoked_at k = None) ks"
    unfolding keys_list_def db_ok_Inr keys_list_for_user_def by (auto elim!: sql_ok simp: list_all_iff)
next
  assume "messages_list u q s = (Inr ms, t)"
  note ms = messages_list_ok [OF this]
  from ms show "list_all (\<lambda>m. m_user_id m = u \<and> m_conversation_id m = lq_conversation_id q) ms"
    by (auto simp: list_all_iff page_filter_def dest: in_set_takeD)
  have "page_size (lq_limit q) \<le> 200" by (simp add: page_size_def MAX_PAGE_SIZE_def)
  with ms show "length ms \<le> 200" by simp
qed

lemma lists_are_owned_witness:
  "\<exists>cs t. conversations_list 0 demo_store = (Inr cs, t) \<and>
     list_all (\<lambda>c. c_user_id c = 0 \<and> c_deleted_at c = None) cs"
proof -
  obtain cs t where "conversations_list 0 demo_store = (Inr cs, t)"
    by (simp add: conversations_list_def db_def map_errE_def conversations_list_for_user_def demo_store_def store_empty_def)
  then show ?thesis using lists_are_owned [of 0 demo_store cs t] by blast
qed

text \<open>
  C21. To a user, another user's conversation does not exist: looking it up, deleting it, reading its
  messages or adding to it, with any parameters, is answered \<^verbatim>\<open>NotFound\<close>, and so is every update
  whose title and model are valid; an update that is not valid gets the validation error of its
  own fields. The answers are those for an identifier nobody has, and nothing changes (while the
  database answers).
\<close>

theorem foreign_conversation_not_found:
  assumes "db_ok s" and "script s = []" and "\<not> conversation_owned i u s"
  shows "assert_owned u i s = (Inl NotFound, s) \<and> conversations_delete u i s = (Inl NotFound, s) \<and>
    messages_list u \<lparr>lq_conversation_id = i, lq_limit = l, lq_before = b\<rparr> s = (Inl NotFound, s) \<and>
    messages_create lib u (r\<lparr>mq_conversation_id := i\<rparr>) s = (Inl NotFound, s) \<and>
    conversations_change u i q s =
      (Inl (case bindR (transposeR validate_title (cq_title q)) (\<lambda>_. transposeR validate_model (cq_model q)) of
              Inl e \<Rightarrow> e | Inr _ \<Rightarrow> NotFound), s)"
proof -
  have none: "\<not> owned_by i u c" if "c \<in> set (conversations s)" for c
    using assms(3) that by (auto simp: conversation_owned_def owned_by_def)
  then have "find (owned_by i u) (conversations s) = None" "\<not> list_ex (owned_by i u) (conversations s)"
    "update_rows (owned_by i u) f (conversations s) = conversations s" for f
    by (auto simp: find_None_iff list_ex_iff update_rows_def intro: map_idI)
  note rows = this
  have "conversations_change u i q s =
      (Inl (case bindR (transposeR validate_title (cq_title q)) (\<lambda>_. transposeR validate_model (cq_model q)) of
              Inl e \<Rightarrow> e | Inr _ \<Rightarrow> NotFound), s)"
    using assms(2) rows
    by (simp add: conversations_change_def bindE_def db_def map_errE_def update_conversation_def split: sum.split)
  then show ?thesis
    using assms(2) rows
    by (simp add: assert_owned_def conversations_delete_def messages_list_def messages_create_def
        bindE_def db_def map_errE_def find_owned_def soft_delete_def)
qed

theorem foreign_conversation_not_found_witness:
  "assert_owned 7 3 demo_store = (Inl NotFound, demo_store) \<and>
   conversations_change 7 3 \<lparr>cq_title = Some ''mine'', cq_model = None\<rparr> demo_store = (Inl NotFound, demo_store)"
proof -
  have "\<not> conversation_owned 3 7 demo_store" "script demo_store = []"
    by (simp_all add: conversation_owned_def demo_store_def store_empty_def)
  moreover have "validate_title ''mine'' = Inr ''mine''" by code_simp
  ultimately show ?thesis
    using foreign_conversation_not_found [OF db_ok_demo_store, of 3 7 _ _ _ _ "\<lparr>cq_title = Some ''mine'', cq_model = None\<rparr>"]
    by auto
qed

text \<open>
  C26. A stored message is what its author sent and nothing the server made of it: the bytes are the
  decoded ones, within the size bound, the nonce has 12 bytes, role and algorithm are of the
  allowed ones, the conversation is a live one of the author, and a referenced key is a key of
  the author.
\<close>

theorem stored_message_valid:
  assumes "db_ok s" and "messages_create lib u r s = (Inr m, t)"
  shows "m_user_id m = u \<and> m_conversation_id m = mq_conversation_id r \<and>
    b64_decode lib (mq_ciphertext r) = Some (m_ciphertext m) \<and> b64_decode lib (mq_nonce r) = Some (m_nonce m) \<and>
    0 < length (m_ciphertext m) \<and> length (m_ciphertext m) \<le> MAX_CIPHERTEXT_BYTES \<and> length (m_nonce m) = 12 \<and>
    m_role m \<in> {''user'', ''assistant''} \<and> m_algorithm m \<in> set ALLOWED_ALGORITHMS \<and>
    list_ex (owned_by (mq_conversation_id r) u) (conversations s) \<and>
    m_key_id m = mq_key_id r \<and> (\<forall>k \<in> set_option (m_key_id m). key_owned k u s) \<and>
    m \<in> set (encrypted_messages t)"
proof -
  obtain c s1 role ct nonce al x s3 where a: "assert_owned u (mq_conversation_id r) s = (Inr c, s1)"
    and p: "checked_message lib r = Inr (role, ct, nonce, al)"
    and k: "check_key_id u (mq_key_id r) s1 = (Inr x, s3)"
    and m: "m_user_id m = u" "m_conversation_id m = mq_conversation_id r" "m_ciphertext m = ct" "m_nonce m = nonce"
      "m_role m = role" "m_algorithm m = al" "m_key_id m = mq_key_id r" "m \<in> set (encrypted_messages t)"
    using assms(2) by (rule messages_create_ok)
  have "\<forall>k \<in> set_option (mq_key_id r). key_owned k u s"
    using check_key_id_ok [OF k] quiet_owned(3) [of s s1] staysD [OF calm_reads(1), of s u "mq_conversation_id r"] a
    by auto
  moreover have "list_ex (owned_by (mq_conversation_id r) u) (conversations s)"
    using assert_owned_ok [OF a] by (auto simp: list_ex_iff)
  ultimately show ?thesis using m checked_message_ok [OF p] by auto
qed

text \<open>A message stored into the only conversation of a user.\<close>

theorem stored_message_valid_witness:
  "\<exists>m t. messages_create demo_lib 0 demo_message_request demo_message_store = (Inr m, t) \<and> length (m_nonce m) = 12"
proof -
  obtain m t where "messages_create demo_lib 0 demo_message_request demo_message_store = (Inr m, t)" using demo_message by blast
  then show ?thesis using stored_message_valid [OF demo_message_store_ok] by blast
qed

text \<open>
  C25. What a client stores it reads back: the message is in the list of its conversation, when the
  page holds them all, and its ciphertext and nonce decode to the bytes that were sent.
\<close>

theorem message_roundtrip:
  assumes "b64_lawful lib" and "messages_create lib u r s = (Inr m, t)" and "messages_list u q t = (Inr ms, t')"
    and "lq_conversation_id q = mq_conversation_id r" and "lq_before q = None"
    and "length (filter (page_filter (mq_conversation_id r) u None) (encrypted_messages t)) \<le> page_size (lq_limit q)"
  shows "\<exists>x \<in> set (map (message_response_of lib) ms). mo_id x = m_id m \<and>
    b64_decode lib (mo_ciphertext x) = b64_decode lib (mq_ciphertext r) \<and>
    b64_decode lib (mo_nonce x) = b64_decode lib (mq_nonce r)"
proof -
  obtain role ct nonce al where p: "checked_message lib r = Inr (role, ct, nonce, al)"
    and m: "m_user_id m = u" "m_conversation_id m = mq_conversation_id r" "m_ciphertext m = ct" "m_nonce m = nonce"
      "m \<in> set (encrypted_messages t)"
    using messages_create_ok [OF assms(2)] by metis
  have "ms = newest_first (filter (page_filter (mq_conversation_id r) u None) (encrypted_messages t))"
    using messages_list_ok [OF assms(3)] assms(4-6) by simp
  then have "m \<in> set ms" using m by (simp add: page_filter_def)
  then show ?thesis
    using checked_message_ok [OF p] m assms(1)
    by (auto simp: message_response_of_def b64_lawful_def intro!: bexI [of _ "message_response_of lib m"])
qed

theorem message_roundtrip_witness:
  "\<exists>m t ms t'. messages_create demo_lib 0 demo_message_request demo_message_store = (Inr m, t) \<and>
     messages_list 0 \<lparr>lq_conversation_id = 3, lq_limit = None, lq_before = None\<rparr> t = (Inr ms, t') \<and>
     (\<exists>x \<in> set (map (message_response_of demo_lib) ms). mo_id x = m_id m)"
proof -
  let ?q = "\<lparr>lq_conversation_id = 3, lq_limit = None, lq_before = None\<rparr>"
  obtain m t where c: "messages_create demo_lib 0 demo_message_request demo_message_store = (Inr m, t)"
    and one: "length (encrypted_messages t) = 1" and l: "\<not> isl (fst (messages_list 0 ?q t))" using demo_message by blast
  then obtain ms t' where ms: "messages_list 0 ?q t = (Inr ms, t')"
    by (metis isl_def obj_sumE prod.collapse)
  have "b64_lawful demo_lib" by (simp add: b64_lawful_def demo_lib_def as_bytes_map_chr)
  moreover have "length (filter (page_filter 3 0 None) (encrypted_messages t)) \<le> 1"
    using length_filter_le [of "page_filter 3 0 None" "encrypted_messages t"] one by simp
  ultimately show ?thesis
    using message_roundtrip [OF _ c ms] c ms
    by (fastforce simp: demo_message_request_def page_size_def DEFAULT_PAGE_SIZE_def MAX_PAGE_SIZE_def)
qed

text \<open>
  C40. Reading a conversation page by page, with any page size, returns every message of the user in
  it, newest first and each once, in finitely many requests, when their timestamps differ.
\<close>

theorem pagination_complete:
  assumes "script s = []" and "list_ex (owned_by i u) (conversations s)"
    and "distinct (map m_created_at (filter (page_filter i u None) (encrypted_messages s)))"
    and "length (encrypted_messages s) < fuel"
  shows "all_pages fuel u i limit None s = Some (newest_first (filter (page_filter i u None) (encrypted_messages s)))"
proof -
  have "0 < page_size limit" by (simp add: page_size_def)
  then show ?thesis
    using assms le_less_trans [OF length_filter_le assms(4)] by (simp add: all_pages_table table_pages_complete)
qed

theorem pagination_complete_witness:
  "all_pages 3 0 3 (Some 1) None (demo_message_store\<lparr>encrypted_messages :=
     [\<lparr>m_id = 4, m_conversation_id = 3, m_user_id = 0, m_role = ''user'', m_ciphertext = [1], m_nonce = [],
       m_algorithm = ''a'', m_key_id = None, m_created_at = 5\<rparr>,
      \<lparr>m_id = 5, m_conversation_id = 3, m_user_id = 0, m_role = ''user'', m_ciphertext = [2], m_nonce = [],
       m_algorithm = ''a'', m_key_id = None, m_created_at = 6\<rparr>]\<rparr>) \<noteq> None"
  by (subst pagination_complete)
    (simp_all add: page_filter_def demo_message_store_def demo_store_def store_empty_def owned_by_def)

text \<open>
  Messages with the same timestamp can be lost between pages: of two messages created at the same
  instant, pages of size one return only the first.
\<close>

lemma pagination_skips_ties:
  assumes "script s = []" and "list_ex (owned_by 3 0) (conversations s)"
    and "encrypted_messages s =
      [m\<lparr>m_conversation_id := 3, m_user_id := 0, m_created_at := t\<rparr>,
       m'\<lparr>m_conversation_id := 3, m_user_id := 0, m_created_at := t\<rparr>]"
  shows "all_pages fuel 0 3 (Some 1) None s =
    (if fuel < 2 then None else Some [m\<lparr>m_conversation_id := 3, m_user_id := 0, m_created_at := t\<rparr>])"
proof (cases fuel)
  case (Suc f)
  then show ?thesis
    using assms by (cases f) (simp_all add: all_pages_table page_filter_def page_size_def MAX_PAGE_SIZE_def del: all_pages.simps)
qed simp

text \<open>
  C27. A key that is stored was validated: its two halves are the decoded bytes of the request, 32
  each; the Ed25519 half decodes to a curve point that the library does not call weak, the X25519
  half is none of the blocked small-order points, and the label is in canonical form.
\<close>

theorem uploaded_key_valid:
  assumes "keys_upload lib u r s = (Inr k, t)"
  shows "pk_user_id k = u \<and> length (pk_ed25519 k) = 32 \<and> length (pk_x25519 k) = 32 \<and>
    b64_decode lib (kq_ed25519 r) = Some (pk_ed25519 k) \<and> b64_decode lib (kq_x25519 r) = Some (pk_x25519 k) \<and>
    (\<exists>pt. ed_from_bytes lib (pk_ed25519 k) = Some pt \<and> \<not> ed_is_weak lib pt) \<and>
    \<not> is_small_order_x25519 (pk_x25519 k) \<and> validate_label (pk_label k) = Inr (pk_label k) \<and>
    k \<in> set (public_keys t)"
proof -
  obtain ed x ed' x' label s1 where ed0: "base64_field (b64_decode lib) (kq_ed25519 r) ''ed25519_public_key'' PUBLIC_KEY_LEN = Inr ed"
    and x0: "base64_field (b64_decode lib) (kq_x25519 r) ''x25519_public_key'' PUBLIC_KEY_LEN = Inr x"
    and ed1: "validate_ed25519_public_key (ed_from_bytes lib) (ed_is_weak lib) ed = Inr ed'"
    and x1: "validate_x25519_public_key x = Inr x'"
    and label1: "(case kq_label r of Some raw \<Rightarrow> validate_label raw | None \<Rightarrow> Inr ''default'') = Inr label"
    and ins: "keys_insert u ed' x' label s = (Inr k, s1)"
    and audit: "t = snd (audit_insert (Some u) ''key.uploaded''
      [(''key_id'', M_uuid (pk_id k)), (''label'', M_text (pk_label k))] None s1)"
    using assms unfolding keys_upload_def bindE_eq_Inr by (auto simp: audit_record_def)
  have k: "pk_user_id k = u \<and> pk_ed25519 k = ed' \<and> pk_x25519 k = x' \<and> pk_label k = label \<and> k \<in> set (public_keys s1)"
    using ins unfolding keys_insert_def by (rule sql_ok) (auto simp: Let_def split: if_splits)
  have "set (public_keys s1) \<subseteq> set (public_keys t)"
    using audit staysD [OF history_inserts(7), where s = s1] by (auto simp: history_def)
  moreover have "validate_label ''default'' = Inr ''default''" by code_simp
  then have "validate_label (pk_label k) = Inr (pk_label k)"
    using label1 k label_field.revalidates by (auto split: option.splits)
  moreover have "b64_decode lib (kq_ed25519 r) = Some ed" "b64_decode lib (kq_x25519 r) = Some x"
    using ed0 x0 by (auto simp: base64_field_def bindR_eq_Inr split: if_splits option.splits)
  ultimately show ?thesis
    using ed1 x1 k by (auto simp: validate_ed25519_public_key_def validate_x25519_public_key_def PUBLIC_KEY_LEN_def
        split: if_splits option.splits)
qed

text \<open>A key with canonical bytes is accepted by the concrete library.\<close>

theorem uploaded_key_valid_witness:
  "\<exists>k t. keys_upload demo_lib 0 \<lparr>kq_ed25519 = replicate 32 (CHR ''e''), kq_x25519 = replicate 32 (CHR ''x''),
      kq_label = None\<rparr> demo_store = (Inr k, t) \<and> \<not> is_small_order_x25519 (pk_x25519 k) \<and>
    (\<exists>pt. ed_from_bytes demo_lib (pk_ed25519 k) = Some pt \<and> \<not> ed_is_weak demo_lib pt)"
proof -
  have "\<not> isl (fst (keys_upload demo_lib 0 \<lparr>kq_ed25519 = replicate 32 (CHR ''e''),
      kq_x25519 = replicate 32 (CHR ''x''), kq_label = None\<rparr> demo_store))" by code_simp
  then obtain k t where k: "keys_upload demo_lib 0 \<lparr>kq_ed25519 = replicate 32 (CHR ''e''),
      kq_x25519 = replicate 32 (CHR ''x''), kq_label = None\<rparr> demo_store = (Inr k, t)"
    by (metis Inl_Inr_False isl_def obj_sumE prod.collapse)
  then show ?thesis using uploaded_key_valid [OF k] by blast
qed

end
