(* ===== verification/Metrics.thy ===== *)
theory Metrics
  imports Rust_Text
begin

text \<open>
  \<^verbatim>\<open>src/middleware/metrics.rs\<close>: the registry of atomic counters, their updates and the
  Prometheus text. \<^verbatim>\<open>AtomicU64::fetch_add\<close> wraps, so the counters are words; the process
  uptime that \<^verbatim>\<open>render\<close> reads from the clock is an argument.
\<close>

section \<open>Definitions\<close>

record metrics =
  http_requests_total :: u64
  http_responses_2xx :: u64
  http_responses_4xx :: u64
  http_responses_5xx :: u64
  http_request_duration_micros_sum :: u64
  rate_limited_total :: u64
  ws_sessions_active :: i64
  ws_sessions_total :: u64
  provider_requests_total :: u64
  provider_chunks_total :: u64
  provider_errors_total :: u64

definition metrics_default :: metrics where
  "metrics_default = \<lparr>http_requests_total = 0, http_responses_2xx = 0, http_responses_4xx = 0,
     http_responses_5xx = 0, http_request_duration_micros_sum = 0, rate_limited_total = 0,
     ws_sessions_active = 0, ws_sessions_total = 0, provider_requests_total = 0,
     provider_chunks_total = 0, provider_errors_total = 0\<rparr>"

definition record_response :: "nat \<Rightarrow> u64 \<Rightarrow> metrics \<Rightarrow> metrics" where
  "record_response status duration_micros m =
     (let m1 = m\<lparr>http_requests_total := http_requests_total m + 1,
                 http_request_duration_micros_sum :=
                   http_request_duration_micros_sum m + duration_micros\<rparr>
      in if 200 \<le> status \<and> status \<le> 299 then m1\<lparr>http_responses_2xx := http_responses_2xx m1 + 1\<rparr>
         else if 400 \<le> status \<and> status \<le> 499 then m1\<lparr>http_responses_4xx := http_responses_4xx m1 + 1\<rparr>
         else if 500 \<le> status \<and> status \<le> 599 then m1\<lparr>http_responses_5xx := http_responses_5xx m1 + 1\<rparr>
         else m1)"

text \<open>
  The elapsed time is clamped to the largest \<^verbatim>\<open>u64\<close>: \<^verbatim>\<open>as_micros().min(u64::MAX)\<close> in
  \<^verbatim>\<open>track_metrics\<close>.
\<close>

definition elapsed_micros :: "nat \<Rightarrow> u64" where
  "elapsed_micros micros = of_nat (min micros (2 ^ 64 - 1))"

definition newline :: string where "newline = [CHR 0x0A]"

definition counter_text :: "string \<Rightarrow> string \<Rightarrow> u64 \<Rightarrow> string" where
  "counter_text name help v =
     ''# HELP '' @ name @ '' '' @ help @ newline @ ''# TYPE '' @ name @ '' counter'' @ newline @
     name @ '' '' @ show_nat (unat v) @ newline"

definition show_i64 :: "i64 \<Rightarrow> string" where
  "show_i64 w = (if sint w < 0 then ''-'' @ show_nat (nat (- sint w)) else show_nat (nat (sint w)))"

definition render :: "nat \<Rightarrow> metrics \<Rightarrow> string" where
  "render uptime m =
     counter_text ''encryptr_http_requests_total'' ''Total HTTP requests received''
       (http_requests_total m) @
     counter_text ''encryptr_http_responses_2xx_total'' ''HTTP responses with 2xx status''
       (http_responses_2xx m) @
     counter_text ''encryptr_http_responses_4xx_total'' ''HTTP responses with 4xx status''
       (http_responses_4xx m) @
     counter_text ''encryptr_http_responses_5xx_total'' ''HTTP responses with 5xx status''
       (http_responses_5xx m) @
     counter_text ''encryptr_http_request_duration_micros_sum''
       ''Sum of HTTP request durations in microseconds'' (http_request_duration_micros_sum m) @
     counter_text ''encryptr_rate_limited_total'' ''Requests rejected by the rate limiter''
       (rate_limited_total m) @
     counter_text ''encryptr_ws_sessions_total'' ''Total WebSocket chat sessions''
       (ws_sessions_total m) @
     counter_text ''encryptr_provider_requests_total'' ''Requests sent to the AI provider''
       (provider_requests_total m) @
     counter_text ''encryptr_provider_chunks_total'' ''Streamed chunks received from the AI provider''
       (provider_chunks_total m) @
     counter_text ''encryptr_provider_errors_total'' ''Errors from the AI provider''
       (provider_errors_total m) @
     ''# HELP encryptr_ws_sessions_active Currently open WebSocket chat sessions'' @ newline @
     ''# TYPE encryptr_ws_sessions_active gauge'' @ newline @
     ''encryptr_ws_sessions_active '' @ show_i64 (ws_sessions_active m) @ newline @
     ''# HELP encryptr_uptime_seconds Process uptime in seconds'' @ newline @
     ''# TYPE encryptr_uptime_seconds gauge'' @ newline @
     ''encryptr_uptime_seconds '' @ show_nat uptime @ newline"

text \<open>The recorder over a whole history of responses.\<close>

definition record_all :: "(nat \<times> u64) list \<Rightarrow> metrics \<Rightarrow> metrics" where
  "record_all = fold (\<lambda>(status, micros). record_response status micros)"

section \<open>Properties\<close>

lemma leading_digit:
  "(200 \<le> status \<and> status \<le> 299) = (status div 100 = 2)"
  "(400 \<le> status \<and> status \<le> 499) = (status div 100 = 4)"
  "(500 \<le> status \<and> status \<le> 599) = (status div 100 = 5)"
  for status :: nat
  by auto

text \<open>
  The response counters count: after any history of recorded responses the total is the
  number of responses, each class counter is the number of responses whose status has that
  leading digit (statuses outside 2xx, 4xx and 5xx are counted in the total only), and the
  duration is the sum of the durations, all modulo \<open>2 ^ 64\<close>; no other counter moves.
\<close>

lemma response_counters_count:
  "record_all rs m = m\<lparr>
     http_requests_total := http_requests_total m + of_nat (length rs),
     http_responses_2xx := http_responses_2xx m + of_nat (length (filter (\<lambda>r. fst r div 100 = 2) rs)),
     http_responses_4xx := http_responses_4xx m + of_nat (length (filter (\<lambda>r. fst r div 100 = 4) rs)),
     http_responses_5xx := http_responses_5xx m + of_nat (length (filter (\<lambda>r. fst r div 100 = 5) rs)),
     http_request_duration_micros_sum := http_request_duration_micros_sum m + sum_list (map snd rs)\<rparr>"
proof (induction rs arbitrary: m)
  case Nil
  show ?case by (simp add: record_all_def)
next
  case (Cons r rs)
  have "record_all (r # rs) m = record_all rs (record_response (fst r) (snd r) m)"
    by (cases r) (simp add: record_all_def)
  with Cons.IH show ?case
    by (simp add: record_response_def leading_digit Let_def algebra_simps)
qed

end
