(* ===== verification/Rate_Limit.thy ===== *)
theory Rate_Limit
  imports App_Error Metrics "HOL-Library.AList"
begin

text \<open>
  \<^verbatim>\<open>src/middleware/rate_limit.rs\<close>: the fixed-window limiter, its sweep, the client key and the
  middleware that enforces a limiter. The \<^verbatim>\<open>DashMap\<close> is an association list with one entry
  per key; an \<^verbatim>\<open>Instant\<close> and a \<^verbatim>\<open>Duration\<close> are counts of one unit of time, so that the truncated
  subtraction of \<open>nat\<close> is the saturating \<^verbatim>\<open>duration_since\<close>. The clock is read by the code twice:
  once for the request and once inside \<^verbatim>\<open>sweep\<close>; both readings are arguments.
\<close>

section \<open>Definitions\<close>

definition MAX_TRACKED_KEYS :: nat where "MAX_TRACKED_KEYS = 100000"

record rate_limiter =
  max_requests :: u32
  window :: nat
  windows :: "(string \<times> nat \<times> u32) list"

definition limiter_new :: "u32 \<Rightarrow> nat \<Rightarrow> rate_limiter" where
  "limiter_new max_req w = \<lparr>max_requests = max_req, window = w, windows = []\<rparr>"

definition sweep :: "nat \<Rightarrow> rate_limiter \<Rightarrow> rate_limiter" where
  "sweep now l = l\<lparr>windows := filter (\<lambda>(_, start, _). now - start < window l) (windows l)\<rparr>"

definition set_entry :: "string \<Rightarrow> nat \<times> u32 \<Rightarrow> rate_limiter \<Rightarrow> rate_limiter" where
  "set_entry key e l = l\<lparr>windows := AList.update key e (windows l)\<rparr>"

text \<open>The part of \<^verbatim>\<open>check_at\<close> after the capacity test.\<close>

definition hit :: "string \<Rightarrow> nat \<Rightarrow> rate_limiter \<Rightarrow> bool \<times> rate_limiter" where
  "hit key now l =
     (let (l1, entry) = (case map_of (windows l) key of
            Some e \<Rightarrow> (l, e)
          | None \<Rightarrow> (set_entry key (now, 0) l, (now, 0)));
          (window_start, count) = entry
      in if now - window_start \<ge> window l then (True, set_entry key (now, 1) l1)
         else if count \<ge> max_requests l then (False, l1)
         else (True, set_entry key (window_start, count + 1) l1))"

definition check_at :: "string \<Rightarrow> nat \<Rightarrow> nat \<Rightarrow> rate_limiter \<Rightarrow> bool \<times> rate_limiter" where
  "check_at key now sweep_now l =
     (if map_of (windows l) key = None \<and> length (windows l) \<ge> MAX_TRACKED_KEYS then
        (let l1 = sweep sweep_now l in
         if length (windows l1) \<ge> MAX_TRACKED_KEYS then (False, l1) else hit key now l1)
      else hit key now l)"

definition check :: "string \<Rightarrow> nat \<Rightarrow> nat \<Rightarrow> rate_limiter \<Rightarrow> bool \<times> rate_limiter" where
  "check key now sweep_now l = check_at key now sweep_now l"

subsection \<open>Client identity and the middleware\<close>

text \<open>
  The header map lists every header line in order, names in lower case; \<^verbatim>\<open>HeaderMap::get\<close>
  returns the first line with the name. \<^verbatim>\<open>HeaderValue::to_str\<close> is a parameter, and the peer is
  the text of the socket address.
\<close>

definition header_text :: "(bytes \<Rightarrow> string option) \<Rightarrow> (string \<times> bytes) list \<Rightarrow> string \<Rightarrow> string option" where
  "header_text to_str headers name = Option.bind (map_of headers name) to_str"

definition non_empty :: "string \<Rightarrow> string option" where
  "non_empty s = (if s = [] then None else Some s)"

definition client_key ::
  "(bytes \<Rightarrow> string option) \<Rightarrow> (string \<times> bytes) list \<Rightarrow> string \<Rightarrow> bool \<Rightarrow> string" where
  "client_key to_str headers peer trust_proxy_headers =
     (if trust_proxy_headers then
        (case Option.bind (header_text to_str headers ''x-forwarded-for'')
                (\<lambda>v. non_empty (trim (last (split_on (CHR '','') v)))) of
           Some ip \<Rightarrow> ip
         | None \<Rightarrow>
             (case Option.bind (header_text to_str headers ''x-real-ip'') (\<lambda>v. non_empty (trim v)) of
                Some ip \<Rightarrow> ip
              | None \<Rightarrow> peer))
      else peer)"

text \<open>
  \<^verbatim>\<open>enforce\<close>, for a request with the given headers from the given peer: the state is the
  limiter, the metrics and whatever the inner service uses.
\<close>

definition enforce ::
  "(bytes \<Rightarrow> string option) \<Rightarrow> bool \<Rightarrow> (string \<times> bytes) list \<Rightarrow> string \<Rightarrow> nat \<Rightarrow> nat \<Rightarrow>
   (metrics \<times> 'w \<Rightarrow> 'resp \<times> metrics \<times> 'w) \<Rightarrow>
   (rate_limiter \<times> metrics \<times> 'w, app_error, 'resp) action" where
  "enforce to_str trust headers peer now sweep_now run_next = (\<lambda>(l, m, w).
     let key = client_key to_str headers peer trust;
         (allowed, l1) = check key now sweep_now l in
     if \<not> allowed then
       (Inl RateLimited, (l1, m\<lparr>rate_limited_total := rate_limited_total m + 1\<rparr>, w))
     else let (resp, m1, w1) = run_next (m, w) in (Inr resp, (l1, m1, w1)))"

subsection \<open>Reference: one client at a time\<close>

text \<open>
  A limiter for a single client: what the shared map is meant to provide to each key. Its
  state is the client's window, if any.
\<close>

definition ref_hit :: "nat \<Rightarrow> u32 \<Rightarrow> nat \<Rightarrow> (nat \<times> u32) option \<Rightarrow> bool \<times> (nat \<times> u32) option" where
  "ref_hit w mx now e =
     (let (start, count) = (case e of None \<Rightarrow> (now, 0) | Some p \<Rightarrow> p)
      in if now - start \<ge> w then (True, Some (now, 1))
         else if count \<ge> mx then (False, Some (start, count))
         else (True, Some (start, count + 1)))"

text \<open>
  What happens to a limiter over time: a request (its key, the time of the request and the
  time a sweep inside it would read), or a run of the periodic sweep that \<^verbatim>\<open>src/main.rs\<close>
  spawns. The log holds the decision for every request.
\<close>

datatype limiter_event = Req string nat nat | Sweep nat

fun run_events :: "limiter_event list \<Rightarrow> rate_limiter \<Rightarrow> (string \<times> bool) list \<times> rate_limiter" where
  "run_events [] l = ([], l)"
| "run_events (Req key now sw # es) l =
     (let (ok, l1) = check key now sw l; (log, l2) = run_events es l1 in ((key, ok) # log, l2))"
| "run_events (Sweep t # es) l = run_events es (sweep t l)"

definition admitted :: "string \<Rightarrow> (string \<times> bool) list \<Rightarrow> nat" where
  "admitted k log = length (filter (\<lambda>r. r = (k, True)) log)"

text \<open>The clock does not run backwards.\<close>

fun timeline :: "nat \<Rightarrow> limiter_event list \<Rightarrow> bool" where
  "timeline t [] = True"
| "timeline t (Req _ now sw # es) = (t \<le> now \<and> now \<le> sw \<and> timeline sw es)"
| "timeline t (Sweep u # es) = (t \<le> u \<and> timeline u es)"

text \<open>All readings of the clock lie in the interval from \<open>a\<close> of length \<open>w\<close>.\<close>

fun within :: "nat \<Rightarrow> nat \<Rightarrow> limiter_event \<Rightarrow> bool" where
  "within a w (Req _ now sw) = (a \<le> now \<and> now < a + w \<and> sw < a + w)"
| "within a w (Sweep t) = (t < a + w)"

text \<open>
  The one thing the other clients can do to a client: when it is not tracked and, after a sweep,
  as many others as the map holds have windows that are still running, it is turned away. The
  log says of each request of client \<open>k\<close> in a run whether that was so.
\<close>

definition crowded_out :: "string \<Rightarrow> nat \<Rightarrow> rate_limiter \<Rightarrow> bool" where
  "crowded_out key sweep_now l \<longleftrightarrow>
     map_of (windows l) key = None \<and> MAX_TRACKED_KEYS \<le> length (windows (sweep sweep_now l))"

fun crowded_log :: "string \<Rightarrow> limiter_event list \<Rightarrow> rate_limiter \<Rightarrow> bool list" where
  "crowded_log k [] l = []"
| "crowded_log k (Req key now sw # es) l =
     (if key = k then [crowded_out key sw l] else []) @ crowded_log k es (snd (check key now sw l))"
| "crowded_log k (Sweep t # es) l = crowded_log k es (sweep t l)"

text \<open>The decisions of a client's own limiter, less the requests it is crowded out of.\<close>

fun ref_log ::
  "nat \<Rightarrow> u32 \<Rightarrow> string \<Rightarrow> limiter_event list \<Rightarrow> bool list \<Rightarrow> (nat \<times> u32) option \<Rightarrow> bool list" where
  "ref_log w mx k [] crowded e = []"
| "ref_log w mx k (Req key now _ # es) crowded e =
     (if key \<noteq> k then ref_log w mx k es crowded e
      else if hd crowded then False # ref_log w mx k es (tl crowded) e
      else (let (ok, e1) = ref_hit w mx now e in ok # ref_log w mx k es (tl crowded) e1))"
| "ref_log w mx k (Sweep _ # es) crowded e = ref_log w mx k es crowded e"

definition limiter_ok :: "rate_limiter \<Rightarrow> bool" where
  "limiter_ok l \<longleftrightarrow> distinct (map fst (windows l)) \<and> length (windows l) \<le> MAX_TRACKED_KEYS \<and>
     (\<forall>(k, start, count) \<in> set (windows l). count \<le> max 1 (max_requests l))"

text \<open>
  What client \<open>k\<close> can still be granted during the interval that starts at \<open>a\<close>: the rest of a
  window opened within it, or the rest of an older window and one whole new one.
\<close>

definition budget :: "nat \<Rightarrow> string \<Rightarrow> rate_limiter \<Rightarrow> nat" where
  "budget a k l =
     (case map_of (windows l) k of
        None \<Rightarrow> unat (max_requests l)
      | Some (start, c) \<Rightarrow>
          unat (max_requests l) - unat c + (if a \<le> start then 0 else unat (max_requests l)))"

text \<open>
  At time \<open>now\<close> the entry in the map and the entry of the reference limiter agree, or the map
  has dropped an entry that has expired: the next request is decided alike.
\<close>

definition same_decisions :: "nat \<Rightarrow> nat \<Rightarrow> (nat \<times> u32) option \<Rightarrow> (nat \<times> u32) option \<Rightarrow> bool" where
  "same_decisions w now e r \<longleftrightarrow>
     e = r \<or> e = None \<and> (case r of None \<Rightarrow> True | Some (start, _) \<Rightarrow> w \<le> now - start)"

section \<open>Lemmas\<close>

subsection \<open>Association lists\<close>

lemma map_of_set_entry [simp]:
  "map_of (windows (set_entry k e l)) j = (if j = k then Some e else map_of (windows l) j)"
  by (simp add: set_entry_def update_conv)

lemma set_entry_fields [simp]:
  "max_requests (set_entry k e l) = max_requests l" "window (set_entry k e l) = window l"
  by (simp_all add: set_entry_def)

lemma sweep_fields [simp]:
  "max_requests (sweep t l) = max_requests l" "window (sweep t l) = window l"
  by (simp_all add: sweep_def)

lemma map_of_filter_distinct:
  "distinct (map fst xs) \<Longrightarrow>
     map_of (filter (\<lambda>(k, v). P v) xs) j = (case map_of xs j of None \<Rightarrow> None | Some v \<Rightarrow> if P v then Some v else None)"
proof (induction xs)
  case (Cons x xs)
  obtain k v where x: "x = (k, v)" by (cases x)
  have "map_of (filter (\<lambda>(k, v). P v) xs) k = None" if "map_of xs k = None"
    using that by (auto simp: map_of_eq_None_iff)
  with Cons x show ?case by (auto simp: map_of_eq_None_iff split: option.splits)
qed simp

lemma map_of_sweep:
  assumes "distinct (map fst (windows l))"
  shows "map_of (windows (sweep t l)) j =
    (case map_of (windows l) j of None \<Rightarrow> None
     | Some (start, c) \<Rightarrow> if t - start < window l then Some (start, c) else None)"
proof -
  have "windows (sweep t l) = filter (\<lambda>(k, v). (\<lambda>(start, c). t - start < window l) v) (windows l)"
    by (auto simp: sweep_def intro: filter_cong)
  then show ?thesis
    using map_of_filter_distinct [OF assms, where P = "\<lambda>(start, c). t - start < window l"]
    by (auto split: option.splits)
qed

lemma update_length:
  "length (AList.update k v xs) = (if map_of xs k = None then Suc (length xs) else length xs)"
  by (induction xs) auto

lemma update_set: "set (AList.update k v xs) \<subseteq> insert (k, v) (set xs)"
  by (induction xs) auto

subsection \<open>The shared limiter is a family of single-client limiters\<close>

lemma hit_fields:
  "hit k now l = (ok, l') \<Longrightarrow> max_requests l' = max_requests l \<and> window l' = window l"
  by (auto simp: hit_def Let_def split: option.splits prod.splits if_splits)

lemma hit_ref:
  "hit k now l = (ok, l') \<Longrightarrow>
     ref_hit (window l) (max_requests l) now (map_of (windows l) k) = (ok, map_of (windows l') k)"
  by (auto simp: hit_def ref_hit_def Let_def split: option.splits prod.splits if_splits)

lemma hit_others: "hit k now l = (ok, l') \<Longrightarrow> j \<noteq> k \<Longrightarrow> map_of (windows l') j = map_of (windows l) j"
  by (auto simp: hit_def Let_def split: option.splits prod.splits if_splits)

lemma check_cases:
  assumes "check k now sw l = (ok, l')"
  obtains (refused) "\<not> ok" "l' = sweep sw l" "map_of (windows l) k = None"
      "MAX_TRACKED_KEYS \<le> length (windows l)" "MAX_TRACKED_KEYS \<le> length (windows l')"
  | (swept) "hit k now (sweep sw l) = (ok, l')" "map_of (windows l) k = None"
      "length (windows (sweep sw l)) < MAX_TRACKED_KEYS"
  | (direct) "hit k now l = (ok, l')"
      "map_of (windows l) k \<noteq> None \<or> length (windows l) < MAX_TRACKED_KEYS"
proof (cases "map_of (windows l) k = None \<and> length (windows l) \<ge> MAX_TRACKED_KEYS")
  case False
  then have "hit k now l = (ok, l')" using assms by (auto simp: check_def check_at_def)
  then show ?thesis using False direct by (simp add: not_le)
next
  case True
  show ?thesis
  proof (cases "length (windows (sweep sw l)) \<ge> MAX_TRACKED_KEYS")
    case full: True
    then have "(ok, l') = (False, sweep sw l)"
      using assms True by (simp add: check_def check_at_def Let_def)
    then show ?thesis using True full refused by simp
  next
    case False
    then have "hit k now (sweep sw l) = (ok, l')"
      using assms True by (simp add: check_def check_at_def Let_def)
    then show ?thesis using True False swept by simp
  qed
qed

subsection \<open>Well-formedness\<close>

lemma limiter_ok_set_entry:
  assumes "limiter_ok l" and "count \<le> max 1 (max_requests l)"
    and "map_of (windows l) k \<noteq> None \<or> length (windows l) < MAX_TRACKED_KEYS"
  shows "limiter_ok (set_entry k (start, count) l)"
  using assms update_set [of k "(start, count)" "windows l"]
  by (auto simp: limiter_ok_def set_entry_def update_length distinct_update)

lemma limiter_ok_sweep: "limiter_ok l \<Longrightarrow> limiter_ok (sweep t l)"
  by (auto simp: limiter_ok_def sweep_def distinct_map_filter intro: le_trans [OF length_filter_le])

lemma limiter_ok_hit:
  assumes "limiter_ok l" and "hit k now l = (ok, l')"
    and "map_of (windows l) k \<noteq> None \<or> length (windows l) < MAX_TRACKED_KEYS"
  shows "limiter_ok l'"
proof -
  obtain l1 start count where entry: "(case map_of (windows l) k of
      Some e \<Rightarrow> (l, e) | None \<Rightarrow> (set_entry k (now, 0) l, (now, 0))) = (l1, start, count)"
    by (metis prod.collapse)
  have l1: "limiter_ok l1" "map_of (windows l1) k \<noteq> None" "max_requests l1 = max_requests l"
    using entry assms(1,3) by (auto split: option.splits intro: limiter_ok_set_entry)
  have upd: "limiter_ok (set_entry k (st, c) l1)" if "c \<le> max 1 (max_requests l)" for st c
    using limiter_ok_set_entry [OF l1(1)] l1(2,3) that by simp
  consider "l' = set_entry k (now, 1) l1" | "l' = l1"
    | "l' = set_entry k (start, count + 1) l1" "count < max_requests l"
    using assms(2) entry by (auto simp: hit_def Let_def not_le split: if_splits)
  then show ?thesis
    using upd [of 1 now] upd [of "count + 1" start] inc_le [of count "max_requests l"] l1(1)
    by cases (simp_all add: max.coboundedI2)
qed

lemma limiter_ok_check: "limiter_ok l \<Longrightarrow> check k now sw l = (ok, l') \<Longrightarrow> limiter_ok l'"
  by (erule check_cases) (auto intro: limiter_ok_sweep limiter_ok_hit)

lemma check_fields:
  "check k now sw l = (ok, l') \<Longrightarrow> max_requests l' = max_requests l \<and> window l' = window l"
  by (erule check_cases) (auto dest: hit_fields)

lemma limiter_ok_run: "limiter_ok l \<Longrightarrow> limiter_ok (snd (run_events es l))"
  by (induction es l rule: run_events.induct)
    (auto dest: limiter_ok_check limiter_ok_sweep split: prod.splits)

lemma limiter_ok_new: "limiter_ok (limiter_new m w)"
  by (simp add: limiter_ok_def limiter_new_def)

subsection \<open>The budget\<close>

lemma budget_sweep:
  assumes "limiter_ok l" and "0 < window l" and "t < a + window l"
  shows "budget a k (sweep t l) \<le> budget a k l"
proof -
  have "distinct (map fst (windows l))" using assms(1) by (simp add: limiter_ok_def)
  note entry = map_of_sweep [OF this, of t k]
  show ?thesis
  proof (cases "map_of (windows l) k")
    case None
    with entry show ?thesis by (simp add: budget_def)
  next
    case (Some e)
    obtain start c where e: "e = (start, c)" by (cases e)
    have "start < a" if "\<not> t - start < window l" using that assms(2,3) by linarith
    with Some e entry show ?thesis by (cases "t - start < window l") (simp_all add: budget_def)
  qed
qed

lemma budget_hit_other:
  assumes "hit j now l = (ok, l')" and "j \<noteq> k"
  shows "budget a k l' = budget a k l"
proof -
  have "max_requests l' = max_requests l" using hit_fields [OF assms(1)] by simp
  moreover have "map_of (windows l') k = map_of (windows l) k"
    using hit_others [OF assms(1)] assms(2) by simp
  ultimately show ?thesis by (auto simp: budget_def split: option.split)
qed

lemma budget_hit_own:
  assumes "hit k now l = (ok, l')" and "0 < max_requests l" and "0 < window l"
    and "a \<le> now" and "now < a + window l"
  shows "(if ok then 1 else 0) + budget a k l' \<le> budget a k l"
proof -
  let ?M = "unat (max_requests l)"
  have M: "0 < ?M" using assms(2) by (simp add: word_less_nat_alt)
  have inc: "unat (c + 1) = Suc (unat c) \<and> unat c < ?M" if "c < max_requests l" for c
    using that unsigned_less [where 'a = nat, of "max_requests l"] by (simp add: word_less_nat_alt unat_word_ariths)
  note ref = hit_ref [OF assms(1)] and fields = hit_fields [OF assms(1)]
  show ?thesis
  proof (cases "map_of (windows l) k")
    case None
    with ref assms(2,3) have "ok \<and> map_of (windows l') k = Some (now, 1)"
      by (auto simp: ref_hit_def split: if_splits)
    with None M fields assms(4) show ?thesis by (simp add: budget_def)
  next
    case (Some e)
    obtain start c where e: "e = (start, c)" by (cases e)
    consider (expired) "window l \<le> now - start" | (over) "now - start < window l" "max_requests l \<le> c"
      | (admit) "now - start < window l" "c < max_requests l"
      by (meson not_le)
    then show ?thesis
    proof cases
      case expired
      with assms(4,5) have "start < a" by linarith
      moreover from expired Some e ref have "ok \<and> map_of (windows l') k = Some (now, 1)"
        by (auto simp: ref_hit_def)
      ultimately show ?thesis using Some e M fields assms(4) by (simp add: budget_def)
    next
      case over
      with Some e ref have "\<not> ok \<and> map_of (windows l') k = Some (start, c)"
        by (auto simp: ref_hit_def)
      with Some e fields show ?thesis by (simp add: budget_def)
    next
      case admit
      with Some e ref have "ok \<and> map_of (windows l') k = Some (start, c + 1)"
        by (auto simp: ref_hit_def split: if_splits)
      with admit Some e inc [OF admit(2)] fields show ?thesis by (simp add: budget_def) linarith
    qed
  qed
qed

lemma budget_check:
  assumes "limiter_ok l" and "check j now sw l = (ok, l')"
    and "0 < max_requests l" and "0 < window l" and "within a (window l) (Req j now sw)"
  shows "(if j = k \<and> ok then 1 else 0) + budget a k l' \<le> budget a k l"
proof -
  have hit: "(if j = k \<and> ok then 1 else 0) + budget a k l' \<le> budget a k l1"
    if "hit j now l1 = (ok, l')" "max_requests l1 = max_requests l" "window l1 = window l" for l1
    using that assms(3-5) budget_hit_own [of j now l1 ok l' a] budget_hit_other [of j now l1 ok l' k a]
    by (cases "j = k") simp_all
  have swept: "budget a k (sweep sw l) \<le> budget a k l"
    using assms(5) by (intro budget_sweep [OF assms(1,4)]) simp
  from assms(2) show ?thesis
  proof (cases rule: check_cases)
    case refused
    then show ?thesis using swept by simp
  next
    case swept': swept
    then show ?thesis using hit [of "sweep sw l"] swept by simp
  next
    case direct
    then show ?thesis using hit [of l] by simp
  qed
qed

lemma budget_run:
  assumes "limiter_ok l" and "0 < max_requests l" and "0 < window l"
    and "list_all (within a (window l)) es"
  shows "admitted k (fst (run_events es l)) + budget a k (snd (run_events es l)) \<le> budget a k l"
  using assms
proof (induction es l rule: run_events.induct)
  case (2 key now sw es l)
  obtain ok l1 where c: "check key now sw l = (ok, l1)" by (cases "check key now sw l")
  have fields: "max_requests l1 = max_requests l" "window l1 = window l"
    using check_fields [OF c] by simp_all
  have "limiter_ok l1" using limiter_ok_check "2.prems"(1) c by blast
  then have IH: "admitted k (fst (run_events es l1)) + budget a k (snd (run_events es l1)) \<le> budget a k l1"
    using "2.IH" [OF c [symmetric] refl] "2.prems" fields by simp
  have "(if key = k \<and> ok then 1 else 0) + budget a k l1 \<le> budget a k l"
    using budget_check [OF "2.prems"(1) c "2.prems"(2,3)] "2.prems"(4) by simp
  with IH c show ?case by (auto simp: admitted_def split: prod.splits if_splits)
next
  case (3 t es l)
  then have "budget a k (sweep t l) \<le> budget a k l" by (intro budget_sweep) simp_all
  moreover have "limiter_ok (sweep t l)" using 3 limiter_ok_sweep by blast
  ultimately show ?case using 3 by (auto intro: le_trans)
qed (simp add: admitted_def)

lemma budget_le: "budget a k l \<le> 2 * unat (max_requests l)"
  by (auto simp: budget_def split: option.split)

subsection \<open>Sweeping does not change a decision\<close>

lemma same_decisions_later: "same_decisions w now e r \<Longrightarrow> now \<le> t \<Longrightarrow> same_decisions w t e r"
  by (auto simp: same_decisions_def split: option.splits)

lemma same_decisions_sweep:
  assumes "limiter_ok l" and "same_decisions (window l) t (map_of (windows l) k) r"
  shows "same_decisions (window l) t (map_of (windows (sweep t l)) k) r"
proof -
  have "distinct (map fst (windows l))" using assms(1) by (simp add: limiter_ok_def)
  from map_of_sweep [OF this, of t k] assms(2) show ?thesis
    by (auto simp: same_decisions_def split: option.splits if_splits)
qed

lemma same_decisions_ref_hit:
  assumes "same_decisions w now e r" and "0 < mx" and "0 < w"
  shows "ref_hit w mx now e = ref_hit w mx now r"
  using assms by (auto simp: same_decisions_def ref_hit_def split: option.splits)

lemma check_roomy:
  "length (windows l) < MAX_TRACKED_KEYS \<Longrightarrow> check k now sw l = hit k now l"
  by (simp add: check_def check_at_def)

lemma hit_length: "hit k now l = (ok, l') \<Longrightarrow> length (windows l') \<le> Suc (length (windows l))"
  by (auto simp: hit_def Let_def set_entry_def update_length split: option.splits prod.splits if_splits)

lemma sweep_length: "length (windows (sweep t l)) \<le> length (windows l)"
  by (simp add: sweep_def)

lemma decisions_for_append:
  "map snd (filter (\<lambda>r. fst r = k) ((j, ok) # log)) =
     (if j = k then [ok] else []) @ map snd (filter (\<lambda>r. fst r = k) log)"
  by simp

text \<open>One request, seen from client \<open>k\<close>: its own is decided by its own limiter unless it is crowded out.\<close>

lemma check_own:
  assumes "check k now sw l = (ok, l1)" and "limiter_ok l"
  shows "if crowded_out k sw l then \<not> ok \<and> map_of (windows l1) k = None
    else ref_hit (window l) (max_requests l) now (map_of (windows l) k) = (ok, map_of (windows l1) k)"
proof -
  have gone: "map_of (windows (sweep sw l)) k = None" if "map_of (windows l) k = None"
    using map_of_sweep [of l sw k] assms(2) that by (simp add: limiter_ok_def)
  from assms(1) show ?thesis
  proof (cases rule: check_cases)
    case refused
    then show ?thesis using gone by (simp add: crowded_out_def)
  next
    case swept
    then show ?thesis using gone hit_ref [OF swept(1)] by (simp add: crowded_out_def)
  next
    case direct
    then have "\<not> crowded_out k sw l" using sweep_length [of sw l] by (auto simp: crowded_out_def)
    then show ?thesis using hit_ref [OF direct(1)] by simp
  qed
qed

lemma check_other:
  assumes "check key now sw l = (ok, l1)" and "limiter_ok l" and "key \<noteq> k"
    and "same_decisions (window l) sw (map_of (windows l) k) r"
  shows "same_decisions (window l) sw (map_of (windows l1) k) r"
  using assms(1)
proof (cases rule: check_cases)
  case refused
  then show ?thesis using same_decisions_sweep [OF assms(2,4)] by simp
next
  case swept
  then show ?thesis using same_decisions_sweep [OF assms(2,4)] hit_others [OF swept(1)] assms(3) by simp
next
  case direct
  then show ?thesis using assms(3,4) hit_others [OF direct(1)] by simp
qed

lemma ref_log_simulation:
  assumes "limiter_ok l" and "0 < max_requests l" and "0 < window l" and "timeline t es"
    and "same_decisions (window l) t (map_of (windows l) k) r"
  shows "map snd (filter (\<lambda>d. fst d = k) (fst (run_events es l))) =
         ref_log (window l) (max_requests l) k es (crowded_log k es l) r"
  using assms
proof (induction es l arbitrary: t r rule: run_events.induct)
  case (2 key now sw es l)
  obtain ok l1 where c: "check key now sw l = (ok, l1)" by (cases "check key now sw l")
  have fields: "max_requests l1 = max_requests l" "window l1 = window l"
    using check_fields [OF c] by simp_all
  have ok1: "limiter_ok l1" using limiter_ok_check [OF "2.prems"(1) c] .
  have times: "t \<le> now" "now \<le> sw" "timeline sw es" using "2.prems"(4) by simp_all
  have same: "same_decisions (window l) now (map_of (windows l) k) r"
    using same_decisions_later [OF "2.prems"(5) times(1)] .
  have later: "same_decisions (window l) sw (map_of (windows l) k) r"
    using same_decisions_later [OF same times(2)] .
  have IH: "map snd (filter (\<lambda>d. fst d = k) (fst (run_events es l1))) =
      ref_log (window l) (max_requests l) k es (crowded_log k es l1) r'"
    if "same_decisions (window l) sw (map_of (windows l1) k) r'" for r'
    using "2.IH" [OF c [symmetric] refl ok1 _ _ times(3)] that "2.prems"(2,3) fields by simp
  show ?case
  proof (cases "key = k")
    case True
    show ?thesis
    proof (cases "crowded_out k sw l")
      case out: True
      then have "\<not> ok" "map_of (windows l1) k = None" "map_of (windows l) k = None"
        using check_own [of k now sw l ok l1] c True "2.prems"(1) by (simp_all add: crowded_out_def)
      then show ?thesis using IH [of r] later True out c by (auto split: prod.split)
    next
      case False
      then have "ref_hit (window l) (max_requests l) now r = (ok, map_of (windows l1) k)"
        using check_own [of k now sw l ok l1] c True "2.prems"(1)
          same_decisions_ref_hit [OF same "2.prems"(2,3)] by simp
      then show ?thesis using IH [of "map_of (windows l1) k"] True False c
        by (auto simp: same_decisions_def split: prod.split)
    qed
  next
    case False
    from IH [OF check_other [OF c "2.prems"(1) False later]] False c
    show ?thesis by (auto split: prod.split)
  qed
next
  case (3 u es l)
  have "same_decisions (window l) u (map_of (windows l) k) r"
    using same_decisions_later "3.prems"(4,5) by simp
  from same_decisions_sweep [OF "3.prems"(1) this]
  show ?case
    using "3.IH" [of u r] "3.prems" limiter_ok_sweep [of l u] by simp
qed simp

lemma check_length: "check k now sw l = (ok, l') \<Longrightarrow> length (windows l') \<le> Suc (length (windows l))"
  by (erule check_cases) (use sweep_length [of sw l] hit_length in \<open>fastforce dest: hit_length\<close>)+

lemma crowded_log_room:
  "length (windows l) + length es \<le> MAX_TRACKED_KEYS \<Longrightarrow> True \<notin> set (crowded_log k es l)"
proof (induction es arbitrary: l)
  case (Cons e es)
  show ?case
  proof (cases e)
    case (Req key now sw)
    obtain ok l1 where c: "check key now sw l = (ok, l1)" by (cases "check key now sw l")
    have "\<not> crowded_out key sw l" using Cons.prems sweep_length [of sw l] by (auto simp: crowded_out_def)
    then show ?thesis using Req c check_length [OF c] Cons.IH [of l1] Cons.prems by auto
  next
    case (Sweep t)
    then show ?thesis using sweep_length [of t l] Cons.IH [of "sweep t l"] Cons.prems by auto
  qed
qed simp

section \<open>Properties\<close>

text \<open>
  C15. The rate limiter bounds what a client gets, whatever it sends and whatever the other clients
  and the sweeps do: in any stretch of time no longer than one window, a client is admitted at
  most twice the configured number of times (the rest of a window opened earlier, and one new
  window), and at most the configured number when no window of it is being tracked.
\<close>

theorem rate_limit_budget:
  assumes "limiter_ok l" and "0 < max_requests l" and "0 < window l"
    and "list_all (within a (window l)) es"
  shows "admitted k (fst (run_events es l)) \<le>
    (if map_of (windows l) k = None then 1 else 2) * unat (max_requests l)"
  using budget_run [OF assms, of k] budget_le [of a k l]
  by (auto simp: budget_def)

text \<open>Two requests of a window that holds one, with another client and a sweep between them.\<close>

theorem rate_limit_budget_witness:
  "admitted ''a'' (fst (run_events [Req ''a'' 5 5, Req ''b'' 6 6, Sweep 7, Req ''a'' 8 8]
     (limiter_new 1 60))) \<le> 1"
  using rate_limit_budget [of "limiter_new 1 60" 5
      "[Req ''a'' 5 5, Req ''b'' 6 6, Sweep 7, Req ''a'' 8 8]" "''a''"]
    limiter_ok_new [of 1 60]
  by (simp add: limiter_new_def)

text \<open>
  C16. Isolation: whatever the other clients send and the sweeps do, every decision a client sees is
  that of a limiter of its own that nobody else touches, except that a request is refused, and
  not counted, when the client is not tracked while as many others as the map holds have windows
  that are still running. While the map has room that does not happen.
\<close>

theorem rate_limit_isolation:
  assumes "limiter_ok l" and "0 < max_requests l" and "0 < window l" and "timeline t es"
  shows "map snd (filter (\<lambda>d. fst d = k) (fst (run_events es l))) =
      ref_log (window l) (max_requests l) k es (crowded_log k es l) (map_of (windows l) k) \<and>
    (length (windows l) + length es \<le> MAX_TRACKED_KEYS \<longrightarrow> True \<notin> set (crowded_log k es l))"
  using assms ref_log_simulation [of l t es k "map_of (windows l) k"] crowded_log_room [of l es k]
  by (simp add: same_decisions_def)

theorem rate_limit_isolation_witness:
  "map snd (filter (\<lambda>d. fst d = ''a'') (fst (run_events
      [Req ''a'' 5 5, Req ''b'' 6 6, Req ''a'' 7 7, Sweep 66, Req ''a'' 67 67] (limiter_new 1 60)))) =
   [True, False, True]"
proof -
  have "crowded_log ''a'' [Req ''a'' 5 5, Req ''b'' 6 6, Req ''a'' 7 7, Sweep 66, Req ''a'' 67 67] (limiter_new 1 60)
      = [False, False, False]"
    using crowded_log_room [of "limiter_new 1 60"
        "[Req ''a'' 5 5, Req ''b'' 6 6, Req ''a'' 7 7, Sweep 66, Req ''a'' 67 67]" "''a''"]
    by (simp add: limiter_new_def MAX_TRACKED_KEYS_def)
  then show ?thesis
    using rate_limit_isolation [of "limiter_new 1 60" 0
        "[Req ''a'' 5 5, Req ''b'' 6 6, Req ''a'' 7 7, Sweep 66, Req ''a'' 67 67]" "''a''"]
      limiter_ok_new [of 1 60]
    by (simp add: limiter_new_def ref_hit_def)
qed

text \<open>
  The limiter's memory is bounded and its counters stay in range: from a new limiter, after any
  requests and sweeps at any times, at most \<^verbatim>\<open>MAX_TRACKED_KEYS\<close> clients are tracked, each once, and
  no counter exceeds the limit (one, when the limit is zero), so that it never overflows.
\<close>

lemma limiter_memory_bounded:
  "length (windows (snd (run_events es (limiter_new m w)))) \<le> MAX_TRACKED_KEYS \<and>
   distinct (map fst (windows (snd (run_events es (limiter_new m w))))) \<and>
   list_all (\<lambda>(_, _, count). count \<le> max 1 m) (windows (snd (run_events es (limiter_new m w))))"
proof -
  have "max_requests (snd (run_events es l)) = max_requests l" for l
    by (induction es l rule: run_events.induct) (auto dest: check_fields split: prod.splits)
  then show ?thesis
    using limiter_ok_run [OF limiter_ok_new, of es m w]
    by (simp add: limiter_ok_def list_all_iff limiter_new_def)
qed

text \<open>
  A limit of zero is not a block: a client whose window has run out is admitted, once per
  window, although its very first request is refused.
\<close>

lemma zero_limit_admits:
  "fst (run_events [Req k t t, Req k (t + w) (t + w)] (limiter_new 0 w)) = [(k, w = 0), (k, True)]"
  by (simp add: limiter_new_def check_roomy MAX_TRACKED_KEYS_def hit_def set_entry_def)

text \<open>
  Whose budget a request uses: behind no trusted proxy, the peer's, whatever headers it sends;
  behind one that appends the address it saw to the single \<^verbatim>\<open>X-Forwarded-For\<close> line, that
  address, whatever the client put before it.
\<close>

lemma client_key_unspoofable:
  assumes "to_str line = Some (forged @ CHR '','' # '' '' @ seen)"
    and "map_of headers ''x-forwarded-for'' = Some line"
    and "seen \<noteq> []" and "trim ('' '' @ seen) = seen" and "CHR '','' \<notin> set seen"
  shows "client_key to_str headers peer True = seen \<and> client_key to_str headers peer False = peer"
  using assms by (simp add: client_key_def header_text_def non_empty_def last_split_on)

text \<open>A client that claims to be two other hosts is limited as the address its proxy saw.\<close>

lemma client_key_unspoofable_witness:
  "client_key (\<lambda>b. Some (map (\<lambda>w. char_of (unat w)) b))
     [(''x-forwarded-for'', [49, 44, 50, 44, 32, 57])] ''10.0.0.1'' True = ''9''"
  using client_key_unspoofable [of "\<lambda>b. Some (map (\<lambda>w. char_of (unat w)) b)"
      "[49, 44, 50, 44, 32, 57]" "''1,2''" "''9''"
      "[(''x-forwarded-for'', [49, 44, 50, 44, 32, 57])]" "''10.0.0.1''"]
  by code_simp

end
