(* ===== verification/Http_Api.thy ===== *)
theory Http_Api
  imports Data_Services Rate_Limit
begin

text \<open>
  The HTTP surface: \<^verbatim>\<open>src/state.rs\<close>, the handlers of \<^verbatim>\<open>src/api/*.rs\<close>, the route table and the
  order of the application's own middleware in \<^verbatim>\<open>src/api/router.rs\<close>, and
  \<^verbatim>\<open>src/middleware/security_headers.rs\<close>.

  A request comes as axum hands it on: the endpoint its path and method select, with what the
  extractors made of it, which is the decoded input or the status of axum's rejection. A
  request that selects no handler is \<open>Unrouted\<close>. Of the layers that come ready-made from
  tower-http the timeout is modelled, since it cuts a handler off between two statements; the
  others (body limit, CORS, request identifiers, tracing) are not.
\<close>

section \<open>Definitions\<close>

subsection \<open>State\<close>

record server =
  sv_store :: store
  sv_limiter :: rate_limiter
  sv_auth_limiter :: rate_limiter
  sv_metrics :: metrics

text \<open>\<^verbatim>\<open>AppState::new\<close>: the immutable part goes into the record \<open>app\<close>. Durations are microseconds.\<close>

definition secs :: "u64 \<Rightarrow> nat" where
  "secs n = unat n * 1000000"

definition app_state_new :: "'h app \<Rightarrow> config \<Rightarrow> store \<Rightarrow> 'h app \<times> server" where
  "app_state_new libs c pool =
     (libs\<lparr>app_config := c, app_jwt := jwt_new (as_bytes (jwt_secret c)) (access_token_ttl c)\<rparr>,
      \<lparr>sv_store = pool,
       sv_limiter = limiter_new (rate_limit_requests c) (secs (rate_limit_window c)),
       sv_auth_limiter = limiter_new (auth_rate_limit_requests c) (secs (rate_limit_window c)),
       sv_metrics = metrics_default\<rparr>)"

subsection \<open>Responses\<close>

record register_response =
  rg_id :: uuid
  rg_email :: string

record me_response =
  me_id :: uuid
  me_email :: string
  me_display_name :: "string option"
  me_created_at :: timestamp

definition me_response_of :: "user \<Rightarrow> me_response" where
  "me_response_of u = \<lparr>me_id = u_id u, me_email = u_email u, me_display_name = u_display_name u,
     me_created_at = u_created_at u\<rparr>"

record health_response =
  he_status :: string
  he_version :: string
  he_database :: string

datatype response_body =
    No_body
  | Registered register_response
  | Tokens token_response
  | Profile me_response
  | Conversations "conversation_response list"
  | A_conversation conversation_response
  | Messages "message_response list"
  | A_message message_response
  | Keys "key_response list"
  | A_key key_response
  | Health health_response
  | Plain string
  | Html string
  | Json_document string
  | Error_body error_detail
  | Switching_protocols

record response =
  rs_status :: nat
  rs_headers :: "(string \<times> string) list"
  rs_body :: response_body

definition reply :: "nat \<Rightarrow> response_body \<Rightarrow> response" where
  "reply status b = \<lparr>rs_status = status, rs_headers = [], rs_body = b\<rparr>"

definition error_response :: "app_error \<Rightarrow> response" where
  "error_response e = (case into_response e of (_, status, detail) \<Rightarrow> reply status (Error_body detail))"

text \<open>A handler's \<^verbatim>\<open>AppResult\<close> becomes a response.\<close>

definition response_of :: "app_error + response \<Rightarrow> response" where
  "response_of r = (case r of Inl e \<Rightarrow> error_response e | Inr x \<Rightarrow> x)"

subsection \<open>Requests\<close>

type_synonym 'a extracted = "nat + 'a"

datatype endpoint =
    Register "register_request extracted"
  | Login "(string \<times> string) extracted"
  | Refresh "string extracted"
  | Logout
  | Me
  | Get_conversations
  | Post_conversation "conversation_request extracted"
  | Put_conversation "(uuid \<times> conversation_request) extracted"
  | Delete_conversation_at "uuid extracted"
  | Get_messages "list_messages_query extracted"
  | Post_message "create_message_request extracted"
  | Delete_message_at "uuid extracted"
  | Get_keys
  | Post_key "create_key_request extracted"
  | Get_health
  | Get_metrics
  | Get_stream "string extracted"
  | Get_openapi_json
  | Get_docs
  | Unrouted nat

record request =
  rq_endpoint :: endpoint
  rq_headers :: "(string \<times> bytes) list"
  rq_peer :: string
  rq_instant :: nat
  rq_lag :: nat
  rq_elapsed :: nat
  rq_uptime :: nat

text \<open>
  What every handler needs: the application, its libraries, \<^verbatim>\<open>HeaderValue::to_str\<close>, and the JSON
  text that utoipa makes of the document.
\<close>

record ('h, 'pt) site =
  st_app :: "'h app"
  st_lib :: "'pt data_lib"
  st_to_str :: "bytes \<Rightarrow> string option"
  st_api_doc :: string

definition with_extracted :: "'a extracted \<Rightarrow> ('a \<Rightarrow> response service) \<Rightarrow> response service" where
  "with_extracted x f = (case x of Inl status \<Rightarrow> okE (reply status No_body) | Inr a \<Rightarrow> f a)"

definition signed_in :: "('h, 'pt) site \<Rightarrow> request \<Rightarrow> (auth_user \<Rightarrow> response service) \<Rightarrow> response service" where
  "signed_in site rq f = bindE (from_request_parts (st_app site) (st_to_str site) (rq_headers rq)) f"

subsection \<open>Handlers\<close>

definition request_meta :: "('h, 'pt) site \<Rightarrow> request \<Rightarrow> client_meta" where
  "request_meta site rq =
     \<lparr>user_agent = map_option (\<lambda>v. concat (take 255 (chars v)))
        (header_text (st_to_str site) (rq_headers rq) ''user-agent''),
      ip_address = Some (rq_peer rq)\<rparr>"

definition api_register :: "('h, 'pt) site \<Rightarrow> request \<Rightarrow> register_request extracted \<Rightarrow> response service" where
  "api_register site rq x = with_extracted x (\<lambda>r.
     bindE (register (st_app site) r (request_meta site rq)) (\<lambda>user.
     okE (reply 201 (Registered \<lparr>rg_id = u_id user, rg_email = u_email user\<rparr>))))"

definition api_login :: "('h, 'pt) site \<Rightarrow> request \<Rightarrow> (string \<times> string) extracted \<Rightarrow> response service" where
  "api_login site rq x = with_extracted x (\<lambda>(email, password).
     bindE (login (st_app site) email password (request_meta site rq)) (\<lambda>tokens.
     okE (reply 200 (Tokens tokens))))"

definition api_refresh :: "('h, 'pt) site \<Rightarrow> request \<Rightarrow> string extracted \<Rightarrow> response service" where
  "api_refresh site rq x = with_extracted x (\<lambda>token.
     bindE (refresh (st_app site) token (request_meta site rq)) (\<lambda>tokens.
     okE (reply 200 (Tokens tokens))))"

definition api_logout :: "('h, 'pt) site \<Rightarrow> request \<Rightarrow> response service" where
  "api_logout site rq = signed_in site rq (\<lambda>user.
     bindE (logout (au_user_id user) (au_session_id user) (request_meta site rq)) (\<lambda>_.
     okE (reply 204 No_body)))"

definition api_me :: "('h, 'pt) site \<Rightarrow> request \<Rightarrow> response service" where
  "api_me site rq = signed_in site rq (\<lambda>user.
     bindE (db (find_by_id (au_user_id user))) (\<lambda>found.
     bindE (liftE (ok_or Unauthorized found)) (\<lambda>record.
     okE (reply 200 (Profile (me_response_of record))))))"

definition api_list_conversations :: "('h, 'pt) site \<Rightarrow> request \<Rightarrow> response service" where
  "api_list_conversations site rq = signed_in site rq (\<lambda>user.
     bindE (conversations_list (au_user_id user)) (\<lambda>items.
     okE (reply 200 (Conversations (map conversation_response_of items)))))"

definition api_create_conversation ::
  "('h, 'pt) site \<Rightarrow> request \<Rightarrow> conversation_request extracted \<Rightarrow> response service" where
  "api_create_conversation site rq x = signed_in site rq (\<lambda>user. with_extracted x (\<lambda>r.
     bindE (conversations_create (au_user_id user) r) (\<lambda>c.
     okE (reply 201 (A_conversation (conversation_response_of c))))))"

definition api_update_conversation ::
  "('h, 'pt) site \<Rightarrow> request \<Rightarrow> (uuid \<times> conversation_request) extracted \<Rightarrow> response service" where
  "api_update_conversation site rq x = signed_in site rq (\<lambda>user. with_extracted x (\<lambda>(i, r).
     bindE (conversations_change (au_user_id user) i r) (\<lambda>c.
     okE (reply 200 (A_conversation (conversation_response_of c))))))"

definition api_delete_conversation :: "('h, 'pt) site \<Rightarrow> request \<Rightarrow> uuid extracted \<Rightarrow> response service" where
  "api_delete_conversation site rq x = signed_in site rq (\<lambda>user. with_extracted x (\<lambda>i.
     bindE (conversations_delete (au_user_id user) i) (\<lambda>_. okE (reply 204 No_body))))"

definition api_list_messages :: "('h, 'pt) site \<Rightarrow> request \<Rightarrow> list_messages_query extracted \<Rightarrow> response service" where
  "api_list_messages site rq x = signed_in site rq (\<lambda>user. with_extracted x (\<lambda>q.
     bindE (messages_list (au_user_id user) q) (\<lambda>items.
     okE (reply 200 (Messages (map (message_response_of (st_lib site)) items))))))"

definition api_create_message ::
  "('h, 'pt) site \<Rightarrow> request \<Rightarrow> create_message_request extracted \<Rightarrow> response service" where
  "api_create_message site rq x = signed_in site rq (\<lambda>user. with_extracted x (\<lambda>r.
     bindE (messages_create (st_lib site) (au_user_id user) r) (\<lambda>m.
     okE (reply 201 (A_message (message_response_of (st_lib site) m))))))"

definition api_delete_message :: "('h, 'pt) site \<Rightarrow> request \<Rightarrow> uuid extracted \<Rightarrow> response service" where
  "api_delete_message site rq x = signed_in site rq (\<lambda>user. with_extracted x (\<lambda>i.
     bindE (messages_delete (au_user_id user) i) (\<lambda>_. okE (reply 204 No_body))))"

definition api_list_keys :: "('h, 'pt) site \<Rightarrow> request \<Rightarrow> response service" where
  "api_list_keys site rq = signed_in site rq (\<lambda>user.
     bindE (keys_list (au_user_id user)) (\<lambda>items.
     okE (reply 200 (Keys (map (key_response_of (st_lib site)) items)))))"

definition api_create_key :: "('h, 'pt) site \<Rightarrow> request \<Rightarrow> create_key_request extracted \<Rightarrow> response service" where
  "api_create_key site rq x = signed_in site rq (\<lambda>user. with_extracted x (\<lambda>r.
     bindE (keys_upload (st_lib site) (au_user_id user) r) (\<lambda>k.
     okE (reply 201 (A_key (key_response_of (st_lib site) k))))))"

definition api_health :: "response service" where
  "api_health s = (case sql (okE ()) s of (r, t) \<Rightarrow>
     let ok = is_ok r;
         (status, database) = (if ok then (200, ''ok'') else (503, ''unavailable''))
     in (Inr (reply status (Health \<lparr>he_status = if ok then ''ok'' else ''degraded'',
           he_version = ''0.1.0'', he_database = database\<rparr>)), t))"

definition api_metrics :: "('h, 'pt) site \<Rightarrow> request \<Rightarrow> metrics \<Rightarrow> response service" where
  "api_metrics site rq m = signed_in site rq (\<lambda>_.
     okE ((reply 200 (Plain (render (rq_uptime rq) m)))\<lparr>rs_headers :=
       [(''content-type'', ''text/plain; version=0.0.4; charset=utf-8'')]\<rparr>))"

text \<open>The upgrade; the connection that follows is theory \<^verbatim>\<open>Chat_Stream\<close>.\<close>

definition api_stream :: "('h, 'pt) site \<Rightarrow> string extracted \<Rightarrow> response service" where
  "api_stream site x = with_extracted x (\<lambda>token.
     bindE (authenticate (st_app site) token) (\<lambda>_. okE (reply 101 Switching_protocols)))"

text \<open>The documentation: \<^verbatim>\<open>src/api/openapi.rs\<close>; the document itself is theory \<^verbatim>\<open>Api_Doc\<close>.\<close>

definition REDOC_HTML :: string where
  "REDOC_HTML = concat (map (\<lambda>line. line @ [CHR 0x0A])
     [''<!DOCTYPE html>'',
      ''<html>'',
      ''  <head>'',
      ''    <title>Encryptr Server API</title>'',
      ''    <meta charset=\"utf-8\"/>'',
      ''    <meta name=\"viewport\" content=\"width=device-width, initial-scale=1\"/>'',
      ''    <style>body { margin: 0; padding: 0; }</style>'',
      ''  </head>'',
      ''  <body>'',
      ''    <redoc spec-url=\"/openapi.json\"></redoc>'',
      ''    <script src=\"https://cdn.redoc.ly/redoc/latest/bundles/redoc.standalone.js\"></script>'',
      ''  </body>'']) @ ''</html>''"

definition openapi_json :: "('h, 'pt) site \<Rightarrow> response service" where
  "openapi_json site = okE (reply 200 (Json_document (st_api_doc site)))"

definition docs_ui :: "response service" where
  "docs_ui = okE (reply 200 (Html REDOC_HTML))"

fun handler :: "('h, 'pt) site \<Rightarrow> request \<Rightarrow> metrics \<Rightarrow> endpoint \<Rightarrow> response service" where
  "handler site rq m (Register x) = api_register site rq x"
| "handler site rq m (Login x) = api_login site rq x"
| "handler site rq m (Refresh x) = api_refresh site rq x"
| "handler site rq m Logout = api_logout site rq"
| "handler site rq m Me = api_me site rq"
| "handler site rq m Get_conversations = api_list_conversations site rq"
| "handler site rq m (Post_conversation x) = api_create_conversation site rq x"
| "handler site rq m (Put_conversation x) = api_update_conversation site rq x"
| "handler site rq m (Delete_conversation_at x) = api_delete_conversation site rq x"
| "handler site rq m (Get_messages x) = api_list_messages site rq x"
| "handler site rq m (Post_message x) = api_create_message site rq x"
| "handler site rq m (Delete_message_at x) = api_delete_message site rq x"
| "handler site rq m Get_keys = api_list_keys site rq"
| "handler site rq m (Post_key x) = api_create_key site rq x"
| "handler site rq m Get_health = api_health"
| "handler site rq m Get_metrics = api_metrics site rq m"
| "handler site rq m (Get_stream x) = api_stream site x"
| "handler site rq m Get_openapi_json = openapi_json site"
| "handler site rq m Get_docs = docs_ui"
| "handler site rq m (Unrouted status) = okE (reply status No_body)"

subsection \<open>Middleware and router\<close>

definition set_header :: "string \<Rightarrow> string \<Rightarrow> (string \<times> string) list \<Rightarrow> (string \<times> string) list" where
  "set_header name value headers = filter (\<lambda>(n, _). n \<noteq> name) headers @ [(name, value)]"

definition quoted :: "string \<Rightarrow> string" where
  "quoted x = [CHR 0x27] @ x @ [CHR 0x27]"

definition HARDENING :: "(string \<times> string) list" where
  "HARDENING = [(''x-content-type-options'', ''nosniff''), (''x-frame-options'', ''DENY''),
     (''referrer-policy'', ''no-referrer''), (''cross-origin-opener-policy'', ''same-origin''),
     (''cross-origin-resource-policy'', ''same-origin''),
     (''permissions-policy'', ''camera=(), microphone=(), geolocation=()''),
     (''content-security-policy'',
       ''default-src '' @ quoted ''none'' @ ''; frame-ancestors '' @ quoted ''none''),
     (''cache-control'', ''no-store'')]"

definition HSTS :: "(string \<times> string) list" where
  "HSTS = [(''strict-transport-security'', ''max-age=63072000; includeSubDomains'')]"

definition security_headers :: "config \<Rightarrow> response \<Rightarrow> response" where
  "security_headers c r = r\<lparr>rs_headers :=
     fold (\<lambda>(n, v). set_header n v)
       (HARDENING @ (if is_production (environment c) then HSTS else [])) (rs_headers r)\<rparr>"

definition track_metrics :: "nat \<Rightarrow> response \<times> server \<Rightarrow> response \<times> server" where
  "track_metrics elapsed = (\<lambda>(r, sv).
     (r, sv\<lparr>sv_metrics := record_response (rs_status r) (elapsed_micros elapsed) (sv_metrics sv)\<rparr>))"

text \<open>
  The endpoints behind the stricter limiter. (The layer also wraps the 405 that axum gives to
  another method on one of the three paths; such a request, an \<open>Unrouted\<close> one here, reaches no
  handler, and only spends a little of the same client's budget.)
\<close>

fun is_credential :: "endpoint \<Rightarrow> bool" where
  "is_credential (Register _) = True"
| "is_credential (Login _) = True"
| "is_credential (Refresh _) = True"
| "is_credential _ = False"

text \<open>
  \<^verbatim>\<open>TimeoutLayer\<close> around every route but the stream: when the request takes too long its handler
  is dropped where it waits and 408 is the answer. The statements before that point have taken
  effect, those after it have not (\<open>Abandoned\<close> in theory \<^verbatim>\<open>Store\<close>); a handler that made its last
  statement may still be dropped while the reply to it is on its way. The limiters inside the
  layer do not wait, so that it can be put at the handler.
\<close>

fun is_timed :: "endpoint \<Rightarrow> bool" where
  "is_timed (Get_stream _) = False"
| "is_timed (Unrouted _) = False"
| "is_timed _ = True"

definition timeout_layer :: "endpoint \<Rightarrow> response \<times> store \<Rightarrow> response \<times> store" where
  "timeout_layer ep = (\<lambda>(r, s). case script s of
       (d, Abandoned) # rest \<Rightarrow>
         (if is_timed ep then reply 408 No_body else r, s\<lparr>now := now s + int d, script := rest\<rparr>)
     | _ \<Rightarrow> (r, s))"

definition run_handler ::
  "('h, 'pt) site \<Rightarrow> request \<Rightarrow> metrics \<times> store \<Rightarrow> response \<times> metrics \<times> store" where
  "run_handler site rq = (\<lambda>(m, s).
     case handler site rq m (rq_endpoint rq) s of (r, t) \<Rightarrow>
     case timeout_layer (rq_endpoint rq) (response_of r, t) of (r', t') \<Rightarrow> (r', m, t'))"

definition limit ::
  "('h, 'pt) site \<Rightarrow> request \<Rightarrow> (metrics \<times> 'w \<Rightarrow> response \<times> metrics \<times> 'w) \<Rightarrow>
   rate_limiter \<times> metrics \<times> 'w \<Rightarrow> response \<times> rate_limiter \<times> metrics \<times> 'w" where
  "limit site rq run_next x =
     (case enforce (st_to_str site) (trust_proxy_headers (app_config (st_app site))) (rq_headers rq)
        (rq_peer rq) (rq_instant rq) (rq_instant rq + rq_lag rq) run_next x of
        (r, y) \<Rightarrow> (response_of r, y))"

definition auth_rate_limit ::
  "('h, 'pt) site \<Rightarrow> request \<Rightarrow> metrics \<times> rate_limiter \<times> store \<Rightarrow> response \<times> metrics \<times> rate_limiter \<times> store" where
  "auth_rate_limit site rq = (\<lambda>(m, l, s).
     case limit site rq (run_handler site rq) (l, m, s) of (r, l1, m1, s1) \<Rightarrow> (r, m1, l1, s1))"

text \<open>The inner router: credential endpoints have the stricter limiter in front of them.\<close>

definition routes ::
  "('h, 'pt) site \<Rightarrow> request \<Rightarrow> metrics \<times> rate_limiter \<times> store \<Rightarrow> response \<times> metrics \<times> rate_limiter \<times> store" where
  "routes site rq = (\<lambda>(m, l, s).
     if is_credential (rq_endpoint rq) then auth_rate_limit site rq (m, l, s)
     else case run_handler site rq (m, s) of (r, m1, s1) \<Rightarrow> (r, m1, l, s1))"

definition global_rate_limit :: "('h, 'pt) site \<Rightarrow> request \<Rightarrow> server \<Rightarrow> response \<times> server" where
  "global_rate_limit site rq sv =
     (case limit site rq (routes site rq) (sv_limiter sv, sv_metrics sv, sv_auth_limiter sv, sv_store sv) of
        (r, l, m, al, s) \<Rightarrow>
          (r, \<lparr>sv_store = s, sv_limiter = l, sv_auth_limiter = al, sv_metrics = m\<rparr>))"

definition serve :: "('h, 'pt) site \<Rightarrow> request \<Rightarrow> server \<Rightarrow> response \<times> server" where
  "serve site rq sv =
     track_metrics (rq_elapsed rq)
       (case global_rate_limit site rq sv of (r, t) \<Rightarrow> (security_headers (app_config (st_app site)) r, t))"

text \<open>
  What happens to the server over time: requests, and the task of \<^verbatim>\<open>src/main.rs\<close> that sweeps both
  limiters. The run collects the requests with their responses.
\<close>

datatype server_event = Incoming request | Sweep_due nat nat

fun server_step :: "('h, 'pt) site \<Rightarrow> server_event \<Rightarrow> server \<Rightarrow> (request \<times> response) list \<times> server" where
  "server_step site (Incoming rq) sv = (case serve site rq sv of (r, t) \<Rightarrow> ([(rq, r)], t))"
| "server_step site (Sweep_due t u) sv =
     ([], sv\<lparr>sv_limiter := sweep t (sv_limiter sv), sv_auth_limiter := sweep u (sv_auth_limiter sv)\<rparr>)"

fun server_run :: "('h, 'pt) site \<Rightarrow> server_event list \<Rightarrow> server \<Rightarrow> (request \<times> response) list \<times> server" where
  "server_run site [] sv = ([], sv)"
| "server_run site (e # es) sv =
     (case server_step site e sv of (xs, t) \<Rightarrow> case server_run site es t of (ys, u) \<Rightarrow> (xs @ ys, u))"

subsection \<open>A concrete server\<close>

definition demo_site :: "(bytes, unit) site" where
  "demo_site = \<lparr>st_app = demo_app, st_lib = demo_lib, st_to_str = \<lambda>bs. Some (map chr bs),
     st_api_doc = []\<rparr>"

definition demo_state :: server where
  "demo_state = snd (app_state_new demo_app demo_config demo_store)"

definition demo_request :: "endpoint \<Rightarrow> (string \<times> bytes) list \<Rightarrow> nat \<Rightarrow> request" where
  "demo_request ep hs t = \<lparr>rq_endpoint = ep, rq_headers = hs, rq_peer = ''9'', rq_instant = t, rq_lag = 0,
     rq_elapsed = 1, rq_uptime = 1\<rparr>"

section \<open>Lemmas\<close>

subsection \<open>From handlers to runs\<close>

text \<open>
  A request is turned away by one of the limiters, without touching the database, or handled; the
  metrics then count it once.
\<close>

lemma limit_cases:
  obtains (limited) l1 where "limit site rq f (l, m, w) =
      (error_response RateLimited, l1, m\<lparr>rate_limited_total := rate_limited_total m + 1\<rparr>, w)"
      and "check (client_key (st_to_str site) (rq_headers rq) (rq_peer rq) (trust_proxy_headers (app_config (st_app site))))
        (rq_instant rq) (rq_instant rq + rq_lag rq) l = (False, l1)"
  | (admitted) l1 r m1 w1 where "limit site rq f (l, m, w) = (r, l1, m1, w1)" and "f (m, w) = (r, m1, w1)"
      and "check (client_key (st_to_str site) (rq_headers rq) (rq_peer rq) (trust_proxy_headers (app_config (st_app site))))
        (rq_instant rq) (rq_instant rq + rq_lag rq) l = (True, l1)"
  by (cases "check (client_key (st_to_str site) (rq_headers rq) (rq_peer rq) (trust_proxy_headers (app_config (st_app site))))
        (rq_instant rq) (rq_instant rq + rq_lag rq) l"; cases "f (m, w)")
    (auto simp: limit_def enforce_def Let_def response_of_def split: if_splits)

definition handled :: "('h, 'pt) site \<Rightarrow> request \<Rightarrow> metrics \<Rightarrow> store \<Rightarrow> response \<times> store" where
  "handled site rq m s = (case handler site rq m (rq_endpoint rq) s of (r, t) \<Rightarrow>
     timeout_layer (rq_endpoint rq) (response_of r, t))"

lemma run_handler_eq:
  "run_handler site rq (m, s) = (fst (handled site rq m s), m, snd (handled site rq m s))"
  by (simp add: run_handler_def handled_def split: prod.split)

text \<open>A request that is not cut off is answered by its handler; one that is, with 408.\<close>

lemma handled_cases:
  obtains (answered) "handled site rq m s =
      (response_of (fst (handler site rq m (rq_endpoint rq) s)), snd (handler site rq m (rq_endpoint rq) s))"
  | (dropped) d rest where "script (snd (handler site rq m (rq_endpoint rq) s)) = (d, Abandoned) # rest"
      and "fst (handled site rq m s) = (if is_timed (rq_endpoint rq) then reply 408 No_body
         else response_of (fst (handler site rq m (rq_endpoint rq) s)))"
      and "quiet_step (snd (handler site rq m (rq_endpoint rq) s)) (snd (handled site rq m s))"
proof -
  obtain r t where h: "handler site rq m (rq_endpoint rq) s = (r, t)" by fastforce
  show ?thesis
  proof (cases "\<exists>d rest. script t = (d, Abandoned) # rest")
    case True
    then show ?thesis
      using h dropped by (auto simp: handled_def timeout_layer_def quiet_step_def)
  next
    case False
    then have "timeout_layer (rq_endpoint rq) (response_of r, t) = (response_of r, t)"
      by (auto simp: timeout_layer_def split: list.split fault.split)
    then show ?thesis using h answered by (simp add: handled_def)
  qed
qed

lemma handled_quiet:
  "script (snd (handler site rq m (rq_endpoint rq) s)) = [] \<Longrightarrow> handled site rq m s =
     (response_of (fst (handler site rq m (rq_endpoint rq) s)), snd (handler site rq m (rq_endpoint rq) s))"
  by (cases "handler site rq m (rq_endpoint rq) s") (simp add: handled_def timeout_layer_def)

definition only_limited :: "metrics \<Rightarrow> metrics \<Rightarrow> bool" where
  "only_limited m m' \<longleftrightarrow> m' = m \<or> m' = m\<lparr>rate_limited_total := rate_limited_total m + 1\<rparr>"

lemma global_rate_limit_cases:
  obtains (limited) "fst (global_rate_limit site rq sv) = error_response RateLimited"
      and "sv_store (snd (global_rate_limit site rq sv)) = sv_store sv"
      and "only_limited (sv_metrics sv) (sv_metrics (snd (global_rate_limit site rq sv)))"
  | (handled) "fst (global_rate_limit site rq sv) = fst (handled site rq (sv_metrics sv) (sv_store sv))"
      and "sv_store (snd (global_rate_limit site rq sv)) = snd (handled site rq (sv_metrics sv) (sv_store sv))"
      and "sv_metrics (snd (global_rate_limit site rq sv)) = sv_metrics sv"
proof (cases rule: limit_cases [of site rq "routes site rq" "sv_limiter sv" "sv_metrics sv"
      "(sv_auth_limiter sv, sv_store sv)"])
  case (limited l1)
  then show ?thesis by (intro that(1)) (auto simp: global_rate_limit_def only_limited_def)
next
  case (admitted l1 r m1 w1)
  show ?thesis
  proof (cases "is_credential (rq_endpoint rq)")
    case False
    then show ?thesis
      using admitted by (intro that(2)) (auto simp: global_rate_limit_def routes_def run_handler_eq)
  next
    case True
    show ?thesis
    proof (cases rule: limit_cases [of site rq "run_handler site rq" "sv_auth_limiter sv" "sv_metrics sv" "sv_store sv"])
      case (limited l2)
      then show ?thesis
        using admitted True
        by (intro that(1)) (auto simp: global_rate_limit_def routes_def auth_rate_limit_def only_limited_def)
    next
      case (admitted l2 r2 m2 s2)
      then show ?thesis
        using \<open>limit site rq (routes site rq) _ = _\<close> \<open>routes site rq _ = _\<close> True
        by (intro that(2)) (auto simp: global_rate_limit_def routes_def auth_rate_limit_def run_handler_eq)
    qed
  qed
qed

lemma serve_eq:
  "serve site rq sv = (security_headers (app_config (st_app site)) (fst (global_rate_limit site rq sv)),
     (snd (global_rate_limit site rq sv))\<lparr>sv_metrics :=
       record_response (rs_status (fst (global_rate_limit site rq sv))) (elapsed_micros (rq_elapsed rq))
         (sv_metrics (snd (global_rate_limit site rq sv)))\<rparr>)"
  by (simp add: serve_def track_metrics_def security_headers_def split: prod.split)

lemma serve_store:
  "sv_store (snd (serve site rq sv)) = sv_store sv \<or>
   (\<exists>m. quiet_step (snd (handler site rq m (rq_endpoint rq) (sv_store sv))) (sv_store (snd (serve site rq sv))))"
proof (cases rule: global_rate_limit_cases [of site rq sv])
  case handled
  then show ?thesis
    by (cases rule: handled_cases [of site rq "sv_metrics sv" "sv_store sv"]) (auto simp: serve_eq quiet_step_def)
qed (simp add: serve_eq)

subsection \<open>Orders that every request respects\<close>

locale api_order = service_order R for R :: "store \<Rightarrow> store \<Rightarrow> bool" +
  fixes site :: "('h, 'pt) site"
  assumes R_register: "stays R (register (st_app site) rr meta)"
    and R_login: "stays R (login (st_app site) e p meta)"
    and R_refresh: "stays R (refresh (st_app site) tok meta)"
    and R_logout: "stays R (logout u i meta)"
    and R_conversations: "stays R (conversations_create u cr)" "stays R (conversations_list u)"
      "stays R (conversations_change u i cr)" "stays R (conversations_delete u i)"
    and R_messages: "stays R (messages_create (st_lib site) u mr)" "stays R (messages_list u q)"
      "stays R (messages_delete u i)"
    and R_keys: "stays R (keys_upload (st_lib site) u kr)" "stays R (keys_list u)"
begin

lemma stays_with_extracted: "(\<And>a. stays R (f a)) \<Longrightarrow> stays R (with_extracted x f)"
  by (cases x) (simp_all add: with_extracted_def stays_pure)

lemma stays_signed_in: "(\<And>u. stays R (f u)) \<Longrightarrow> stays R (signed_in site rq f)"
  unfolding signed_in_def from_request_parts_def by (intro service_intros stays_authenticate)

lemma stays_health: "stays R api_health"
proof -
  have "stays R (sql (okE ()))" by (rule stays_sql) (simp add: R_refl)
  then show ?thesis by (simp add: stays_def api_health_def Let_def case_prod_beta)
qed

lemma stays_pair: "(\<And>x y. stays R (f x y)) \<Longrightarrow> stays R (case p of (x, y) \<Rightarrow> f x y)"
  by (cases p) simp

lemma stays_handler: "stays R (handler site rq m ep)"
  by (cases ep; simp only: handler.simps api_register_def api_login_def api_refresh_def api_logout_def api_me_def
      api_list_conversations_def api_create_conversation_def api_update_conversation_def api_delete_conversation_def
      api_list_messages_def api_create_message_def api_delete_message_def api_list_keys_def api_create_key_def
      api_metrics_def api_stream_def openapi_json_def docs_ui_def;
    (intro stays_signed_in stays_with_extracted stays_pair R_register R_login R_refresh R_logout R_conversations
      R_messages R_keys stays_authenticate stays_health service_intros)?)

lemma serve_R: "R (sv_store sv) (sv_store (snd (serve site rq sv)))"
  using serve_store [of site rq sv] staysD [OF stays_handler] R_refl R_quiet R_trans by metis

lemma server_run_R: "R (sv_store sv) (sv_store (snd (server_run site es sv)))"
proof (induction es arbitrary: sv)
  case (Cons e es)
  have "R (sv_store sv) (sv_store (snd (server_step site e sv)))"
    using serve_R by (cases e) (simp_all add: R_refl case_prod_beta)
  moreover have "snd (server_run site (e # es) sv) = snd (server_run site es (snd (server_step site e sv)))"
    by (simp split: prod.split)
  ultimately show ?case using Cons.IH R_trans by metis
qed (simp add: R_refl)

end

interpretation past: api_order history site for site
  by unfold_locales (rule history_auth history_data)+

interpretation tables: api_order "\<lambda>s t. db_ok s \<longrightarrow> db_ok t" site for site
  by unfold_locales (rule wf_auth wf_login wf_refresh wf_data wf_messages_create)+

subsection \<open>What handlers answer\<close>

definition gives :: "(response \<Rightarrow> bool) \<Rightarrow> response service \<Rightarrow> bool" where
  "gives P m \<longleftrightarrow> (\<forall>s r. fst (m s) = Inr r \<longrightarrow> P r)"

lemma gives_bind: "(\<And>x. gives P (f x)) \<Longrightarrow> gives P (bindE m f)"
  by (auto simp: gives_def bindE_def split: prod.splits sum.splits)

lemma gives_ok: "P r \<Longrightarrow> gives P (okE r)"
  by (simp add: gives_def)

lemma gives_extracted: "(\<And>st. P (reply st No_body)) \<Longrightarrow> (\<And>a. gives P (f a)) \<Longrightarrow> gives P (with_extracted x f)"
  by (cases x) (simp_all add: with_extracted_def gives_ok)

lemma gives_signed_in: "(\<And>u. gives P (f u)) \<Longrightarrow> gives P (signed_in site rq f)"
  unfolding signed_in_def by (rule gives_bind)

lemma gives_pair: "(\<And>x y. gives P (f x y)) \<Longrightarrow> gives P (case p of (x, y) \<Rightarrow> f x y)"
  by (cases p) simp

lemma gives_health: "(\<And>st b. P (reply st b)) \<Longrightarrow> gives P api_health"
  by (simp add: gives_def api_health_def Let_def case_prod_beta)

lemmas handler_defs = handler.simps api_register_def api_login_def api_refresh_def api_logout_def api_me_def
  api_list_conversations_def api_create_conversation_def api_update_conversation_def api_delete_conversation_def
  api_list_messages_def api_create_message_def api_delete_message_def api_list_keys_def api_create_key_def
  api_metrics_def api_stream_def openapi_json_def docs_ui_def

text \<open>No handler sets one of the hardening headers.\<close>

definition values_of :: "string \<Rightarrow> (string \<times> string) list \<Rightarrow> string list" where
  "values_of n hs = map snd (filter (\<lambda>h. fst h = n) hs)"

lemma handler_headers: "gives (\<lambda>r. values_of ''strict-transport-security'' (rs_headers r) = []) (handler site rq m ep)"
  by (cases ep; simp only: handler_defs;
    intro gives_signed_in gives_extracted gives_pair gives_health gives_bind gives_ok; simp add: reply_def values_of_def)

lemma error_status: "400 \<le> rs_status (error_response e)"
  by (cases e) (simp_all add: error_response_def into_response_def reply_def)

lemma error_headers: "rs_headers (error_response e) = []"
  by (simp add: error_response_def reply_def split: prod.split)

lemma values_of_set_header [simp]: "values_of k (set_header n v hs) = (if k = n then [v] else values_of k hs)"
proof -
  have "filter (\<lambda>h. fst h = k) (filter (\<lambda>(m, _). m \<noteq> n) hs) = (if k = n then [] else filter (\<lambda>h. fst h = k) hs)"
    by (induction hs) auto
  then show ?thesis by (simp add: values_of_def set_header_def)
qed

lemma security_headers_status [simp]: "rs_status (security_headers c r) = rs_status r" "rs_body (security_headers c r) = rs_body r"
  by (simp_all add: security_headers_def)

text \<open>
  How an endpoint finds out who is asking: from the bearer token of the \<^verbatim>\<open>Authorization\<close> header,
  through the extractor, or, on the stream, from the token in the query; or not at all.
\<close>

fun access_check :: "('h, 'pt) site \<Rightarrow> request \<Rightarrow> endpoint \<Rightarrow> auth_user service option" where
  "access_check site rq (Register _) = None"
| "access_check site rq (Login _) = None"
| "access_check site rq (Refresh _) = None"
| "access_check site rq Get_health = None"
| "access_check site rq (Get_stream x) =
     (case x of Inl _ \<Rightarrow> None | Inr token \<Rightarrow> Some (authenticate (st_app site) token))"
| "access_check site rq Get_openapi_json = None"
| "access_check site rq Get_docs = None"
| "access_check site rq (Unrouted _) = None"
| "access_check site rq _ = Some (from_request_parts (st_app site) (st_to_str site) (rq_headers rq))"

lemma access_check_handler:
  assumes "access_check site rq ep = Some auth"
  obtains f where "handler site rq m ep = bindE auth f"
proof -
  have "\<exists>f. handler site rq m ep = bindE auth f"
    using assms by (cases ep) (auto simp: handler_defs signed_in_def with_extracted_def split: sum.splits)
  then show thesis using that by blast
qed

lemma access_check_auth:
  assumes "access_check site rq ep = Some auth"
  shows "auth = from_request_parts (st_app site) (st_to_str site) (rq_headers rq) \<or>
    (\<exists>token. auth = authenticate (st_app site) token)"
  using assms by (cases ep) (auto split: sum.splits)

lemma calm_authenticate: "stays quiet_step (authenticate app token)"
  unfolding authenticate_def
  by (intro calm.stays_intros stays_db calm.stays_reads stays_utc_now calm.state_order_axioms)

lemma calm_from_request_parts: "stays quiet_step (from_request_parts app to_str hs)"
  unfolding from_request_parts_def by (intro calm.stays_intros calm_authenticate)

lemma authenticate_fails:
  "fst (authenticate app token s) = Inl e \<Longrightarrow> rs_status (error_response e) \<in> {401, 500}"
proof -
  have err: "rs_status (error_response Unauthorized) = 401" "rs_status (error_response (Database d)) = 500" for d
    by (simp_all add: error_response_def into_response_def reply_def)
  assume "fst (authenticate app token s) = Inl e"
  then have "e = Unauthorized \<or> (\<exists>d. e = Database d)"
    by (auto simp: authenticate_def bindE_def ok_or_def db_def map_errE_def utc_now_def
        split: option.splits sum.splits prod.splits if_splits)
  then show ?thesis using err by auto
qed

lemma from_request_parts_fails:
  assumes "fst (from_request_parts app to_str hs s) = Inl e"
  shows "rs_status (error_response e) \<in> {401, 500}"
proof (cases "bearer_token to_str hs")
  case None
  then have "e = Unauthorized" using assms by (simp add: from_request_parts_def bindE_def)
  then show ?thesis by (simp add: error_response_def into_response_def reply_def)
next
  case (Some token)
  then have "fst (authenticate app token s) = Inl e" using assms by (simp add: from_request_parts_def bindE_def)
  then show ?thesis by (rule authenticate_fails)
qed

lemma limited_status: "rs_status (error_response RateLimited) = 429"
  by (simp add: error_response_def into_response_def reply_def)

lemma refused_without_access:
  assumes "access_check site rq (rq_endpoint rq) = Some auth" and "\<not> is_ok (fst (auth (sv_store sv)))"
  shows "rs_status (fst (serve site rq sv)) \<in> {401, 408, 429, 500} \<and> quiet_step (sv_store sv) (sv_store (snd (serve site rq sv)))"
proof (cases rule: global_rate_limit_cases [of site rq sv])
  case limited
  then show ?thesis by (simp add: serve_eq limited_status calm.R_refl)
next
  case handled
  obtain f where f: "handler site rq (sv_metrics sv) (rq_endpoint rq) = bindE auth f"
    using assms(1) by (rule access_check_handler)
  obtain e where e: "fst (auth (sv_store sv)) = Inl e"
    using assms(2) by (cases "fst (auth (sv_store sv))") simp_all
  have auth: "rs_status (error_response e) \<in> {401, 500}" "stays quiet_step auth"
    using access_check_auth [OF assms(1)] e from_request_parts_fails authenticate_fails
      calm_from_request_parts calm_authenticate by metis+
  have "bindE auth f (sv_store sv) = (Inl e, snd (auth (sv_store sv)))"
    using e by (cases "auth (sv_store sv)") (simp add: bindE_def)
  then have h: "fst (handler site rq (sv_metrics sv) (rq_endpoint rq) (sv_store sv)) = Inl e"
    "quiet_step (sv_store sv) (snd (handler site rq (sv_metrics sv) (rq_endpoint rq) (sv_store sv)))"
    using f staysD [OF auth(2)] by auto
  then show ?thesis
    using handled auth(1) calm.R_trans [OF h(2)]
    by (cases rule: handled_cases [of site rq "sv_metrics sv" "sv_store sv"])
      (auto simp: serve_eq response_of_def reply_def split: if_splits)
qed

text \<open>Endpoints that do not read the bearer token answer the same without the header.\<close>

definition without_authorization :: "request \<Rightarrow> request" where
  "without_authorization rq = rq\<lparr>rq_headers := filter (\<lambda>(n, _). n \<noteq> ''authorization'') (rq_headers rq)\<rparr>"

lemma map_of_filter_name: "j \<noteq> k \<Longrightarrow> map_of (filter (\<lambda>(n, _). n \<noteq> k) xs) j = map_of xs j"
  by (induction xs) auto

lemma without_authorization_simps [simp]:
  "rq_endpoint (without_authorization rq) = rq_endpoint rq" "rq_peer (without_authorization rq) = rq_peer rq"
  "rq_instant (without_authorization rq) = rq_instant rq" "rq_lag (without_authorization rq) = rq_lag rq"
  "rq_elapsed (without_authorization rq) = rq_elapsed rq" "rq_uptime (without_authorization rq) = rq_uptime rq"
  by (simp_all add: without_authorization_def)

lemma without_authorization_headers [simp]:
  "k \<noteq> ''authorization'' \<Longrightarrow>
     header_text to_str (rq_headers (without_authorization rq)) k = header_text to_str (rq_headers rq) k"
  by (simp add: without_authorization_def header_text_def map_of_filter_name)

lemma without_authorization_client:
  "request_meta site (without_authorization rq) = request_meta site rq"
  "limit site (without_authorization rq) g = limit site rq g"
proof -
  show "request_meta site (without_authorization rq) = request_meta site rq" by (simp add: request_meta_def)
  have "client_key to_str (rq_headers (without_authorization rq)) peer trust = client_key to_str (rq_headers rq) peer trust"
    for to_str peer trust unfolding client_key_def by (simp cong: option.case_cong)
  then show "limit site (without_authorization rq) g = limit site rq g"
    by (simp add: limit_def [abs_def] enforce_def)
qed

lemma serve_without_authorization:
  assumes "\<forall>auth. access_check site rq (rq_endpoint rq) = Some auth \<longrightarrow> (\<exists>token. rq_endpoint rq = Get_stream (Inr token))"
  shows "serve site (without_authorization rq) sv = serve site rq sv"
proof -
  have "handler site (without_authorization rq) m (rq_endpoint rq) = handler site rq m (rq_endpoint rq)" for m
    using assms by (cases "rq_endpoint rq") (simp_all add: api_register_def api_login_def api_refresh_def without_authorization_client)
  then have run: "run_handler site (without_authorization rq) = run_handler site rq"
    by (simp add: run_handler_def fun_eq_iff)
  then have "auth_rate_limit site (without_authorization rq) = auth_rate_limit site rq"
    by (simp add: auth_rate_limit_def without_authorization_client)
  with run have "routes site (without_authorization rq) = routes site rq"
    unfolding routes_def by (simp only: without_authorization_simps)
  then show ?thesis by (simp add: serve_def global_rate_limit_def without_authorization_client)
qed

subsection \<open>The auth limiter\<close>

abbreviation key_of :: "('h, 'pt) site \<Rightarrow> request \<Rightarrow> string" where
  "key_of site rq \<equiv> client_key (st_to_str site) (rq_headers rq) (rq_peer rq) (trust_proxy_headers (app_config (st_app site)))"

text \<open>A client tried credentials and was not turned away by a limiter.\<close>

definition attempt :: "('h, 'pt) site \<Rightarrow> string \<Rightarrow> request \<times> response \<Rightarrow> bool" where
  "attempt site k x \<longleftrightarrow>
     (case rq_endpoint (fst x) of Register _ \<Rightarrow> True | Login _ \<Rightarrow> True | Refresh _ \<Rightarrow> True | _ \<Rightarrow> False) \<and>
     key_of site (fst x) = k \<and> rs_status (snd x) \<noteq> 429"

lemma attempt_iff:
  "attempt site k x \<longleftrightarrow> is_credential (rq_endpoint (fst x)) \<and> key_of site (fst x) = k \<and> rs_status (snd x) \<noteq> 429"
  by (cases "rq_endpoint (fst x)") (simp_all add: attempt_def)

fun event_within :: "nat \<Rightarrow> nat \<Rightarrow> server_event \<Rightarrow> bool" where
  "event_within a w (Incoming rq) = (a \<le> rq_instant rq \<and> rq_instant rq + rq_lag rq < a + w)"
| "event_within a w (Sweep_due t u) = (u < a + w)"

text \<open>A request leaves the auth limiter alone and is no attempt, or it is one request to that limiter.\<close>

lemma serve_auth_limiter:
  obtains (aside) "sv_auth_limiter (snd (serve site rq sv)) = sv_auth_limiter sv"
      and "\<not> attempt site k (rq, fst (serve site rq sv))"
  | (counted) ok where "check (key_of site rq) (rq_instant rq) (rq_instant rq + rq_lag rq) (sv_auth_limiter sv) =
        (ok, sv_auth_limiter (snd (serve site rq sv)))"
      and "attempt site k (rq, fst (serve site rq sv)) \<longrightarrow> ok \<and> key_of site rq = k"
proof (cases rule: limit_cases [of site rq "routes site rq" "sv_limiter sv" "sv_metrics sv"
      "(sv_auth_limiter sv, sv_store sv)"])
  case (limited l1)
  then show ?thesis
    by (intro aside) (simp_all add: serve_eq global_rate_limit_def attempt_iff limited_status)
next
  case outer: (admitted l1 r m1 w1)
  show ?thesis
  proof (cases "is_credential (rq_endpoint rq)")
    case False
    then show ?thesis
      using outer by (intro aside) (auto simp: serve_eq global_rate_limit_def routes_def run_handler_eq attempt_iff)
  next
    case True
    show ?thesis
    proof (cases rule: limit_cases [of site rq "run_handler site rq" "sv_auth_limiter sv" "sv_metrics sv" "sv_store sv"])
      case (limited l2)
      then show ?thesis
        using outer True
        by (intro counted [of False]) (auto simp: serve_eq global_rate_limit_def routes_def auth_rate_limit_def
            attempt_iff limited_status)
    next
      case (admitted l2 r2 m2 s2)
      then show ?thesis
        using outer True
        by (intro counted [of True]) (auto simp: serve_eq global_rate_limit_def routes_def auth_rate_limit_def attempt_iff)
    qed
  qed
qed

lemma attempts_admitted:
  assumes "list_all (event_within a (window (sv_auth_limiter sv))) es"
  shows "\<exists>ls. list_all (within a (window (sv_auth_limiter sv))) ls \<and>
    length (filter (attempt site k) (fst (server_run site es sv))) \<le> admitted k (fst (run_events ls (sv_auth_limiter sv)))"
  using assms
proof (induction es arbitrary: sv)
  case (Cons e es)
  show ?case
  proof (cases e)
    case (Sweep_due t u)
    let ?sv = "sv\<lparr>sv_limiter := sweep t (sv_limiter sv), sv_auth_limiter := sweep u (sv_auth_limiter sv)\<rparr>"
    have w: "window (sv_auth_limiter ?sv) = window (sv_auth_limiter sv)" by (simp add: sweep_def)
    obtain ls where "list_all (within a (window (sv_auth_limiter sv))) ls"
      "length (filter (attempt site k) (fst (server_run site es ?sv))) \<le> admitted k (fst (run_events ls (sv_auth_limiter ?sv)))"
      using Cons.IH [of ?sv] Cons.prems w by auto
    then show ?thesis
      using Cons.prems Sweep_due by (intro exI [of _ "Sweep u # ls"]) (simp add: case_prod_beta)
  next
    case (Incoming rq)
    let ?sv = "snd (serve site rq sv)"
    have run: "fst (server_run site (e # es) sv) = (rq, fst (serve site rq sv)) # fst (server_run site es ?sv)"
      using Incoming by (simp add: case_prod_beta)
    show ?thesis
    proof (cases rule: serve_auth_limiter [of site rq sv k])
      case aside
      then show ?thesis using Cons.IH [of ?sv] Cons.prems run by simp
    next
      case (counted ok)
      have w: "window (sv_auth_limiter ?sv) = window (sv_auth_limiter sv)" using check_fields [OF counted(1)] by simp
      obtain ls where ls: "list_all (within a (window (sv_auth_limiter sv))) ls"
        "length (filter (attempt site k) (fst (server_run site es ?sv))) \<le> admitted k (fst (run_events ls (sv_auth_limiter ?sv)))"
        using Cons.IH [of ?sv] Cons.prems w by auto
      then show ?thesis
        using Cons.prems Incoming run counted
        by (intro exI [of _ "Req (key_of site rq) (rq_instant rq) (rq_instant rq + rq_lag rq) # ls"])
          (auto simp: admitted_def case_prod_beta)
    qed
  qed
qed (auto intro!: exI [of _ "[]"])

subsection \<open>Counters\<close>

definition counters :: "metrics \<Rightarrow> u64 \<times> u64 \<times> u64 \<times> u64" where
  "counters m = (http_requests_total m, http_responses_2xx m, http_responses_4xx m, http_responses_5xx m)"

lemma serve_counters:
  "counters (sv_metrics (snd (serve site rq sv))) =
     (let d = rs_status (fst (serve site rq sv)) div 100; (n, a, b, c) = counters (sv_metrics sv)
      in (n + 1, a + (if d = 2 then 1 else 0), b + (if d = 4 then 1 else 0), c + (if d = 5 then 1 else 0)))"
proof -
  have "counters (sv_metrics (snd (global_rate_limit site rq sv))) = counters (sv_metrics sv)"
    by (cases rule: global_rate_limit_cases [of site rq sv]) (auto simp: only_limited_def counters_def)
  then show ?thesis
    by (auto simp: serve_eq counters_def record_response_def leading_digit Let_def)
qed

section \<open>Properties\<close>

text \<open>
  C35. Every response of the router, whatever the request and the outcome, rate limiting and
  errors included, carries each hardening header once, with the intended value, and pins HTTPS
  exactly in production.
\<close>

theorem every_response_hardened:
  "list_all (\<lambda>(n, v). values_of n (rs_headers (fst (serve site rq sv))) = [v])
     [(''x-content-type-options'', ''nosniff''), (''x-frame-options'', ''DENY''),
      (''referrer-policy'', ''no-referrer''), (''cross-origin-opener-policy'', ''same-origin''),
      (''cross-origin-resource-policy'', ''same-origin''),
      (''permissions-policy'', ''camera=(), microphone=(), geolocation=()''), (''cache-control'', ''no-store'')] \<and>
   values_of ''content-security-policy'' (rs_headers (fst (serve site rq sv))) =
     [concat [''default-src '', quoted ''none'', ''; frame-ancestors '', quoted ''none'']] \<and>
   values_of ''strict-transport-security'' (rs_headers (fst (serve site rq sv))) =
     (if environment (app_config (st_app site)) = Production then [''max-age=63072000; includeSubDomains''] else [])"
proof -
  have none: "values_of ''strict-transport-security'' (rs_headers (fst (global_rate_limit site rq sv))) = []"
  proof (cases rule: global_rate_limit_cases [of site rq sv])
    case handled
    moreover have "values_of ''strict-transport-security''
        (rs_headers (response_of (fst (handler site rq (sv_metrics sv) (rq_endpoint rq) (sv_store sv))))) = []"
      using handler_headers [of site rq "sv_metrics sv" "rq_endpoint rq"] error_headers
      by (auto simp: gives_def response_of_def values_of_def split: sum.split)
    ultimately show ?thesis
      by (cases rule: handled_cases [of site rq "sv_metrics sv" "sv_store sv"])
        (auto simp: reply_def values_of_def split: if_splits)
  qed (simp add: error_headers values_of_def)
  show ?thesis
    using none
    by (simp add: serve_eq security_headers_def HARDENING_def HSTS_def is_production_def quoted_def
        split: environment.split)
qed

text \<open>
  C20. A request to a protected endpoint whose token does not authenticate (the bearer token of the
  header, or on \<^verbatim>\<open>/chat/stream\<close> the token of the query) is refused, with 401, with 429 when a limiter
  turned it away first, with 500 when the database failed, or with 408 when time ran out, and it
  changes nothing in the database.
\<close>

theorem unauthenticated_refused:
  assumes "access_check site rq (rq_endpoint rq) = Some auth" and "\<not> is_ok (fst (auth (sv_store sv)))"
  shows "rs_status (fst (serve site rq sv)) \<in> {401, 408, 429, 500} \<and> quiet_step (sv_store sv) (sv_store (snd (serve site rq sv)))"
  using assms by (rule refused_without_access)

text \<open>A request without a bearer token.\<close>

theorem unauthenticated_refused_witness:
  "rs_status (fst (serve demo_site (demo_request Logout [] 7) demo_state)) \<in> {401, 408, 429, 500}"
  using unauthenticated_refused [of demo_site "demo_request Logout [] 7" _ demo_state]
  by (simp add: demo_request_def from_request_parts_def bearer_token_def bindE_def)

text \<open>
  C36. Every request is counted exactly once: over any run of requests and sweeps the request
  counter grows by the number of responses, and each class counter by the number of responses
  with that leading digit, modulo \<open>2 ^ 64\<close>.
\<close>

theorem every_request_counted:
  "counters (sv_metrics (snd (server_run site es sv))) =
     (let xs = map (rs_status \<circ> snd) (fst (server_run site es sv)); (n, a, b, c) = counters (sv_metrics sv)
      in (n + of_nat (length xs), a + of_nat (length (filter (\<lambda>x. x div 100 = 2) xs)),
          b + of_nat (length (filter (\<lambda>x. x div 100 = 4) xs)), c + of_nat (length (filter (\<lambda>x. x div 100 = 5) xs))))"
proof (induction es arbitrary: sv)
  case (Cons e es)
  show ?case
  proof (cases e)
    case (Incoming rq)
    then show ?thesis
      using Cons.IH [of "snd (serve site rq sv)"] serve_counters [of site rq sv]
      by (simp add: case_prod_beta Let_def algebra_simps)
  next
    case (Sweep_due t u)
    then show ?thesis
      using Cons.IH [of "snd (server_step site e sv)"] by (simp add: case_prod_beta Let_def)
  qed
qed (simp add: Let_def case_prod_beta)

text \<open>
  C17. Guessing credentials is bounded: in any stretch of time no longer than one window, whatever
  other requests and sweeps happen, a client gets at most twice the configured number of
  registration, login and refresh requests past the limiters.
\<close>

theorem credential_attempts_bounded:
  assumes "limiter_ok (sv_auth_limiter sv)" and "0 < max_requests (sv_auth_limiter sv)" and "0 < window (sv_auth_limiter sv)"
    and "list_all (event_within a (window (sv_auth_limiter sv))) es"
  shows "length (filter (attempt site k) (fst (server_run site es sv))) \<le> 2 * unat (max_requests (sv_auth_limiter sv))"
proof -
  obtain ls where ls: "list_all (within a (window (sv_auth_limiter sv))) ls"
    "length (filter (attempt site k) (fst (server_run site es sv))) \<le> admitted k (fst (run_events ls (sv_auth_limiter sv)))"
    using attempts_admitted [OF assms(4)] by blast
  then show ?thesis
    using budget_run [OF assms(1-3) ls(1), of k] budget_le [of a k "sv_auth_limiter sv"] by linarith
qed

text \<open>Three logins in a window that admits one.\<close>

theorem credential_attempts_bounded_witness:
  "length (filter (attempt demo_site ''9'') (fst (server_run demo_site
     [Incoming (demo_request (Login (Inr (''a@b.c'', ''x''))) [] 7),
      Incoming (demo_request (Login (Inr (''a@b.c'', ''y''))) [] 8),
      Incoming (demo_request (Login (Inr (''a@b.c'', ''z''))) [] 9)] demo_state))) \<le> 2"
  using credential_attempts_bounded [of demo_state 5
      "[Incoming (demo_request (Login (Inr (''a@b.c'', ''x''))) [] 7),
        Incoming (demo_request (Login (Inr (''a@b.c'', ''y''))) [] 8),
        Incoming (demo_request (Login (Inr (''a@b.c'', ''z''))) [] 9)]" demo_site "''9''"]
    limiter_ok_new [of 1 "secs 60"]
  by (simp add: demo_state_def app_state_new_def demo_config_def demo_request_def limiter_new_def secs_def)

end
