(* ===== verification/Sse.thy ===== *)
theory Sse
  imports Rust_Text
begin

text \<open>
  \<^verbatim>\<open>src/providers/sse.rs\<close>: the incremental line splitter and the SSE payload extractor. The
  lemmas relate the splitter, fed chunk by chunk, to splitting the whole byte stream at once.
\<close>

section \<open>Definitions\<close>

definition MAX_LINE_BYTES :: nat where "MAX_LINE_BYTES = 1024 * 1024"

definition LF :: byte where "LF = 10"
definition CR :: byte where "CR = 13"

record line_buffer =
  buffer :: bytes

definition line_buffer_new :: line_buffer where
  "line_buffer_new = \<lparr>buffer = []\<rparr>"

text \<open>
  \<^verbatim>\<open>position\<close> of the first newline and \<^verbatim>\<open>drain(..=pos)\<close>: the bytes before it and those after it.
\<close>

fun cut_line :: "bytes \<Rightarrow> (bytes \<times> bytes) option" where
  "cut_line [] = None"
| "cut_line (b # bs) =
     (if b = LF then Some ([], bs)
      else case cut_line bs of None \<Rightarrow> None | Some (line, rest) \<Rightarrow> Some (b # line, rest))"

definition strip_cr :: "bytes \<Rightarrow> bytes" where
  "strip_cr line = (if line \<noteq> [] \<and> last line = CR then butlast line else line)"

lemma cut_line_shorter: "cut_line bs = Some (line, rest) \<Longrightarrow> length rest < length bs"
  by (induction bs arbitrary: line) (auto split: if_splits option.splits)

text \<open>The loop of \<^verbatim>\<open>push\<close>.\<close>

function drain_lines :: "bytes \<Rightarrow> string list \<times> bytes" where
  "drain_lines buf =
     (case cut_line buf of
        None \<Rightarrow> ([], buf)
      | Some (line, rest) \<Rightarrow>
          let (lines, remaining) = drain_lines rest
          in (from_utf8_lossy (strip_cr line) # lines, remaining))"
  by pat_completeness auto
termination
  by (relation "measure length") (auto dest: cut_line_shorter)

declare drain_lines.simps [simp del]

definition push :: "bytes \<Rightarrow> line_buffer \<Rightarrow> string list \<times> line_buffer" where
  "push chunk lb =
     (let (lines, rest) = drain_lines (buffer lb @ chunk)
      in (lines, \<lparr>buffer = if length rest > MAX_LINE_BYTES then [] else rest\<rparr>))"

definition flush :: "line_buffer \<Rightarrow> string option \<times> line_buffer" where
  "flush lb =
     (if buffer lb = [] then (None, lb)
      else let line = strip_cr (buffer lb)
           in if line = [] then (None, \<lparr>buffer = []\<rparr>)
              else (Some (from_utf8_lossy line), \<lparr>buffer = []\<rparr>))"

definition sse_data :: "string \<Rightarrow> string option" where
  "sse_data line =
     (case strip_prefix ''data:'' line of
        None \<Rightarrow> None
      | Some rest \<Rightarrow> Some (case strip_prefix '' '' rest of None \<Rightarrow> rest | Some r \<Rightarrow> r))"

text \<open>A sequence of chunks, fed one after another.\<close>

fun push_all :: "bytes list \<Rightarrow> line_buffer \<Rightarrow> string list \<times> line_buffer" where
  "push_all [] lb = ([], lb)"
| "push_all (c # cs) lb =
     (let (lines, lb1) = push c lb; (more, lb2) = push_all cs lb1 in (lines @ more, lb2))"

text \<open>Reference: the pieces of a whole byte stream between its newlines, the last one unterminated.\<close>

fun pieces :: "bytes \<Rightarrow> bytes list" where
  "pieces [] = [[]]"
| "pieces (b # bs) = (if b = LF then [] # pieces bs else (b # hd (pieces bs)) # tl (pieces bs))"

definition stream_lines :: "bytes \<Rightarrow> string list" where
  "stream_lines bs = map (\<lambda>l. from_utf8_lossy (strip_cr l)) (butlast (pieces bs))"

definition lines_fit :: "bytes \<Rightarrow> bool" where
  "lines_fit bs = list_all (\<lambda>l. length l \<le> MAX_LINE_BYTES) (pieces bs)"

section \<open>Lemmas\<close>

lemma pieces_not_Nil [simp]: "pieces bs \<noteq> []"
  by (induction bs) auto

lemma pieces_no_LF: "LF \<notin> set xs \<Longrightarrow> pieces xs = [xs]"
  by (induction xs) auto

lemma LF_free_pieces: "l \<in> set (pieces bs) \<Longrightarrow> LF \<notin> set l"
proof (induction bs arbitrary: l)
  case (Cons b bs)
  then show ?case by (cases "pieces bs") (auto split: if_splits)
qed simp

lemma LF_free_last [simp]: "LF \<notin> set (last (pieces bs))"
  by (rule LF_free_pieces [OF last_in_set]) simp

lemma cut_line_pieces:
  "(case cut_line bs of None \<Rightarrow> pieces bs = [bs] | Some (line, rest) \<Rightarrow> pieces bs = line # pieces rest)"
  by (induction bs) (auto split: option.splits)

lemma drain_lines_pieces: "drain_lines bs = (stream_lines bs, last (pieces bs))"
proof (induction bs rule: drain_lines.induct)
  case (1 bs)
  show ?case
  proof (cases "cut_line bs")
    case None
    with cut_line_pieces [of bs] show ?thesis
      by (simp add: drain_lines.simps [of bs] stream_lines_def)
  next
    case (Some p)
    obtain line rest where p: "p = (line, rest)" by (cases p)
    with Some cut_line_pieces [of bs] 1 show ?thesis
      by (simp add: drain_lines.simps [of bs] stream_lines_def)
  qed
qed

lemma pieces_append: "pieces (as @ bs) = butlast (pieces as) @ pieces (last (pieces as) @ bs)"
proof (induction as)
  case (Cons a as)
  obtain p ps where p: "pieces as = p # ps" by (cases "pieces as") auto
  show ?case
  proof (cases "a = LF")
    case True
    with Cons show ?thesis by simp
  next
    case False
    show ?thesis
    proof (cases ps)
      case Nil
      with Cons p False show ?thesis by simp
    next
      case (Cons q qs)
      with \<open>pieces (as @ bs) = _\<close> p False show ?thesis by simp
    qed
  qed
qed simp

lemma pieces_line: "LF \<notin> set l \<Longrightarrow> pieces (l @ LF # bs) = l # pieces bs"
  by (induction l) auto

lemma last_pieces_append: "last (pieces (as @ bs)) = last (pieces (last (pieces as) @ bs))"
  by (subst pieces_append) simp

lemma stream_lines_append:
  "stream_lines (as @ bs) = stream_lines as @ stream_lines (last (pieces as) @ bs)"
  unfolding stream_lines_def by (subst pieces_append) (simp add: butlast_append)

lemma lines_fit_append: "lines_fit (as @ bs) \<Longrightarrow> lines_fit (last (pieces as) @ bs)"
  unfolding lines_fit_def by (subst (asm) pieces_append) simp

lemma lines_fit_prefix: "lines_fit (as @ bs) \<Longrightarrow> length (last (pieces as)) \<le> MAX_LINE_BYTES"
proof -
  assume "lines_fit (as @ bs)"
  then have fit: "lines_fit (last (pieces as) @ bs)" by (rule lines_fit_append)
  have "length xs \<le> length (hd (pieces (xs @ bs)))" if "LF \<notin> set xs" for xs
    using that by (induction xs) auto
  from this [OF LF_free_last] have "length (last (pieces as)) \<le> length (hd (pieces (last (pieces as) @ bs)))" .
  moreover have "length (hd (pieces (last (pieces as) @ bs))) \<le> MAX_LINE_BYTES"
    using fit hd_in_set [OF pieces_not_Nil] unfolding lines_fit_def list_all_iff by blast
  ultimately show ?thesis by (rule le_trans)
qed

lemma push_buffer_bound: "push c lb = (ls, lb') \<Longrightarrow> length (buffer lb') \<le> MAX_LINE_BYTES"
  by (auto simp: push_def split: prod.splits if_splits)

lemma push_fits:
  "lines_fit (buffer lb @ c @ rest) \<Longrightarrow>
     push c lb = (stream_lines (buffer lb @ c), \<lparr>buffer = last (pieces (buffer lb @ c))\<rparr>)"
  using lines_fit_prefix [of "buffer lb @ c" rest] by (simp add: push_def drain_lines_pieces)

lemma push_all_fits:
  assumes "lines_fit (buffer lb @ concat cs)"
    and "pieces (buffer lb) = [buffer lb]"
  shows "push_all cs lb =
    (stream_lines (buffer lb @ concat cs), lb\<lparr>buffer := last (pieces (buffer lb @ concat cs))\<rparr>)"
  using assms
proof (induction cs arbitrary: lb)
  case Nil
  then show ?case by (simp add: stream_lines_def)
next
  case (Cons c cs)
  let ?lb = "\<lparr>buffer = last (pieces (buffer lb @ c))\<rparr>"
  have p: "push c lb = (stream_lines (buffer lb @ c), ?lb)"
    using Cons.prems(1) push_fits [of lb c "concat cs"] by simp
  have "lines_fit (buffer ?lb @ concat cs)"
    using lines_fit_append [of "buffer lb @ c" "concat cs"] Cons.prems(1) by simp
  then have "push_all cs ?lb = (stream_lines (buffer ?lb @ concat cs),
      ?lb\<lparr>buffer := last (pieces (buffer ?lb @ concat cs))\<rparr>)"
    by (intro Cons.IH) (simp_all add: pieces_no_LF)
  with p show ?case
    using stream_lines_append [of "buffer lb @ c" "concat cs"]
      last_pieces_append [of "buffer lb @ c" "concat cs"] by simp
qed

section \<open>Properties\<close>

text \<open>
  However the network cuts a byte stream into chunks, the splitter returns the lines of the
  stream, in order and each once, and keeps exactly the unterminated rest, as long as no line
  exceeds the bound.
\<close>

lemma line_buffer_chunking:
  assumes "lines_fit (concat chunks)"
  shows "push_all chunks line_buffer_new =
    (stream_lines (concat chunks), \<lparr>buffer = last (pieces (concat chunks))\<rparr>)"
  using push_all_fits [of line_buffer_new chunks] assms by (simp add: line_buffer_new_def)

lemma line_buffer_chunking_witness:
  "push_all [[100, 97], [116, 13], [10, 97]] line_buffer_new = ([''dat''], \<lparr>buffer = [97]\<rparr>)"
proof -
  have pieces: "pieces [100, 97, 116, 13, 10, 97] = [[100, 97, 116, 13], [97]]" by code_simp
  have line: "from_utf8_lossy (strip_cr [100, 97, 116, 13]) = ''dat''" by code_simp
  show ?thesis
    using line_buffer_chunking [of "[[100, 97], [116, 13], [10, 97]]"]
    by (simp add: pieces line lines_fit_def stream_lines_def MAX_LINE_BYTES_def
        del: pieces.simps push_all.simps)
qed

text \<open>
  Memory of the splitter is bounded: whatever chunks it is given, it never keeps more than
  \<^verbatim>\<open>MAX_LINE_BYTES\<close> bytes between two of them.
\<close>

lemma line_buffer_bounded:
  "length (buffer (snd (push_all (chunks @ [c]) lb))) \<le> MAX_LINE_BYTES"
proof (induction chunks arbitrary: lb)
  case Nil
  then show ?case using push_buffer_bound [of c lb] by (cases "push c lb") simp
next
  case (Cons d chunks)
  then show ?case
    by (cases "push d lb"; cases "push_all (chunks @ [c]) (snd (push d lb))")
      (metis append_Cons case_prod_conv push_all.simps(2) snd_conv)
qed

text \<open>
  What the bound does to a line that exceeds it: its beginning is dropped, but the bytes that
  arrive afterwards are returned as if they were a line of their own.
\<close>

lemma oversized_line_tail_surfaces:
  assumes "LF \<notin> set big" and "MAX_LINE_BYTES < length big" and "LF \<notin> set tail"
  shows "fst (push_all [big, tail @ [LF]] line_buffer_new) = [from_utf8_lossy (strip_cr tail)]"
proof -
  have "pieces (tail @ [LF]) = [tail, []]"
    using pieces_line [OF assms(3), of "[]"] by simp
  then show ?thesis
    using assms(1,2)
    by (simp add: push_def line_buffer_new_def drain_lines_pieces pieces_no_LF stream_lines_def)
qed

lemma oversized_line_tail_surfaces_witness:
  "fst (push_all [replicate (MAX_LINE_BYTES + 1) 65, [66, LF]] line_buffer_new) = [''B'']"
proof -
  have "from_utf8_lossy (strip_cr [66]) = ''B''" by code_simp
  then show ?thesis
    using oversized_line_tail_surfaces [of "replicate (MAX_LINE_BYTES + 1) 65" "[66]"]
    by (simp add: LF_def)
qed

end
