(* ===== verification/Providers.thy ===== *)
theory Providers
  imports Sse App_Error Config
begin

text \<open>
  \<^verbatim>\<open>src/providers/{mod,openai,anthropic,ollama}.rs\<close>: the request each provider sends, the parser of
  one streamed line, and the task that turns the response body into events. Parameters: the
  JSON library (\<open>json_api\<close>) and the HTTP client (\<open>http_send\<close>), whose answer is a status and the
  items of the body stream, in order, ending where the stream ends.

  The channel between the task and its consumer records what was delivered; \<open>patience\<close> is how
  many events the consumer will still take before it drops the receiver, \<open>None\<close> for one that
  stays. A full channel only delays the task, so its capacity does not show.
\<close>

section \<open>Definitions\<close>

subsection \<open>Messages, requests and events\<close>

type_synonym f32 = "32 word"

record chat_message =
  cm_role :: string
  cm_content :: string

record chat_request =
  cr_model :: string
  cr_messages :: "chat_message list"
  cr_max_tokens :: u32
  cr_temperature :: "f32 option"

datatype stream_event = Delta string | Done

type_synonym event_result = "provider_error + stream_event"

datatype body_value =
    B_text string | B_num u32 | B_bool bool | B_float f32
  | B_messages "chat_message list" | B_object "(string \<times> body_value) list"

record http_request =
  url :: string
  req_headers :: "(string \<times> string) list"
  body :: "(string \<times> body_value) list"

record http_response =
  resp_status :: nat
  chunks :: "(string + bytes) list"

record 'v json_api =
  from_str :: "string \<Rightarrow> 'v option"
  get_key :: "'v \<Rightarrow> string \<Rightarrow> 'v option"
  get_index :: "'v \<Rightarrow> nat \<Rightarrow> 'v option"
  json_str :: "'v \<Rightarrow> string option"
  json_bool :: "'v \<Rightarrow> bool option"

subsection \<open>The channel\<close>

record channel =
  delivered :: "event_result list"
  patience :: "nat option"

definition channel_new :: "nat option \<Rightarrow> channel" where
  "channel_new p = \<lparr>delivered = [], patience = p\<rparr>"

definition send :: "event_result \<Rightarrow> channel \<Rightarrow> bool \<times> channel" where
  "send r ch = (case patience ch of
       None \<Rightarrow> (True, ch\<lparr>delivered := delivered ch @ [r]\<rparr>)
     | Some 0 \<Rightarrow> (False, ch)
     | Some (Suc n) \<Rightarrow> (True, ch\<lparr>delivered := delivered ch @ [r], patience := Some n\<rparr>))"

fun terminal :: "event_result \<Rightarrow> bool" where
  "terminal (Inr (Delta _)) = False"
| "terminal _ = True"

subsection \<open>OpenAI\<close>

definition opt_or :: "'a option \<Rightarrow> 'a option \<Rightarrow> 'a option" where
  "opt_or a b = (case a of None \<Rightarrow> b | Some x \<Rightarrow> Some x)"

definition unwrap_or :: "'a \<Rightarrow> 'a option \<Rightarrow> 'a" where
  "unwrap_or d a = (case a of None \<Rightarrow> d | Some x \<Rightarrow> x)"

definition openai_parse_line :: "'v json_api \<Rightarrow> string \<Rightarrow> event_result option" where
  "openai_parse_line js line =
     Option.bind (sse_data line) (\<lambda>data.
     if data = ''[DONE]'' then Some (Inr Done)
     else Option.bind (from_str js data) (\<lambda>value.
     case get_key js value ''error'' of
       Some error \<Rightarrow>
         let kind = unwrap_or ''unknown''
               (opt_or (Option.bind (get_key js error ''type'') (json_str js))
                       (Option.bind (get_key js error ''code'') (json_str js)))
         in Some (Inl (Request (''openai stream error: '' @ kind)))
     | None \<Rightarrow>
         Option.bind (get_key js value ''choices'') (\<lambda>choices.
         Option.bind (get_index js choices 0) (\<lambda>choice.
         Option.bind (get_key js choice ''delta'') (\<lambda>delta.
         Option.bind (get_key js delta ''content'') (\<lambda>content.
         Option.bind (json_str js content) (\<lambda>text.
         if text = [] then None else Some (Inr (Delta text)))))))))"

definition temperature_field :: "f32 option \<Rightarrow> (string \<times> body_value) list" where
  "temperature_field t = (case t of None \<Rightarrow> [] | Some x \<Rightarrow> [(''temperature'', B_float x)])"

definition openai_request :: "string \<Rightarrow> string \<Rightarrow> chat_request \<Rightarrow> http_request" where
  "openai_request base_url api_key request =
     \<lparr>url = base_url @ ''/v1/chat/completions'',
      req_headers = [(''authorization'', ''Bearer '' @ api_key)],
      body = [(''model'', B_text (cr_model request)), (''messages'', B_messages (cr_messages request)),
              (''max_tokens'', B_num (cr_max_tokens request)), (''stream'', B_bool True)]
             @ temperature_field (cr_temperature request)\<rparr>"

subsection \<open>The SSE task of OpenAI and Anthropic\<close>

text \<open>
  The inner loop over the lines of a chunk; the first component of the result says that the
  task returned.
\<close>

fun forward_lines ::
  "(string \<Rightarrow> event_result option) \<Rightarrow> string list \<Rightarrow> channel \<Rightarrow> bool \<times> channel" where
  "forward_lines parse [] ch = (False, ch)"
| "forward_lines parse (line # lines) ch =
     (case parse line of
        None \<Rightarrow> forward_lines parse lines ch
      | Some result \<Rightarrow>
          let (sent, ch1) = send result ch
          in if \<not> sent \<or> terminal result then (True, ch1) else forward_lines parse lines ch1)"

fun sse_task ::
  "(string \<Rightarrow> event_result option) \<Rightarrow> string \<Rightarrow> (string + bytes) list \<Rightarrow> line_buffer \<Rightarrow> channel \<Rightarrow> channel" where
  "sse_task parse eof [] lb ch = snd (send (Inl (Request eof)) ch)"
| "sse_task parse eof (Inl e # items) lb ch = snd (send (Inl (Request e)) ch)"
| "sse_task parse eof (Inr chunk # items) lb ch =
     (let (lines, lb1) = push chunk lb;
          (returned, ch1) = forward_lines parse lines ch
      in if returned then ch1 else sse_task parse eof items lb1 ch1)"

definition openai_task :: "'v json_api \<Rightarrow> (string + bytes) list \<Rightarrow> channel \<Rightarrow> channel" where
  "openai_task js items ch =
     sse_task (openai_parse_line js) ''openai stream ended before [DONE]'' items line_buffer_new ch"

subsection \<open>Anthropic\<close>

definition API_VERSION :: string where "API_VERSION = ''2023-06-01''"

definition split_system :: "chat_message list \<Rightarrow> string option \<times> chat_message list" where
  "split_system messages =
     (let (system_parts, turns) = fold (\<lambda>m (parts, turns).
            if cm_role m = ''system'' then (parts @ [cm_content m], turns) else (parts, turns @ [m]))
            messages ([], [])
      in (if system_parts = [] then None else Some (join [CHR 0x0A, CHR 0x0A] system_parts), turns))"

definition anthropic_parse_line :: "'v json_api \<Rightarrow> string \<Rightarrow> event_result option" where
  "anthropic_parse_line js line =
     Option.bind (sse_data line) (\<lambda>data.
     Option.bind (from_str js data) (\<lambda>value.
     Option.bind (get_key js value ''type'') (\<lambda>ty.
     Option.bind (json_str js ty) (\<lambda>kind.
     if kind = ''content_block_delta'' then
       Option.bind (get_key js value ''delta'') (\<lambda>delta.
       Option.bind (get_key js delta ''text'') (\<lambda>txt.
       Option.bind (json_str js txt) (\<lambda>text.
       if text = [] then None else Some (Inr (Delta text)))))
     else if kind = ''message_stop'' then Some (Inr Done)
     else if kind = ''error'' then
       let kind = unwrap_or ''unknown''
             (Option.bind (Option.bind (get_key js value ''error'') (\<lambda>e. get_key js e ''type'')) (json_str js))
       in Some (Inl (Request (''anthropic stream error: '' @ kind)))
     else None))))"

definition anthropic_request :: "string \<Rightarrow> string \<Rightarrow> chat_request \<Rightarrow> http_request" where
  "anthropic_request base_url api_key request =
     (let (system, messages) = split_system (cr_messages request)
      in \<lparr>url = base_url @ ''/v1/messages'',
          req_headers = [(''x-api-key'', api_key), (''anthropic-version'', API_VERSION)],
          body = [(''model'', B_text (cr_model request)), (''messages'', B_messages messages),
                  (''max_tokens'', B_num (cr_max_tokens request)), (''stream'', B_bool True)]
                 @ temperature_field (cr_temperature request)
                 @ (case system of None \<Rightarrow> [] | Some s \<Rightarrow> [(''system'', B_text s)])\<rparr>)"

definition anthropic_task :: "'v json_api \<Rightarrow> (string + bytes) list \<Rightarrow> channel \<Rightarrow> channel" where
  "anthropic_task js items ch =
     sse_task (anthropic_parse_line js) ''anthropic stream ended before message_stop'' items line_buffer_new ch"

subsection \<open>Ollama\<close>

definition ollama_parse_line :: "'v json_api \<Rightarrow> string \<Rightarrow> provider_error + stream_event list" where
  "ollama_parse_line js line =
     (case from_str js line of
        None \<Rightarrow> Inr []
      | Some value \<Rightarrow>
          (case Option.bind (get_key js value ''error'') (json_str js) of
             Some error \<Rightarrow>
               Inl (Request (''ollama stream error: '' @ join '' '' (take 6 (split_whitespace error))))
           | None \<Rightarrow>
               Inr ((case Option.bind (Option.bind (get_key js value ''message'')
                            (\<lambda>m. get_key js m ''content'')) (json_str js) of
                       None \<Rightarrow> []
                     | Some text \<Rightarrow> if text = [] then [] else [Delta text])
                    @ (if Option.bind (get_key js value ''done'') (json_bool js) = Some True
                       then [Done] else []))))"

definition ollama_request :: "string \<Rightarrow> chat_request \<Rightarrow> http_request" where
  "ollama_request base_url request =
     \<lparr>url = base_url @ ''/api/chat'',
      req_headers = [],
      body = [(''model'', B_text (cr_model request)), (''messages'', B_messages (cr_messages request)),
              (''stream'', B_bool True),
              (''options'', B_object ((''num_predict'', B_num (cr_max_tokens request))
                                       # temperature_field (cr_temperature request)))]\<rparr>"

text \<open>
  The loops of the task. \<open>Go_on\<close>: the loop ran to its end; \<open>Break_outer\<close>: \<^verbatim>\<open>break 'outer\<close> with
  \<^verbatim>\<open>saw_done\<close> set; \<open>Return\<close>: the task returned.
\<close>

datatype loop_exit = Go_on | Break_outer | Return

fun ollama_events :: "stream_event list \<Rightarrow> channel \<Rightarrow> loop_exit \<times> channel" where
  "ollama_events [] ch = (Go_on, ch)"
| "ollama_events (event # events) ch =
     (let (sent, ch1) = send (Inr event) ch
      in if \<not> sent then (Return, ch1)
         else if event = Done then (Break_outer, ch1)
         else ollama_events events ch1)"

fun ollama_lines :: "'v json_api \<Rightarrow> string list \<Rightarrow> channel \<Rightarrow> loop_exit \<times> channel" where
  "ollama_lines js [] ch = (Go_on, ch)"
| "ollama_lines js (line # lines) ch =
     (case ollama_parse_line js line of
        Inl error \<Rightarrow> (Return, snd (send (Inl error) ch))
      | Inr events \<Rightarrow>
          let (exit, ch1) = ollama_events events ch
          in if exit = Go_on then ollama_lines js lines ch1 else (exit, ch1))"

fun ollama_read :: "'v json_api \<Rightarrow> (string + bytes) list \<Rightarrow> line_buffer \<Rightarrow> channel \<Rightarrow>
    loop_exit \<times> line_buffer \<times> channel" where
  "ollama_read js [] lb ch = (Go_on, lb, ch)"
| "ollama_read js (Inl e # items) lb ch = (Return, lb, snd (send (Inl (Request e)) ch))"
| "ollama_read js (Inr chunk # items) lb ch =
     (let (lines, lb1) = push chunk lb;
          (exit, ch1) = ollama_lines js (filter (\<lambda>l. l \<noteq> []) lines) ch
      in if exit = Go_on then ollama_read js items lb1 ch1 else (exit, lb1, ch1))"

text \<open>The events of the final unterminated record: errors of \<^verbatim>\<open>send\<close> are ignored.\<close>

fun ollama_final :: "stream_event list \<Rightarrow> bool \<Rightarrow> channel \<Rightarrow> bool \<times> channel" where
  "ollama_final [] saw_done ch = (saw_done, ch)"
| "ollama_final (event # events) saw_done ch =
     ollama_final events (saw_done \<or> event = Done) (snd (send (Inr event) ch))"

definition ollama_eof :: string where "ollama_eof = ''ollama stream ended before done''"

definition ollama_task :: "'v json_api \<Rightarrow> (string + bytes) list \<Rightarrow> channel \<Rightarrow> channel" where
  "ollama_task js items ch =
     (case ollama_read js items line_buffer_new ch of
        (Return, _, ch1) \<Rightarrow> ch1
      | (Break_outer, _, ch1) \<Rightarrow> ch1
      | (Go_on, lb1, ch1) \<Rightarrow>
          (case fst (flush lb1) of
             None \<Rightarrow> snd (send (Inl (Request ollama_eof)) ch1)
           | Some line \<Rightarrow>
               (case ollama_parse_line js line of
                  Inl error \<Rightarrow> snd (send (Inl error) ch1)
                | Inr events \<Rightarrow>
                    let (saw_done, ch2) = ollama_final events False ch1
                    in if saw_done then ch2 else snd (send (Inl (Request ollama_eof)) ch2))))"

subsection \<open>The configured provider\<close>

datatype chat_provider =
    OpenAiProvider string string
  | AnthropicProvider string string
  | OllamaProvider string

fun provider_name :: "chat_provider \<Rightarrow> string" where
  "provider_name (OpenAiProvider _ _) = ''openai''"
| "provider_name (AnthropicProvider _ _) = ''anthropic''"
| "provider_name (OllamaProvider _) = ''ollama''"

definition build_provider :: "config \<Rightarrow> chat_provider" where
  "build_provider c = (case provider c of
       OpenAi \<Rightarrow> OpenAiProvider (openai_base_url c) (unwrap_or [] (openai_api_key c))
     | Anthropic \<Rightarrow> AnthropicProvider (anthropic_base_url c) (unwrap_or [] (anthropic_api_key c))
     | Ollama \<Rightarrow> OllamaProvider (ollama_base_url c))"

fun provider_request :: "chat_provider \<Rightarrow> chat_request \<Rightarrow> http_request" where
  "provider_request (OpenAiProvider base key) r = openai_request base key r"
| "provider_request (AnthropicProvider base key) r = anthropic_request base key r"
| "provider_request (OllamaProvider base) r = ollama_request base r"

fun provider_task :: "'v json_api \<Rightarrow> chat_provider \<Rightarrow> (string + bytes) list \<Rightarrow> channel \<Rightarrow> channel" where
  "provider_task js (OpenAiProvider _ _) items ch = openai_task js items ch"
| "provider_task js (AnthropicProvider _ _) items ch = anthropic_task js items ch"
| "provider_task js (OllamaProvider _) items ch = ollama_task js items ch"

text \<open>
  \<^verbatim>\<open>stream_chat\<close>: the result is the event stream, as what a consumer of the given patience is
  delivered.
\<close>

definition stream_chat ::
  "'v json_api \<Rightarrow> (http_request \<Rightarrow> string + http_response) \<Rightarrow> chat_provider \<Rightarrow> chat_request \<Rightarrow>
   provider_error + (nat option \<Rightarrow> event_result list)" where
  "stream_chat js http_send p request =
     bindR (map_err Request (http_send (provider_request p request))) (\<lambda>response.
     if \<not> (200 \<le> resp_status response \<and> resp_status response < 300)
     then Inl (Status (resp_status response))
     else Inr (\<lambda>pat. delivered (provider_task js p (chunks response) (channel_new pat))))"

subsection \<open>Reference: the transcript of a list of lines\<close>

text \<open>What parsed lines amount to: everything up to and including the first terminal event.\<close>

fun until_terminal :: "event_result list \<Rightarrow> event_result list" where
  "until_terminal [] = []"
| "until_terminal (r # rs) = (if terminal r then [r] else r # until_terminal rs)"

definition close_with :: "string \<Rightarrow> event_result list \<Rightarrow> event_result list" where
  "close_with eof rs =
     (let us = until_terminal rs in if list_ex terminal us then us else us @ [Inl (Request eof)])"

definition parsed :: "(string \<Rightarrow> event_result option) \<Rightarrow> string list \<Rightarrow> event_result list" where
  "parsed parse lines = List.map_filter parse lines"

definition ollama_results :: "'v json_api \<Rightarrow> string \<Rightarrow> event_result list" where
  "ollama_results js line =
     (case ollama_parse_line js line of Inl e \<Rightarrow> [Inl e] | Inr evs \<Rightarrow> map Inr evs)"

definition final_lines :: "line_buffer \<Rightarrow> string list" where
  "final_lines lb = (case fst (flush lb) of None \<Rightarrow> [] | Some l \<Rightarrow> [l])"

text \<open>
  The lines of a body, what is left in the buffer, and the read error that cut it short, if any.
\<close>

fun read_lines :: "(string + bytes) list \<Rightarrow> line_buffer \<Rightarrow> string list \<times> line_buffer \<times> string option" where
  "read_lines [] lb = ([], lb, None)"
| "read_lines (Inl e # items) lb = ([], lb, Some e)"
| "read_lines (Inr c # items) lb =
     (let (lines, lb1) = push c lb; (more, lb2, err) = read_lines items lb1 in (lines @ more, lb2, err))"

fun deliver :: "event_result list \<Rightarrow> channel \<Rightarrow> channel" where
  "deliver [] ch = ch"
| "deliver (r # rs) ch = deliver rs (snd (send r ch))"

definition sse_transcript ::
  "(string \<Rightarrow> event_result option) \<Rightarrow> string \<Rightarrow> line_buffer \<Rightarrow> (string + bytes) list \<Rightarrow> event_result list" where
  "sse_transcript parse eof lb items =
     (let (lines, _, err) = read_lines items lb in close_with (unwrap_or eof err) (parsed parse lines))"

definition ollama_transcript ::
  "'v json_api \<Rightarrow> line_buffer \<Rightarrow> (string + bytes) list \<Rightarrow> event_result list" where
  "ollama_transcript js lb items =
     (let (lines, rest, err) = read_lines items lb
      in close_with (unwrap_or ollama_eof err)
           (concat (map (ollama_results js)
              (filter (\<lambda>l. l \<noteq> []) lines @ (if err = None then final_lines rest else [])))))"

definition provider_transcript :: "'v json_api \<Rightarrow> chat_provider \<Rightarrow> (string + bytes) list \<Rightarrow> event_result list" where
  "provider_transcript js p items = (case p of
       OpenAiProvider _ _ \<Rightarrow>
         sse_transcript (openai_parse_line js) ''openai stream ended before [DONE]'' line_buffer_new items
     | AnthropicProvider _ _ \<Rightarrow>
         sse_transcript (anthropic_parse_line js) ''anthropic stream ended before message_stop''
           line_buffer_new items
     | OllamaProvider _ \<Rightarrow> ollama_transcript js line_buffer_new items)"

text \<open>
  The end of an answer in the three protocols, and the lines of a body in which it can stand: the
  complete lines, and for Ollama also the unterminated last one when the body was read to its end.
\<close>

definition end_marker :: "'v json_api \<Rightarrow> chat_provider \<Rightarrow> string \<Rightarrow> bool" where
  "end_marker js p line = (case p of
       OpenAiProvider _ _ \<Rightarrow> sse_data line = Some ''[DONE]''
     | AnthropicProvider _ _ \<Rightarrow>
         Option.bind (Option.bind (Option.bind (sse_data line) (from_str js))
           (\<lambda>v. get_key js v ''type'')) (json_str js) = Some ''message_stop''
     | OllamaProvider _ \<Rightarrow>
         Option.bind (Option.bind (from_str js line) (\<lambda>v. get_key js v ''done'')) (json_bool js) = Some True)"

definition body_lines :: "chat_provider \<Rightarrow> (string + bytes) list \<Rightarrow> string list" where
  "body_lines p items = (let (lines, rest, err) = read_lines items line_buffer_new in
     case p of
       OllamaProvider _ \<Rightarrow> filter (\<lambda>l. l \<noteq> []) lines @ (if err = None then final_lines rest else [])
     | _ \<Rightarrow> lines)"

text \<open>The shape every event stream has: text, then exactly one terminal event.\<close>

definition one_terminal :: "event_result list \<Rightarrow> bool" where
  "one_terminal rs \<longleftrightarrow> rs \<noteq> [] \<and> terminal (last rs) \<and> list_all (\<lambda>r. \<not> terminal r) (butlast rs)"

text \<open>
  A JSON library for witnesses: every text parses to itself, every member and element of a
  value is the value, except that there is no \<^verbatim>\<open>error\<close> member.
\<close>

definition demo_json :: "string json_api" where
  "demo_json = \<lparr>from_str = Some, get_key = \<lambda>v k. if k = ''error'' then None else Some v,
     get_index = \<lambda>v i. Some v, json_str = Some, json_bool = \<lambda>v. None\<rparr>"

section \<open>The contract of an event source\<close>

text \<open>
  What \<^verbatim>\<open>ChatProvider::stream_chat\<close> promises its consumer: the task delivers a transcript that
  ends with its only terminal event.
\<close>

lemma deliver_append: "deliver (rs @ qs) ch = deliver qs (deliver rs ch)"
  by (induction rs arbitrary: ch) simp_all

lemma deliver_closed: "patience ch = Some 0 \<Longrightarrow> deliver rs ch = ch"
  by (induction rs) (simp_all add: send_def)

lemma deliver_patient: "patience ch = None \<Longrightarrow> deliver rs ch = ch\<lparr>delivered := delivered ch @ rs\<rparr>"
  by (induction rs arbitrary: ch) (simp_all add: send_def)

lemma deliver_impatient:
  "patience ch = Some n \<Longrightarrow> delivered (deliver rs ch) = delivered ch @ take n rs"
proof (induction rs arbitrary: ch n)
  case (Cons r rs)
  then show ?case by (cases n) (simp_all add: send_def deliver_closed)
qed simp

lemma deliver_new:
  "delivered (deliver rs (channel_new pat)) = (case pat of None \<Rightarrow> rs | Some n \<Rightarrow> take n rs)"
  by (cases pat) (simp_all add: channel_new_def deliver_patient deliver_impatient)

locale event_source =
  fixes task :: "(string + bytes) list \<Rightarrow> channel \<Rightarrow> channel"
    and transcript :: "(string + bytes) list \<Rightarrow> event_result list"
  assumes task_delivers: "task items ch = deliver (transcript items) ch"
    and transcript_closed: "one_terminal (transcript items)"
begin

lemma patient_consumer: "one_terminal (delivered (task items (channel_new None)))"
  by (simp add: task_delivers deliver_new transcript_closed)

lemma consumer_sees_prefix:
  "delivered (task items (channel_new (Some n))) = take n (delivered (task items (channel_new None)))"
  by (simp add: task_delivers deliver_new)

lemma nothing_after_terminal:
  assumes "i < length (delivered (task items (channel_new pat)))"
    and "terminal (delivered (task items (channel_new pat)) ! i)"
  shows "Suc i = length (transcript items) \<and> delivered (task items (channel_new pat)) = transcript items"
proof -
  let ?t = "transcript items"
  obtain n where n: "delivered (task items (channel_new pat)) = take n ?t"
  proof (cases pat)
    case None
    then show ?thesis using that [of "length ?t"] by (simp add: task_delivers deliver_new)
  next
    case (Some m)
    then show ?thesis using that [of m] by (simp add: task_delivers deliver_new)
  qed
  have i: "i < n" "i < length ?t" "terminal (?t ! i)" using assms n by auto
  have "\<not> i < length (butlast ?t)"
  proof
    assume "i < length (butlast ?t)"
    then have "butlast ?t ! i \<in> set (butlast ?t)" and "butlast ?t ! i = ?t ! i"
      by (rule nth_mem, rule nth_butlast)
    then show False using transcript_closed [of items] i(3) by (auto simp: one_terminal_def list_all_iff)
  qed
  with i n show ?thesis by auto
qed

end

section \<open>Lemmas\<close>

subsection \<open>The tasks deliver their transcripts\<close>

lemma send_ok: "send r ch = (True, ch') \<Longrightarrow> deliver (r # rs) ch = deliver rs ch'"
  by simp

lemma send_refused: "send r ch = (False, ch') \<Longrightarrow> ch' = ch \<and> deliver rs ch = ch"
  by (auto simp: send_def deliver_closed split: option.splits nat.splits)

lemma until_terminal_append:
  "until_terminal (rs @ qs) =
     (if list_ex terminal rs then until_terminal rs else rs @ until_terminal qs)"
  by (induction rs) auto

lemma list_ex_until_terminal [simp]: "list_ex terminal (until_terminal rs) = list_ex terminal rs"
  by (induction rs) auto

lemma until_terminal_none: "\<not> list_ex terminal rs \<Longrightarrow> until_terminal rs = rs"
  by (induction rs) auto

lemma one_terminal_until: "list_ex terminal rs \<Longrightarrow> one_terminal (until_terminal rs)"
proof (induction rs)
  case (Cons r rs)
  then show ?case by (cases "until_terminal rs") (auto simp: one_terminal_def)
qed simp

lemma one_terminal_close_with: "one_terminal (close_with eof rs)"
  by (auto simp: close_with_def Let_def one_terminal_until until_terminal_none)
    (auto simp: one_terminal_def list_all_iff list_ex_iff)

lemma close_with_append:
  "\<not> list_ex terminal rs \<Longrightarrow> close_with eof (rs @ qs) = rs @ close_with eof qs"
  by (simp add: close_with_def Let_def until_terminal_append)

lemma close_with_terminal:
  "list_ex terminal rs \<Longrightarrow> close_with eof (rs @ qs) = until_terminal rs"
  by (simp add: close_with_def Let_def until_terminal_append)

lemma parsed_simps [simp]:
  "parsed parse [] = []"
  "parsed parse (l # ls) = (case parse l of None \<Rightarrow> parsed parse ls | Some r \<Rightarrow> r # parsed parse ls)"
  "parsed parse (ls @ ms) = parsed parse ls @ parsed parse ms"
  by (simp_all add: parsed_def List.map_filter_simps split: option.split)
    (induction ls; simp add: List.map_filter_simps split: option.split)

lemma close_with_Cons [simp]:
  "close_with eof (r # rs) = (if terminal r then [r] else r # close_with eof rs)"
  "close_with eof [] = [Inl (Request eof)]"
  by (simp_all add: close_with_def Let_def)

lemma forward_lines_deliver:
  "forward_lines parse lines ch = (returned, ch') \<Longrightarrow>
     (if returned then deliver (close_with eof (parsed parse lines @ qs)) ch = ch'
      else deliver (close_with eof (parsed parse lines @ qs)) ch = deliver (close_with eof qs) ch')"
proof (induction parse lines ch rule: forward_lines.induct)
  case (2 parse line lines ch)
  show ?case
  proof (cases "parse line")
    case None
    then show ?thesis using 2 by simp
  next
    case (Some r)
    obtain sent ch1 where s: "send r ch = (sent, ch1)" by (cases "send r ch")
    show ?thesis
    proof (cases "\<not> sent \<or> terminal r")
      case True
      then have "returned" "ch' = ch1" using 2(3) Some s by auto
      moreover have "deliver rs ch = ch1" if "\<not> sent" for rs using send_refused [of r ch ch1 rs] s that by simp
      ultimately show ?thesis using True Some s by (cases sent) simp_all
    next
      case False
      then show ?thesis using 2 Some s by simp
    qed
  qed
qed simp

lemma sse_task_deliver:
  "sse_task parse eof items lb ch = deliver (sse_transcript parse eof lb items) ch"
proof (induction parse eof items lb ch rule: sse_task.induct)
  case (3 parse eof chunk items lb ch)
  obtain lines lb1 where p: "push chunk lb = (lines, lb1)" by (cases "push chunk lb")
  obtain returned ch1 where f: "forward_lines parse lines ch = (returned, ch1)"
    by (cases "forward_lines parse lines ch")
  obtain more lb2 err where r: "read_lines items lb1 = (more, lb2, err)" by (cases "read_lines items lb1")
  have "sse_transcript parse eof lb (Inr chunk # items) =
      close_with (unwrap_or eof err) (parsed parse lines @ parsed parse more)"
    by (simp add: sse_transcript_def p r)
  moreover have "sse_transcript parse eof lb1 items = close_with (unwrap_or eof err) (parsed parse more)"
    by (simp add: sse_transcript_def r)
  ultimately show ?case
    using forward_lines_deliver [OF f, of "unwrap_or eof err" "parsed parse more"] 3 [OF p [symmetric] refl f [symmetric] refl] p f
    by (simp split: if_splits)
qed (simp_all add: sse_transcript_def unwrap_or_def)

lemma terminal_event [simp]: "terminal (Inr ev) \<longleftrightarrow> ev = Done"
  by (cases ev) simp_all

lemma ollama_events_deliver:
  "ollama_events evs ch = (exit, ch') \<Longrightarrow>
     deliver (close_with eof (map Inr evs @ qs)) ch =
       (if exit = Go_on then deliver (close_with eof qs) ch' else ch')"
proof (induction evs ch rule: ollama_events.induct)
  case (2 ev evs ch)
  obtain sent ch1 where s: "send (Inr ev) ch = (sent, ch1)" by (cases "send (Inr ev) ch")
  show ?case
  proof (cases sent)
    case True
    then show ?thesis using 2 s by (auto split: if_splits)
  next
    case False
    then have "exit = Return" "ch' = ch1" using 2(2) s by auto
    then show ?thesis using send_refused [of "Inr ev" ch ch1] s False by simp
  qed
qed simp

lemma ollama_lines_deliver:
  "ollama_lines js lines ch = (exit, ch') \<Longrightarrow>
     deliver (close_with eof (concat (map (ollama_results js) lines) @ qs)) ch =
       (if exit = Go_on then deliver (close_with eof qs) ch' else ch')"
proof (induction js lines ch rule: ollama_lines.induct)
  case (2 js line lines ch)
  show ?case
  proof (cases "ollama_parse_line js line")
    case (Inl e)
    then show ?thesis using 2(2) by (auto simp: ollama_results_def)
  next
    case (Inr evs)
    obtain ex ch1 where e: "ollama_events evs ch = (ex, ch1)" by (cases "ollama_events evs ch")
    show ?thesis
      using ollama_events_deliver [OF e, of eof "concat (map (ollama_results js) lines) @ qs"]
        2(1) [OF Inr e [symmetric] refl] 2(2) Inr e
      by (cases "ex = Go_on") (simp_all add: ollama_results_def [of js line])
  qed
qed simp

lemma ollama_read_deliver:
  "ollama_read js items lb ch = (exit, lb', ch') \<Longrightarrow> read_lines items lb = (lines, rest, err) \<Longrightarrow>
     (if exit = Go_on
      then err = None \<and> rest = lb' \<and>
        deliver (close_with eof (concat (map (ollama_results js) (filter (\<lambda>l. l \<noteq> []) lines)) @ qs)) ch =
        deliver (close_with eof qs) ch'
      else deliver (close_with (unwrap_or eof err)
        (concat (map (ollama_results js) (filter (\<lambda>l. l \<noteq> []) lines)) @ (if err = None then qs else []))) ch = ch')"
proof (induction js items lb ch arbitrary: lines rule: ollama_read.induct)
  case (3 js chunk items lb ch)
  obtain ls lb1 where p: "push chunk lb = (ls, lb1)" by (cases "push chunk lb")
  obtain more where r: "read_lines items lb1 = (more, rest, err)" and lines: "lines = ls @ more"
    using 3(3) p by (auto split: prod.splits)
  obtain ex ch1 where l: "ollama_lines js (filter (\<lambda>l. l \<noteq> []) ls) ch = (ex, ch1)"
    by (cases "ollama_lines js (filter (\<lambda>l. l \<noteq> []) ls) ch")
  note deliver = ollama_lines_deliver [OF l]
  show ?case
    using 3(1) [OF p [symmetric] refl l [symmetric] refl _ _ r] 3(2) p l lines deliver
    by (cases "ex = Go_on") (simp_all split: if_splits)
qed (auto simp: unwrap_or_def)

lemma ollama_final_deliver:
  "ollama_final evs saw ch = (saw \<or> Done \<in> set evs, deliver (map Inr evs) ch)"
  by (induction evs saw ch rule: ollama_final.induct) auto

lemma ollama_done_last:
  "ollama_parse_line js line = Inr evs \<Longrightarrow> until_terminal (map Inr evs) = map Inr evs"
  by (auto simp: ollama_parse_line_def split: option.splits if_splits)

lemma ollama_final_close:
  assumes "ollama_parse_line js line = Inr evs"
  shows "close_with eof (map Inr evs) = map Inr evs @ (if Done \<in> set evs then [] else [Inl (Request eof)])"
proof -
  have "list_ex terminal (map Inr evs) \<longleftrightarrow> Done \<in> set evs" by (auto simp: list_ex_iff)
  with ollama_done_last [OF assms] show ?thesis by (simp add: close_with_def)
qed

lemma ollama_task_deliver: "ollama_task js items ch = deliver (ollama_transcript js line_buffer_new items) ch"
proof -
  obtain exit lb1 ch1 where o: "ollama_read js items line_buffer_new ch = (exit, lb1, ch1)"
    by (cases "ollama_read js items line_buffer_new ch")
  obtain lines rest err where r: "read_lines items line_buffer_new = (lines, rest, err)"
    by (cases "read_lines items line_buffer_new")
  note deliver = ollama_read_deliver [OF o r, of ollama_eof]
  show ?thesis
  proof (cases "exit = Go_on")
    case False
    then have "ollama_task js items ch = ch1"
      using o by (cases exit) (simp_all add: ollama_task_def)
    then show ?thesis
      using False deliver [of "concat (map (ollama_results js) (final_lines rest))"] r
      by (cases err) (simp_all add: ollama_transcript_def)
  next
    case True
    let ?qs = "concat (map (ollama_results js) (final_lines lb1))"
    have "ollama_task js items ch = deliver (close_with ollama_eof ?qs) ch1"
      using True o
      by (auto simp: ollama_task_def final_lines_def ollama_results_def ollama_final_deliver
          ollama_final_close deliver_append split: option.splits sum.splits)
    then show ?thesis
      using True deliver [of ?qs] r by (simp add: ollama_transcript_def unwrap_or_def)
  qed
qed

subsection \<open>The three providers\<close>

interpretation openai: event_source
  "openai_task js" "sse_transcript (openai_parse_line js) ''openai stream ended before [DONE]'' line_buffer_new"
  for js :: "'v json_api"
  by unfold_locales (simp_all add: openai_task_def sse_task_deliver sse_transcript_def
      one_terminal_close_with split: prod.split)

interpretation anthropic: event_source
  "anthropic_task js"
  "sse_transcript (anthropic_parse_line js) ''anthropic stream ended before message_stop'' line_buffer_new"
  for js :: "'v json_api"
  by unfold_locales (simp_all add: anthropic_task_def sse_task_deliver sse_transcript_def
      one_terminal_close_with split: prod.split)

interpretation ollama: event_source "ollama_task js" "ollama_transcript js line_buffer_new"
  for js :: "'v json_api"
  by unfold_locales (simp_all add: ollama_task_deliver ollama_transcript_def
      one_terminal_close_with split: prod.split)

interpretation configured: event_source "provider_task js p" "provider_transcript js p"
  for js :: "'v json_api" and p :: chat_provider
  by unfold_locales (cases p; simp add: provider_transcript_def openai.task_delivers
      anthropic.task_delivers ollama.task_delivers openai.transcript_closed
      anthropic.transcript_closed ollama.transcript_closed)+

subsection \<open>Chunking\<close>

lemma read_lines_chunks:
  "read_lines (map Inr cs) lb = (fst (push_all cs lb), snd (push_all cs lb), None)"
  by (induction cs arbitrary: lb) (auto split: prod.splits)

lemma read_lines_fit:
  "lines_fit (concat cs) \<Longrightarrow>
     read_lines (map Inr cs) line_buffer_new =
       (stream_lines (concat cs), \<lparr>buffer = last (pieces (concat cs))\<rparr>, None)"
  using push_all_fits [of line_buffer_new cs] by (simp add: read_lines_chunks line_buffer_new_def)

lemma provider_transcript_cong:
  "read_lines xs line_buffer_new = read_lines ys line_buffer_new \<Longrightarrow>
     provider_transcript js p xs = provider_transcript js p ys"
  by (simp add: provider_transcript_def sse_transcript_def ollama_transcript_def split: chat_provider.split)

subsection \<open>Where a clean end comes from\<close>

lemma close_with_set: "set (close_with eof rs) \<subseteq> set rs \<union> {Inl (Request eof)}"
  by (induction rs) auto

lemma done_is_marked:
  "openai_parse_line js line = Some (Inr Done) \<Longrightarrow> end_marker js (OpenAiProvider b k) line"
  "anthropic_parse_line js line = Some (Inr Done) \<Longrightarrow> end_marker js (AnthropicProvider b k) line"
  "Inr Done \<in> set (ollama_results js line) \<Longrightarrow> end_marker js (OllamaProvider b) line"
  by (auto simp: openai_parse_line_def anthropic_parse_line_def ollama_results_def ollama_parse_line_def
      end_marker_def Let_def bind_eq_Some_conv split: if_splits option.splits)

lemma parsed_set: "r \<in> set (parsed parse lines) \<longleftrightarrow> (\<exists>l \<in> set lines. parse l = Some r)"
  by (induction lines) (auto split: option.splits)

lemma close_with_done: "Inr Done \<in> set (close_with eof rs) \<Longrightarrow> Inr Done \<in> set rs"
  using close_with_set [of eof rs] by auto

lemma transcript_done:
  assumes "Inr Done \<in> set (provider_transcript js p items)"
  shows "list_ex (end_marker js p) (body_lines p items)"
proof -
  obtain lines rest err where r: "read_lines items line_buffer_new = (lines, rest, err)"
    by (cases "read_lines items line_buffer_new")
  show ?thesis
  proof (cases p)
    case (OpenAiProvider b k)
    then have "Inr Done \<in> set (parsed (openai_parse_line js) lines)"
      using assms r by (auto simp: provider_transcript_def sse_transcript_def dest: close_with_done)
    then show ?thesis
      using r OpenAiProvider by (auto simp: parsed_set body_lines_def list_ex_iff intro: done_is_marked)
  next
    case (AnthropicProvider b k)
    then have "Inr Done \<in> set (parsed (anthropic_parse_line js) lines)"
      using assms r by (auto simp: provider_transcript_def sse_transcript_def dest: close_with_done)
    then show ?thesis
      using r AnthropicProvider by (auto simp: parsed_set body_lines_def list_ex_iff intro: done_is_marked)
  next
    case (OllamaProvider b)
    then have "Inr Done \<in> set (close_with (unwrap_or ollama_eof err)
        (concat (map (ollama_results js) (body_lines p items))))"
      using assms r by (simp add: provider_transcript_def ollama_transcript_def body_lines_def)
    then obtain l where "l \<in> set (body_lines p items)" "Inr Done \<in> set (ollama_results js l)"
      by (auto dest!: close_with_done)
    then show ?thesis using OllamaProvider done_is_marked(3) by (auto simp: list_ex_iff)
  qed
qed

subsection \<open>System prompts\<close>

lemma split_system_fold:
  "fold (\<lambda>m (parts, turns).
      if cm_role m = ''system'' then (parts @ [cm_content m], turns) else (parts, turns @ [m]))
    ms (ps, ts) =
   (ps @ map cm_content (filter (\<lambda>m. cm_role m = ''system'') ms), ts @ filter (\<lambda>m. cm_role m \<noteq> ''system'') ms)"
  by (induction ms arbitrary: ps ts) auto

section \<open>Properties\<close>

text \<open>
  C13. The stream contract of every provider: whatever the upstream sends, in whatever chunks, with
  whatever read error, a consumer that keeps listening gets text followed by exactly one
  terminal event (the end of the answer or an error), and a consumer that stops after \<open>n\<close>
  events got the first \<open>n\<close> of the same events.
\<close>

theorem provider_stream_contract:
  "one_terminal (delivered (provider_task js p items (channel_new None))) \<and>
   delivered (provider_task js p items (channel_new (Some n))) =
     take n (delivered (provider_task js p items (channel_new None)))"
  by (rule conjI [OF configured.patient_consumer configured.consumer_sees_prefix])

text \<open>
  C34. A clean end is never invented: with each of the three providers, when the body ends, or
  fails, without a line that carries the protocol's end marker (\<^verbatim>\<open>[DONE]\<close>, \<^verbatim>\<open>message_stop\<close>,
  \<^verbatim>\<open>done: true\<close>), no consumer ever sees the end of the answer, and one that keeps listening gets
  an error as its last event.
\<close>

theorem truncation_is_an_error:
  assumes "\<not> list_ex (end_marker js p) (body_lines p items)"
  shows "Inr Done \<notin> set (delivered (provider_task js p items (channel_new pat))) \<and>
    (\<exists>e. last (delivered (provider_task js p items (channel_new None))) = Inl e)"
proof -
  let ?t = "provider_transcript js p items"
  have no: "Inr Done \<notin> set ?t" using transcript_done assms by blast
  have "last ?t \<in> set ?t" and "terminal (last ?t)"
    using configured.transcript_closed [of js p items] by (simp_all add: one_terminal_def)
  then have "\<exists>e. last ?t = Inl e" using no by (metis sum.exhaust terminal_event)
  then show ?thesis
    using no by (auto simp: configured.task_delivers deliver_new split: option.split dest: in_set_takeD)
qed

text \<open>A body of OpenAI that stops after its first delta, and one of Ollama that stops in its first line.\<close>

theorem truncation_is_an_error_witness:
  "(\<exists>e. last (delivered (provider_task demo_json (OpenAiProvider ''u'' ''k'')
      [Inr (as_bytes (''data: hi'' @ [CHR 0x0A]))] (channel_new None))) = Inl e) \<and>
   (\<exists>e. last (delivered (provider_task demo_json (OllamaProvider ''u'') [Inr [100, 97]] (channel_new None))) = Inl e)"
proof -
  have drain: "drain_lines (as_bytes (''data: hi'' @ [CHR 0x0A])) = ([''data: hi''], [])"
    "drain_lines [100, 97] = ([], [100, 97])" by code_simp+
  have lines: "body_lines (OpenAiProvider ''u'' ''k'') [Inr (as_bytes (''data: hi'' @ [CHR 0x0A]))] = [''data: hi'']"
    "body_lines (OllamaProvider ''u'') [Inr [100, 97]] = final_lines \<lparr>buffer = [100, 97]\<rparr>"
    unfolding body_lines_def read_lines.simps push_def line_buffer_new_def
    by (simp_all add: drain [simplified] MAX_LINE_BYTES_def)
  have "\<not> list_ex (end_marker demo_json (OpenAiProvider ''u'' ''k'')) [''data: hi'']" by code_simp
  moreover have "\<not> list_ex (end_marker demo_json (OllamaProvider ''u'')) (final_lines \<lparr>buffer = [100, 97]\<rparr>)"
    by code_simp
  ultimately show ?thesis using truncation_is_an_error lines by metis
qed

text \<open>
  C14. The events depend on the bytes of the answer, not on how the network delivered them: two
  chunkings of the same body, none of whose lines exceeds the bound, give every consumer the
  same events.
\<close>

theorem events_independent_of_chunking:
  assumes "concat cs = concat ds" and "lines_fit (concat cs)"
  shows "delivered (provider_task js p (map Inr cs) (channel_new pat)) =
         delivered (provider_task js p (map Inr ds) (channel_new pat))"
proof -
  have "read_lines (map Inr cs) line_buffer_new = read_lines (map Inr ds) line_buffer_new"
    using assms read_lines_fit [of cs] read_lines_fit [of ds] by simp
  then have "provider_transcript js p (map Inr cs) = provider_transcript js p (map Inr ds)"
    by (rule provider_transcript_cong)
  then show ?thesis by (simp add: configured.task_delivers)
qed

theorem events_independent_of_chunking_witness:
  "delivered (provider_task demo_json (OllamaProvider ''u'') (map Inr [[100, 97], [116, 97]]) (channel_new None)) =
   delivered (provider_task demo_json (OllamaProvider ''u'') (map Inr [[100], [97, 116, 97]]) (channel_new None))"
proof (rule events_independent_of_chunking)
  show "lines_fit (concat [[100, 97], [116, 97]])"
    by (simp add: lines_fit_def pieces_no_LF LF_def MAX_LINE_BYTES_def)
qed simp

text \<open>
  The request to Anthropic carries no system role among its turns: the other messages are sent
  in order and unchanged, and the system texts, joined by blank lines, go to the \<^verbatim>\<open>system\<close> field,
  which is absent when there are none.
\<close>

lemma anthropic_hoists_system:
  "split_system ms =
     ((if list_ex (\<lambda>m. cm_role m = ''system'') ms
       then Some (join [CHR 0x0A, CHR 0x0A] (map cm_content (filter (\<lambda>m. cm_role m = ''system'') ms)))
       else None),
      filter (\<lambda>m. cm_role m \<noteq> ''system'') ms) \<and>
   map_of (body (anthropic_request base key r)) ''messages'' =
     Some (B_messages (filter (\<lambda>m. cm_role m \<noteq> ''system'') (cr_messages r))) \<and>
   map_of (body (anthropic_request base key r)) ''system'' =
     map_option B_text (fst (split_system (cr_messages r)))"
  by (auto simp: split_system_def split_system_fold anthropic_request_def temperature_field_def
      filter_empty_conv list_ex_iff split: option.split prod.split)

end
