(* ===== verification/Chat_Stream.thy ===== *)
theory Chat_Stream
  imports Stream_Session Providers Rate_Limit Auth_Service "HOL-Library.Sublist"
begin

text \<open>
  \<^verbatim>\<open>src/api/chat_stream.rs\<close>: the encrypted chat over a WebSocket, from the upgrade to the close.

  The peer and the rest of the server are the list of arrivals. An arrival is what the socket's
  \<^verbatim>\<open>recv\<close> yields next, together with the instant it is available, how the runtime resolves a tie
  with the timer, how long the handler is busy with it, what other tasks did to the shared state
  in the meantime, what the AI provider would answer, and whether the provider stalls: never
  answers the request, or stops in the middle of its answer without closing the connection, which
  no timeout of the client covers. Writing to a peer that does not read blocks in the same way. A
  handler whose await never returns is left \<open>Waiting\<close>. The handler reads the database and the
  limiter once per prompt and the counters never, so that one such interference per arrival is
  as general as one between any two of its statements. When the list is exhausted the peer stays
  silent. Instants are microseconds of the monotonic clock.

  Parameters: base64, serde's decoding of the two JSON inputs, the text of an identifier, and the
  libraries of the components used. What is sent is kept as the frame rather than as its JSON text.
\<close>

section \<open>Definitions\<close>

subsection \<open>Frames and payloads\<close>

definition MAX_PROMPT_MESSAGES :: nat where "MAX_PROMPT_MESSAGES = 100"
definition MAX_PROMPT_BYTES :: nat where "MAX_PROMPT_BYTES = 512 * 1024"
definition MAX_WS_MESSAGE_BYTES :: nat where "MAX_WS_MESSAGE_BYTES = 2 * 1024 * 1024"
definition DEFAULT_MAX_TOKENS :: u32 where "DEFAULT_MAX_TOKENS = 1024"
definition MAX_MAX_TOKENS :: u32 where "MAX_MAX_TOKENS = 8192"

datatype server_frame =
    ServerHello string
  | Chunk string string
  | Done_frame
  | Error_frame string string

datatype client_frame =
    ClientHello string
  | Prompt string string
  | Close_frame

record prompt_payload =
  pp_messages :: "chat_message list"
  pp_model :: "string option"
  pp_max_tokens :: "u32 option"
  pp_temperature :: "f32 option"

record ('c, 'sk, 'v) chat_lib =
  cl_encode :: "bytes \<Rightarrow> string"
  cl_decode :: "string \<Rightarrow> bytes option"
  client_frame_of :: "string \<Rightarrow> client_frame option"
  payload_of :: "bytes \<Rightarrow> prompt_payload option"
  uuid_text :: "uuid \<Rightarrow> string"
  cl_aead :: "'c aead_api"
  cl_kex :: "'sk kex_api"
  cl_json :: "'v json_api"

subsection \<open>The connection and its surroundings\<close>

record chat_world =
  w_store :: store
  w_limiter :: rate_limiter
  w_metrics :: metrics

datatype ws_message = Text string | Binary bytes | Ping bytes | Pong bytes | Close_message

datatype ws_item = Received ws_message | Recv_error string | Hangup

text \<open>\<open>Silent\<close>: no response ever comes; \<open>Stuck n\<close>: after \<open>n\<close> events the next one never comes.\<close>

datatype upstream_stall = Steady | Silent | Stuck nat

record arrival =
  item :: ws_item
  arrives :: nat
  tie :: bool
  busy :: nat
  lag :: nat
  others :: "chat_world \<Rightarrow> chat_world"
  upstream :: "http_request \<Rightarrow> string + http_response"
  stalls :: upstream_stall

datatype ws_out = Out_frame server_frame | Out_close

text \<open>
  The socket takes \<open>sends_left\<close> more messages, any number for \<open>None\<close>; after that a write fails, or,
  when the peer \<open>jams\<close> the connection by not reading, never returns.
\<close>

record conn =
  world :: chat_world
  sess :: stream_session
  outbox :: "ws_out list"
  sends_left :: "nat option"
  jams :: bool
  clock :: nat
  forwarded :: "chat_request list"

text \<open>How a connection can stop short: an error, or an await that never returns.\<close>

datatype chat_stop = Failed string | Waiting

type_synonym 'a chat = "(conn, chat_stop, 'a) action"

definition send_out :: "ws_out \<Rightarrow> unit chat" where
  "send_out m s = (case sends_left s of
       None \<Rightarrow> (Inr (), s\<lparr>outbox := outbox s @ [m]\<rparr>)
     | Some 0 \<Rightarrow> (Inl (if jams s then Waiting else Failed ''send''), s)
     | Some (Suc n) \<Rightarrow> (Inr (), s\<lparr>outbox := outbox s @ [m], sends_left := Some n\<rparr>))"

definition send_frame :: "server_frame \<Rightarrow> unit chat" where
  "send_frame frame = send_out (Out_frame frame)"

text \<open>\<^verbatim>\<open>let _ = ...\<close>: the result is dropped, once there is one.\<close>

definition ignoring :: "'a chat \<Rightarrow> unit chat" where
  "ignoring m s = (case m s of (Inl Waiting, t) \<Rightarrow> (Inl Waiting, t) | (_, t) \<Rightarrow> (Inr (), t))"

definition count :: "(metrics \<Rightarrow> metrics) \<Rightarrow> unit chat" where
  "count f s = (Inr (), s\<lparr>world := (world s)\<lparr>w_metrics := f (w_metrics (world s))\<rparr>\<rparr>)"

definition on_session :: "(stream_session, string, 'a) action \<Rightarrow> 'a chat" where
  "on_session m s = (case m (sess s) of (r, x) \<Rightarrow> (map_err Failed r, s\<lparr>sess := x\<rparr>))"

definition arrive :: "arrival \<Rightarrow> unit chat" where
  "arrive a s = (Inr (), s\<lparr>world := others a (world s), clock := max (clock s) (arrives a)\<rparr>)"

subsection \<open>Receiving\<close>

text \<open>
  Messages over the size limit set at the upgrade are an error of \<^verbatim>\<open>recv\<close>. The result is the
  arrival that completed the call and what the call returned, or nothing while the peer is silent.
\<close>

fun next_client_frame ::
  "('c, 'sk, 'v) chat_lib \<Rightarrow> arrival list \<Rightarrow>
   (arrival \<times> (string + client_frame option)) option \<times> arrival list" where
  "next_client_frame lib [] = (None, [])"
| "next_client_frame lib (a # as) = (case item a of
       Hangup \<Rightarrow> (Some (a, Inr None), as)
     | Recv_error e \<Rightarrow> (Some (a, Inl e), as)
     | Received (Text text) \<Rightarrow>
         if length text > MAX_WS_MESSAGE_BYTES then (Some (a, Inl ''message too long''), as)
         else (case client_frame_of lib text of
             None \<Rightarrow> (Some (a, Inl ''invalid frame''), as)
           | Some frame \<Rightarrow> (Some (a, Inr (Some frame)), as))
     | Received Close_message \<Rightarrow> (Some (a, Inr None), as)
     | Received _ \<Rightarrow> next_client_frame lib as)"

text \<open>
  The arms of \<^verbatim>\<open>select!\<close>: the timer and the next frame. The earlier one wins, counted from the
  instant the loop gets to the \<^verbatim>\<open>select!\<close>; when both are ready the runtime picks at random.
\<close>

definition sleep_wins :: "nat \<Rightarrow> nat \<Rightarrow> (arrival \<times> 'x) option \<Rightarrow> bool" where
  "sleep_wins deadline t next = (case next of
       None \<Rightarrow> True
     | Some (a, _) \<Rightarrow>
         let timer = max t deadline; frame = max t (arrives a)
         in timer < frame \<or> timer = frame \<and> tie a)"

subsection \<open>A prompt\<close>

definition provider_error_text :: "provider_error \<Rightarrow> string" where
  "provider_error_text e = (case e of
       Request msg \<Rightarrow> ''provider request failed: '' @ msg
     | Status n \<Rightarrow> ''provider returned status '' @ show_nat n
     | Parse \<Rightarrow> ''provider response could not be parsed'')"

text \<open>From the decrypted bytes to the request for the provider.\<close>

definition prompt_request ::
  "('c, 'sk, 'v) chat_lib \<Rightarrow> config \<Rightarrow> bytes \<Rightarrow> string + chat_request" where
  "prompt_request lib cfg plaintext =
     (if length plaintext > MAX_PROMPT_BYTES then Inl ''prompt payload too large'' else
      bindR (ok_or ''invalid payload'' (payload_of lib plaintext)) (\<lambda>payload.
      if pp_messages payload = [] \<or> length (pp_messages payload) > MAX_PROMPT_MESSAGES
      then Inl ''prompt must contain 1..=100 messages''
      else if \<not> list_all (\<lambda>m. cm_role m \<in> {''user'', ''assistant'', ''system''}) (pp_messages payload)
      then Inl ''invalid message role''
      else Inr \<lparr>cr_model = unwrap_or (provider_default_model cfg) (pp_model payload),
                cr_messages = pp_messages payload,
                cr_max_tokens = min (unwrap_or DEFAULT_MAX_TOKENS (pp_max_tokens payload)) MAX_MAX_TOKENS,
                cr_temperature = pp_temperature payload\<rparr>))"

definition decode_frame ::
  "('c, 'sk, 'v) chat_lib \<Rightarrow> string \<Rightarrow> string \<Rightarrow> string + bytes \<times> bytes" where
  "decode_frame lib ciphertext_b64 nonce_b64 =
     bindR (ok_or ''invalid base64'' (cl_decode lib ciphertext_b64)) (\<lambda>ciphertext.
     bindR (ok_or ''invalid base64'' (cl_decode lib nonce_b64)) (\<lambda>nonce.
     if length nonce \<noteq> NONCE_LEN then Inl ''nonce must be 12 bytes'' else Inr (ciphertext, nonce)))"

text \<open>What \<^verbatim>\<open>events.next().await\<close> yields, call by call: an event, or nothing ever.\<close>

datatype awaited = Next event_result | Never

fun awaited_events :: "upstream_stall \<Rightarrow> event_result list \<Rightarrow> awaited list" where
  "awaited_events Steady events = map Next events"
| "awaited_events Silent events = [Never]"
| "awaited_events (Stuck n) events = map Next (take n events) @ [Never]"

fun relay_events :: "('c, 'sk, 'v) chat_lib \<Rightarrow> awaited list \<Rightarrow> unit chat" where
  "relay_events lib [] = okE ()"
| "relay_events lib (Never # events) = failE Waiting"
| "relay_events lib (Next (Inl e) # events) = failE (Failed (provider_error_text e))"
| "relay_events lib (Next (Inr Done) # events) = okE ()"
| "relay_events lib (Next (Inr (Delta delta)) # events) =
     bindE (count (\<lambda>m. m\<lparr>provider_chunks_total := provider_chunks_total m + 1\<rparr>)) (\<lambda>_.
     bindE (on_session (session_encrypt (cl_aead lib) (as_bytes delta))) (\<lambda>(chunk_ciphertext, chunk_nonce).
     bindE (send_frame (Chunk (cl_encode lib chunk_ciphertext) (cl_encode lib chunk_nonce))) (\<lambda>_.
     relay_events lib events)))"

definition forward :: "chat_request \<Rightarrow> unit chat" where
  "forward request s = (Inr (), s\<lparr>forwarded := forwarded s @ [request]\<rparr>)"

text \<open>\<^verbatim>\<open>stream_chat(request).await\<close> returns when the head of the response has arrived.\<close>

definition await_response :: "arrival \<Rightarrow> unit chat" where
  "await_response a = liftE (if stalls a = Silent then Inl Waiting else Inr ())"

definition handle_prompt ::
  "('c, 'sk, 'v) chat_lib \<Rightarrow> config \<Rightarrow> arrival \<Rightarrow> string \<Rightarrow> string \<Rightarrow> unit chat" where
  "handle_prompt lib cfg a ciphertext_b64 nonce_b64 =
     bindE (liftE (map_err Failed (decode_frame lib ciphertext_b64 nonce_b64))) (\<lambda>(ciphertext, nonce).
     bindE (on_session (session_decrypt (cl_aead lib) ciphertext nonce)) (\<lambda>plaintext.
     bindE (liftE (map_err Failed (prompt_request lib cfg plaintext))) (\<lambda>request.
     bindE (count (\<lambda>m. m\<lparr>provider_requests_total := provider_requests_total m + 1\<rparr>)) (\<lambda>_.
     bindE (forward request) (\<lambda>_.
     bindE (await_response a) (\<lambda>_.
     bindE (liftE (map_err (Failed \<circ> provider_error_text)
       (stream_chat (cl_json lib) (upstream a) (build_provider cfg) request))) (\<lambda>events.
     bindE (relay_events lib (awaited_events (stalls a) (events None))) (\<lambda>_.
     send_frame Done_frame))))))))"

subsection \<open>The loop\<close>

definition session_active :: "uuid \<Rightarrow> bool chat" where
  "session_active i s = (case is_active i (w_store (world s)) of (r, st) \<Rightarrow>
     (Inr (case r of Inl _ \<Rightarrow> False | Inr b \<Rightarrow> b), s\<lparr>world := (world s)\<lparr>w_store := st\<rparr>\<rparr>))"

definition admit :: "string \<Rightarrow> nat \<Rightarrow> bool chat" where
  "admit key d s = (case check key (clock s) (clock s + d) (w_limiter (world s)) of (b, l) \<Rightarrow>
     (Inr b, s\<lparr>world := (world s)\<lparr>w_limiter := l\<rparr>\<rparr>))"

definition or_else :: "'a chat \<Rightarrow> 'a chat \<Rightarrow> 'a chat" where
  "or_else m h s = (case m s of
       (Inl Waiting, t) \<Rightarrow> (Inl Waiting, t) | (Inl (Failed _), t) \<Rightarrow> h t | (Inr x, t) \<Rightarrow> (Inr x, t))"

definition answer ::
  "('c, 'sk, 'v) chat_lib \<Rightarrow> config \<Rightarrow> arrival \<Rightarrow> string \<Rightarrow> string \<Rightarrow> unit chat" where
  "answer lib cfg a ciphertext nonce =
     or_else (handle_prompt lib cfg a ciphertext nonce)
       (bindE (count (\<lambda>m. m\<lparr>provider_errors_total := provider_errors_total m + 1\<rparr>)) (\<lambda>_.
        send_frame (Error_frame ''stream_error'' ''failed to process the prompt'')))"

text \<open>The body of the loop; the result says whether the loop goes on.\<close>

definition on_prompt ::
  "('c, 'sk, 'v) chat_lib \<Rightarrow> config \<Rightarrow> auth_user \<Rightarrow> arrival \<Rightarrow> string \<Rightarrow> string \<Rightarrow> bool chat" where
  "on_prompt lib cfg user a ciphertext nonce =
     bindE (session_active (au_session_id user)) (\<lambda>active.
     if \<not> active then
       bindE (ignoring (send_frame (Error_frame ''session_revoked'' ''session is no longer active''))) (\<lambda>_.
       okE False)
     else bindE (admit (''ws-prompt:'' @ uuid_text lib (au_user_id user)) (lag a)) (\<lambda>allowed.
     if \<not> allowed then
       bindE (count (\<lambda>m. m\<lparr>rate_limited_total := rate_limited_total m + 1\<rparr>)) (\<lambda>_.
       bindE (send_frame (Error_frame ''rate_limited'' ''too many prompts, slow down'')) (\<lambda>_.
       okE True))
     else bindE (answer lib cfg a ciphertext nonce) (\<lambda>_. okE True)))"

definition on_frame ::
  "('c, 'sk, 'v) chat_lib \<Rightarrow> config \<Rightarrow> auth_user \<Rightarrow> arrival \<Rightarrow> client_frame \<Rightarrow> bool chat" where
  "on_frame lib cfg user a frame = (case frame of
       Prompt ciphertext nonce \<Rightarrow> on_prompt lib cfg user a ciphertext nonce
     | Close_frame \<Rightarrow> okE False
     | ClientHello _ \<Rightarrow>
         bindE (send_frame (Error_frame ''protocol_error'' ''handshake already completed'')) (\<lambda>_. okE True))"

lemma next_client_frame_shorter:
  "next_client_frame lib as = (Some x, rest) \<Longrightarrow> length rest < length as"
proof (induction as)
  case (Cons a as)
  then show ?case by (fastforce split: ws_item.splits ws_message.splits if_splits option.splits)
qed simp

function prompt_loop ::
  "('c, 'sk, 'v) chat_lib \<Rightarrow> config \<Rightarrow> auth_user \<Rightarrow> nat \<Rightarrow> arrival list \<Rightarrow> unit chat" where
  "prompt_loop lib cfg user deadline as s =
     (case next_client_frame lib as of (next, rest) \<Rightarrow>
      if sleep_wins deadline (clock s) next then
        ignoring (send_frame (Error_frame ''session_expired'' ''access token expired; reconnect''))
          (s\<lparr>clock := max (clock s) deadline\<rparr>)
      else (case next of
          None \<Rightarrow> (Inr (), s)
        | Some (a, Inl e) \<Rightarrow> (Inl (Failed e), snd (arrive a s))
        | Some (a, Inr None) \<Rightarrow> (Inr (), snd (arrive a s))
        | Some (a, Inr (Some frame)) \<Rightarrow>
            (case bindE (arrive a) (\<lambda>_. on_frame lib cfg user a frame) s of
               (Inl e, t) \<Rightarrow> (Inl e, t)
             | (Inr False, t) \<Rightarrow> (Inr (), t)
             | (Inr True, t) \<Rightarrow> prompt_loop lib cfg user deadline rest (t\<lparr>clock := clock t + busy a\<rparr>))))"
  by pat_completeness auto

termination
  by (relation "measure (\<lambda>(lib, cfg, user, deadline, as, s). length as)")
    (auto dest: next_client_frame_shorter [OF sym])

subsection \<open>The handler and the upgrade\<close>

text \<open>
  \<^verbatim>\<open>Instant::now() + Duration\<close> does not overflow: the expiry is an \<^verbatim>\<open>i64\<close>, the lifetime is its
  distance from the Unix time, and the monotonic clock, which starts with the machine, is behind
  the Unix time, so that the sum is at most \<^verbatim>\<open>i64::MAX\<close> seconds, what an \<^verbatim>\<open>Instant\<close> holds.
\<close>

definition converse ::
  "('c, 'sk, 'v) chat_lib \<Rightarrow> config \<Rightarrow> auth_user \<Rightarrow> arrival list \<Rightarrow> unit chat" where
  "converse lib cfg user as s =
     (let ttl_secs = saturating_sub_i64 (au_expires_at user) (seconds (now (w_store (world s))))
      in if ttl_secs \<le> 0 then ignoring (send_out Out_close) s
         else
           bindE (prompt_loop lib cfg user (clock s + nat ttl_secs * 1000000) as) (\<lambda>_.
           ignoring (send_out Out_close)) s)"

definition establish ::
  "('c, 'sk, 'v) chat_lib \<Rightarrow> config \<Rightarrow> auth_user \<Rightarrow> 'sk handshake \<Rightarrow> string \<Rightarrow> arrival list \<Rightarrow> unit chat" where
  "establish lib cfg user h client_public as =
     bindE (liftE (ok_or (Failed ''client_hello public_key is not valid base64'')
       (cl_decode lib client_public))) (\<lambda>client_public_bytes.
     case complete (cl_kex lib) h client_public_bytes of
       Inl _ \<Rightarrow> send_frame (Error_frame ''handshake_failed'' ''invalid client public key'')
     | Inr session \<Rightarrow>
         bindE (\<lambda>s. (Inr (), s\<lparr>sess := session\<rparr>)) (\<lambda>_. converse lib cfg user as))"

text \<open>The secret of the handshake comes from the operating system's generator: an argument.\<close>

definition handle_socket ::
  "('c, 'sk, 'v) chat_lib \<Rightarrow> config \<Rightarrow> auth_user \<Rightarrow> 'sk \<Rightarrow> arrival list \<Rightarrow> unit chat" where
  "handle_socket lib cfg user os_rng_secret as =
     (let h = handshake_new (cl_kex lib) os_rng_secret in
      bindE (send_frame (ServerHello (cl_encode lib (public_key_bytes h)))) (\<lambda>_.
      case next_client_frame lib as of
        (None, _) \<Rightarrow> failE Waiting
      | (Some (a, Inl e), _) \<Rightarrow> bindE (arrive a) (\<lambda>_. failE (Failed e))
      | (Some (a, Inr None), _) \<Rightarrow> arrive a
      | (Some (a, Inr (Some frame)), rest) \<Rightarrow>
          bindE (arrive a) (\<lambda>_. case frame of
            ClientHello public_key \<Rightarrow> establish lib cfg user h public_key rest
          | _ \<Rightarrow> send_frame (Error_frame ''protocol_error'' ''expected client_hello''))))"

text \<open>The closure given to \<^verbatim>\<open>on_upgrade\<close>; a handler that still waits has not counted itself out.\<close>

definition upgraded ::
  "('c, 'sk, 'v) chat_lib \<Rightarrow> config \<Rightarrow> auth_user \<Rightarrow> 'sk \<Rightarrow> arrival list \<Rightarrow> unit chat" where
  "upgraded lib cfg user os_rng_secret as =
     bindE (count (\<lambda>m. m\<lparr>ws_sessions_total := ws_sessions_total m + 1\<rparr>)) (\<lambda>_.
     bindE (count (\<lambda>m. m\<lparr>ws_sessions_active := ws_sessions_active m + 1\<rparr>)) (\<lambda>_. \<lambda>s.
     case handle_socket lib cfg user os_rng_secret as s of
       (Inl Waiting, t) \<Rightarrow> (Inl Waiting, t)
     | (_, t) \<Rightarrow> count (\<lambda>m. m\<lparr>ws_sessions_active := ws_sessions_active m - 1\<rparr>) t))"

text \<open>The request: its answer, and, once it is upgraded, the connection that follows.\<close>

definition chat_stream ::
  "('c, 'sk, 'v) chat_lib \<Rightarrow> 'h app \<Rightarrow> 'sk \<Rightarrow> arrival list \<Rightarrow> string \<Rightarrow> (conn, app_error, unit) action" where
  "chat_stream lib app os_rng_secret as token s =
     (case authenticate app token (w_store (world s)) of (r, st) \<Rightarrow>
      let s1 = s\<lparr>world := (world s)\<lparr>w_store := st\<rparr>\<rparr>
      in (case r of
            Inl e \<Rightarrow> (Inl e, s1)
          | Inr user \<Rightarrow> (Inr (), snd (upgraded lib (app_config app) user os_rng_secret as s1))))"

subsection \<open>A concrete connection\<close>

text \<open>
  A text is a letter and a body: \<open>H\<close> and a public key, \<open>P\<close>, a nonce of 12 bytes and a
  ciphertext, anything else closes. Every plaintext is a prompt of one message.
\<close>

definition demo_chat :: "(bytes, bytes, string) chat_lib" where
  "demo_chat = \<lparr>cl_encode = map chr, cl_decode = Some \<circ> as_bytes,
     client_frame_of = (\<lambda>t. if t = [] then None
       else if hd t = CHR ''H'' then Some (ClientHello (tl t))
       else if hd t = CHR ''P'' then Some (Prompt (drop 13 t) (take 12 (tl t)))
       else Some Close_frame),
     payload_of = (\<lambda>bs. Some \<lparr>pp_messages = [\<lparr>cm_role = ''user'', cm_content = map chr bs\<rparr>],
       pp_model = None, pp_max_tokens = None, pp_temperature = None\<rparr>),
     uuid_text = show_nat, cl_aead = demo_aead, cl_kex = demo_kex, cl_json = demo_json\<rparr>"

definition demo_arrival :: "ws_item \<Rightarrow> nat \<Rightarrow> arrival" where
  "demo_arrival i t = \<lparr>item = i, arrives = t, tie = True, busy = 0, lag = 0, others = \<lambda>w. w,
     upstream = \<lambda>_. Inr \<lparr>resp_status = 200, chunks = []\<rparr>, stalls = Steady\<rparr>"

text \<open>A prompt as the client sends it, and an upstream answer in the format of OpenAI.\<close>

definition demo_prompt :: "bytes \<times> bytes \<Rightarrow> ws_item" where
  "demo_prompt p = Received (Text (CHR ''P'' # map chr (snd p) @ map chr (fst p)))"

definition demo_upstream :: "http_request \<Rightarrow> string + http_response" where
  "demo_upstream _ = Inr \<lparr>resp_status = 200,
     chunks = [Inr (as_bytes (''data: hi'' @ [CHR 0x0A] @ ''data: [DONE]'' @ [CHR 0x0A]))]\<rparr>"

definition demo_conn :: conn where
  "demo_conn = \<lparr>world = \<lparr>w_store = demo_store, w_limiter = limiter_new 1 60, w_metrics = metrics_default\<rparr>,
     sess = demo_server, outbox = [], sends_left = None, jams = False, clock = 0, forwarded = []\<rparr>"

definition demo_user :: auth_user where
  "demo_user = \<lparr>au_user_id = 0, au_session_id = 1, au_expires_at = 100\<rparr>"

section \<open>Lemmas\<close>

subsection \<open>Runs of the loop\<close>

lemma next_client_frame_set:
  "next_client_frame lib as = (Some (a, x), rest) \<Longrightarrow> a \<in> set as \<and> set rest \<subseteq> set as"
proof (induction as)
  case (Cons b as)
  then show ?case by (fastforce split: ws_item.splits ws_message.splits if_splits option.splits)
qed simp

text \<open>
  Induction along a run: the timer fires; the peer ends the connection or sends something
  unreadable; the handling of a frame ends the loop; or it does not and the loop goes on.
\<close>

lemma prompt_loop_run [case_names expired ended stopped continued]:
  assumes expired: "\<And>as s. P as s (ignoring (send_frame (Error_frame ''session_expired''
      ''access token expired; reconnect'')) (s\<lparr>clock := max (clock s) deadline\<rparr>))"
    and ended: "\<And>as s a x r. a \<in> set as \<Longrightarrow> r \<noteq> Inl Waiting \<Longrightarrow>
      \<not> sleep_wins deadline (clock s) (Some (a, x :: string + client_frame option)) \<Longrightarrow> P as s (r, snd (arrive a s))"
    and stopped: "\<And>as s a f rest r t. next_client_frame lib as = (Some (a, Inr (Some f)), rest) \<Longrightarrow>
      \<not> sleep_wins deadline (clock s) (Some (a, Inr (Some f) :: string + client_frame option)) \<Longrightarrow>
      bindE (arrive a) (\<lambda>_. on_frame lib cfg user a f) s = (r, t) \<Longrightarrow> r \<noteq> Inr True \<Longrightarrow>
      P as s (bindR r (\<lambda>_. Inr ()), t)"
    and continued: "\<And>as s a f rest t u. next_client_frame lib as = (Some (a, Inr (Some f)), rest) \<Longrightarrow>
      \<not> sleep_wins deadline (clock s) (Some (a, Inr (Some f) :: string + client_frame option)) \<Longrightarrow>
      bindE (arrive a) (\<lambda>_. on_frame lib cfg user a f) s = (Inr True, t) \<Longrightarrow>
      P rest (t\<lparr>clock := clock t + busy a\<rparr>) u \<Longrightarrow> P as s u"
  shows "P as s (prompt_loop lib cfg user deadline as s)"
proof (induction as arbitrary: s rule: measure_induct_rule [of length])
  case (less as)
  obtain nxt rest where nxt: "next_client_frame lib as = (nxt, rest)" by fastforce
  show ?case
  proof (cases "sleep_wins deadline (clock s) nxt")
    case True
    with nxt expired show ?thesis by simp
  next
    case False
    then obtain a x where a: "nxt = Some (a, x)" by (auto simp: sleep_wins_def split: option.splits)
    note nxt = nxt [unfolded a] and awake = False [unfolded a]
    show ?thesis
    proof (cases "\<exists>f. x = Inr (Some f)")
      case True
      then obtain f where f: "x = Inr (Some f)" by blast
      obtain r t where run: "bindE (arrive a) (\<lambda>_. on_frame lib cfg user a f) s = (r, t)" by fastforce
      note nxt = nxt [unfolded f]
      show ?thesis
      proof (cases "r = Inr True")
        case True
        from nxt awake f run True
        have "prompt_loop lib cfg user deadline as s =
          prompt_loop lib cfg user deadline rest (t\<lparr>clock := clock t + busy a\<rparr>)" by simp
        with continued [OF nxt awake [unfolded f] run [unfolded True] less.IH [OF next_client_frame_shorter [OF nxt]]]
        show ?thesis by simp
      next
        case False
        from nxt awake f run False
        have "prompt_loop lib cfg user deadline as s = (bindR r (\<lambda>_. Inr ()), t)" by (cases r) auto
        with stopped [OF nxt awake [unfolded f] run False] show ?thesis by simp
      qed
    next
      case False
      from nxt awake False
      have "\<exists>r. r \<noteq> Inl Waiting \<and> prompt_loop lib cfg user deadline as s = (r, snd (arrive a s))"
        by (cases x; cases "projr x") auto
      with ended [OF _ _ awake] next_client_frame_set [OF nxt] show ?thesis by fastforce
    qed
  qed
qed

declare prompt_loop.simps [simp del]

subsection \<open>Nothing waits unless a peer makes it\<close>

text \<open>The socket does not jam; and an action that then always returns.\<close>

definition flows :: "conn \<Rightarrow> bool" where
  "flows s \<longleftrightarrow> sends_left s = None \<or> \<not> jams s"

definition lively :: "'a chat \<Rightarrow> bool" where
  "lively m \<longleftrightarrow> (\<forall>s. flows s \<longrightarrow> fst (m s) \<noteq> Inl Waiting \<and> flows (snd (m s)))"

lemma livelyD: "lively m \<Longrightarrow> flows s \<Longrightarrow> m s = (r, t) \<Longrightarrow> r \<noteq> Inl Waiting \<and> flows t"
  unfolding lively_def by fastforce

lemma lively_bindE:
  assumes "lively m" and "\<And>x. lively (f x)"
  shows "lively (bindE m f)"
  unfolding lively_def
proof (intro allI impI)
  fix s assume s: "flows s"
  obtain r t where run: "m s = (r, t)" by fastforce
  note m = livelyD [OF assms(1) s run]
  show "fst (bindE m f s) \<noteq> Inl Waiting \<and> flows (snd (bindE m f s))"
  proof (cases r)
    case (Inl e)
    with run m show ?thesis by (simp add: bindE_def)
  next
    case (Inr x)
    with run m assms(2) [of x] show ?thesis by (simp add: bindE_def lively_def)
  qed
qed

lemma lively_steps:
  "lively (okE x)" "e \<noteq> Waiting \<Longrightarrow> lively (failE e)" "r \<noteq> Inl Waiting \<Longrightarrow> lively (liftE r)"
  "lively (send_out f)" "lively (count g)" "lively (on_session n)" "lively (forward q)"
  "lively (session_active i)" "lively (admit k d)" "lively (arrive a)"
  by (auto simp: lively_def flows_def send_out_def count_def on_session_def forward_def session_active_def admit_def
      arrive_def map_err_def split: option.split nat.split prod.split sum.split)

lemma snd_ignoring [simp]: "snd (ignoring m s) = snd (m s)"
  by (simp add: ignoring_def split: prod.split sum.split chat_stop.split)

lemma lively_ignoring: "lively m \<Longrightarrow> lively (ignoring m)"
  by (auto simp: lively_def ignoring_def split: prod.split sum.split chat_stop.split)

lemma lively_or_else: "lively m \<Longrightarrow> lively h \<Longrightarrow> lively (or_else m h)"
  by (auto simp: lively_def or_else_def split: prod.split sum.split chat_stop.split)

lemma lively_case_prod: "(\<And>x y. lively (f x y)) \<Longrightarrow> lively (case p of (x, y) \<Rightarrow> f x y)"
  by (cases p) simp

lemma lively_if: "(b \<Longrightarrow> lively m) \<Longrightarrow> (\<not> b \<Longrightarrow> lively n) \<Longrightarrow> lively (if b then m else n)"
  by simp

lemma lively_frame: "lively (send_frame f)"
  unfolding send_frame_def by (rule lively_steps)

lemmas lively_intros = lively_bindE lively_case_prod lively_if lively_frame lively_ignoring lively_or_else lively_steps

lemma not_Waiting [simp]: "map_err Failed r \<noteq> Inl Waiting" "map_err (Failed \<circ> g) q \<noteq> Inl Waiting"
  by (cases r; simp add: map_err_def) (cases q; simp add: map_err_def)

lemma lively_relay: "Never \<notin> set events \<Longrightarrow> lively (relay_events lib events)"
proof (induction lib events rule: relay_events.induct)
  case (5 lib d events)
  then have "lively (relay_events lib events)" by simp
  then show ?case unfolding relay_events.simps by (intro lively_intros)
qed (auto simp del: relay_events.simps simp: relay_events.simps(1,3,4) intro: lively_steps)







subsection \<open>The clock\<close>


lemma stays_ignoring: "stays R m \<Longrightarrow> stays R (ignoring m)"
  by (simp add: stays_def)



lemma stays_case_prod: "(\<And>x y. stays R (f x y)) \<Longrightarrow> stays R (case p of (x, y) \<Rightarrow> f x y)"
  by (cases p) simp








subsection \<open>Orders that a connection respects\<close>

text \<open>
  Three layers of the same argument. A preorder that every primitive respects is respected by
  the answer to a prompt; one that answers and refusals respect, by the handling of a prompt;
  one that the handling of a prompt respects, by the loop.
\<close>

locale loop_order = state_order R for R :: "conn \<Rightarrow> conn \<Rightarrow> bool" +
  fixes lib :: "('c, 'sk, 'v) chat_lib" and cfg :: config and user :: auth_user
    and expected :: "arrival \<Rightarrow> bool"
  assumes R_prompt: "expected a \<Longrightarrow> stays R (on_prompt lib cfg user a ct n)"
    and R_error: "stays R (send_frame (Error_frame c m))"
    and R_clock: "R s (s\<lparr>clock := k\<rparr>)"
    and R_arrive: "expected a \<Longrightarrow> stays R (arrive a)"
begin

lemma stays_on_frame: "expected a \<Longrightarrow> stays R (on_frame lib cfg user a frame)"
  unfolding on_frame_def by (cases frame) (auto intro: stays_intros R_prompt R_error)

lemma loop_step:
  assumes "expected a"
  shows "R s (snd (bindE (arrive a) (\<lambda>_. on_frame lib cfg user a frame) s))"
  using stays_bindE [OF R_arrive [OF assms] stays_on_frame [OF assms]] by (rule staysD)

lemma stays_prompt_loop:
  "list_all expected as \<longrightarrow> R s (snd (prompt_loop lib cfg user deadline as s))"
proof (rule prompt_loop_run [where P = "\<lambda>as s x. list_all expected as \<longrightarrow> R s (snd x)"])
  fix as s
  show "list_all expected as \<longrightarrow> R s (snd (ignoring (send_frame (Error_frame ''session_expired''
      ''access token expired; reconnect'')) (s\<lparr>clock := max (clock s) deadline\<rparr>)))"
    using R_trans [OF R_clock staysD [OF stays_ignoring [OF R_error]]] by simp
next
  fix as s and a :: arrival and r :: "chat_stop + unit" assume "a \<in> set as"
  then show "list_all expected as \<longrightarrow> R s (snd (r, snd (arrive a s)))"
    using staysD [OF R_arrive] by (simp add: list_all_iff)
next
  fix as s a f rest r t
  assume "next_client_frame lib as = (Some (a, Inr (Some f)), rest)"
    and "bindE (arrive a) (\<lambda>_. on_frame lib cfg user a f) s = (r, t)"
  then show "list_all expected as \<longrightarrow> R s (snd (bindR r (\<lambda>_. Inr ()), t))"
    using loop_step [of a s f] next_client_frame_set by (fastforce simp: list_all_iff)
next
  fix as s a f rest t and u :: "(chat_stop + unit) \<times> conn"
  assume nxt: "next_client_frame lib as = (Some (a, Inr (Some f)), rest)"
    and run: "bindE (arrive a) (\<lambda>_. on_frame lib cfg user a f) s = (Inr True, t)"
    and rest: "list_all expected rest \<longrightarrow> R (t\<lparr>clock := clock t + busy a\<rparr>) (snd u)"
  show "list_all expected as \<longrightarrow> R s (snd u)"
  proof
    assume "list_all expected as"
    then have a: "expected a" "list_all expected rest"
      using next_client_frame_set [OF nxt] by (auto simp: list_all_iff)
    then have "R s t" using loop_step [of a s f] run by simp
    then show "R s (snd u)" using R_trans R_clock rest a(2) by blast
  qed
qed

end

locale answer_order = state_order R for R :: "conn \<Rightarrow> conn \<Rightarrow> bool" +
  fixes lib :: "('c, 'sk, 'v) chat_lib" and cfg :: config and expected :: "arrival \<Rightarrow> bool"
  assumes R_answer: "expected a \<Longrightarrow> stays R (answer lib cfg a ct n)"
    and R_error: "stays R (send_frame (Error_frame c m))"
    and R_clock: "R s (s\<lparr>clock := k\<rparr>)"
    and R_arrive: "expected a \<Longrightarrow> stays R (arrive a)"
    and R_active: "stays R (session_active i)"
    and R_admit: "stays R (admit key d)"
    and R_limited: "stays R (count (\<lambda>m. m\<lparr>rate_limited_total := rate_limited_total m + 1\<rparr>))"
begin

lemma stays_on_prompt: "expected a \<Longrightarrow> stays R (on_prompt lib cfg user a ct n)"
  unfolding on_prompt_def
  by (intro stays_intros stays_ignoring R_answer R_error R_active R_admit R_limited)

end

sublocale answer_order \<subseteq> loop: loop_order R lib cfg user expected for user
  by unfold_locales (rule stays_on_prompt R_error R_clock R_arrive; assumption?)+

definition request_ok :: "chat_request \<Rightarrow> bool" where
  "request_ok r \<longleftrightarrow> cr_messages r \<noteq> [] \<and> length (cr_messages r) \<le> 100 \<and>
     list_all (\<lambda>m. cm_role m \<in> {''user'', ''assistant'', ''system''}) (cr_messages r) \<and>
     cr_max_tokens r \<le> 8192"

lemma prompt_request_ok: "prompt_request lib cfg m = Inr r \<Longrightarrow> request_ok r"
  by (auto simp: prompt_request_def bindR_eq_Inr request_ok_def MAX_PROMPT_MESSAGES_def MAX_MAX_TOKENS_def
      split: if_splits)

locale primitive_order = state_order R for R :: "conn \<Rightarrow> conn \<Rightarrow> bool" +
  fixes lib :: "('c, 'sk, 'v) chat_lib" and cfg :: config and expected :: "arrival \<Rightarrow> bool"
  assumes R_send: "stays R (send_out m)"
    and R_sess: "R s (s\<lparr>sess := x\<rparr>)"
    and R_forward: "request_ok r \<Longrightarrow> stays R (forward r)"
    and R_clock: "R s (s\<lparr>clock := k\<rparr>)"
    and R_arrive: "expected a \<Longrightarrow> stays R (arrive a)"
    and R_active: "stays R (session_active i)"
    and R_admit: "stays R (admit key d)"
    and R_counters:
      "stays R (count (\<lambda>m. m\<lparr>rate_limited_total := rate_limited_total m + 1\<rparr>))"
      "stays R (count (\<lambda>m. m\<lparr>provider_requests_total := provider_requests_total m + 1\<rparr>))"
      "stays R (count (\<lambda>m. m\<lparr>provider_chunks_total := provider_chunks_total m + 1\<rparr>))"
      "stays R (count (\<lambda>m. m\<lparr>provider_errors_total := provider_errors_total m + 1\<rparr>))"
begin

lemma stays_session: "stays R (on_session m)"
  by (simp add: stays_def on_session_def R_sess split: prod.split)

lemma stays_frame: "stays R (send_frame f)"
  unfolding send_frame_def by (rule R_send)

lemma stays_or_else: "stays R m \<Longrightarrow> stays R h \<Longrightarrow> stays R (or_else m h)"
  unfolding stays_def or_else_def by (auto split: prod.splits sum.splits chat_stop.splits) (metis R_trans snd_conv)+

lemma stays_bind_lift: "(\<And>x. r = Inr x \<Longrightarrow> stays R (f x)) \<Longrightarrow> stays R (bindE (liftE r) f)"
  by (cases r) (simp_all add: stays_def bindE_def R_refl)

lemmas chat_intros = stays_intros stays_case_prod stays_session stays_frame stays_or_else R_counters

lemma stays_relay_events: "stays R (relay_events lib events)"
  by (induction lib events rule: relay_events.induct) (simp_all only: relay_events.simps, (intro chat_intros; assumption?)+)

lemma stays_handle_prompt: "stays R (handle_prompt lib cfg a ct n)"
  unfolding handle_prompt_def await_response_def
  by (intro stays_case_prod stays_bind_lift [where r = "map_err Failed (prompt_request lib cfg m)" for m] R_forward
      chat_intros stays_relay_events) (auto dest: prompt_request_ok)

lemma stays_answer: "stays R (answer lib cfg a ct n)"
  unfolding answer_def by (intro chat_intros stays_handle_prompt)

end

sublocale primitive_order \<subseteq> answers: answer_order
  by unfold_locales (rule stays_answer stays_frame R_clock R_arrive R_active R_admit R_counters; assumption?)+

context primitive_order
begin

lemma stays_loop: "list_all expected as \<Longrightarrow> stays R (prompt_loop lib cfg user deadline as)"
  using answers.loop.stays_prompt_loop by (auto intro: staysI)

lemma stays_converse:
  assumes "list_all expected as"
  shows "stays R (converse lib cfg user as)"
proof (rule staysI)
  fix s
  have "stays R (bindE (prompt_loop lib cfg user d as) (\<lambda>_. ignoring (send_out Out_close)))" for d
    by (intro stays_intros stays_loop stays_ignoring R_send assms)
  then show "R s (snd (converse lib cfg user as s))"
    using staysD [OF stays_ignoring [OF R_send]] staysD unfolding converse_def Let_def by fastforce
qed

lemma stays_establish:
  assumes "list_all expected as"
  shows "stays R (establish lib cfg user h pk as)"
proof -
  have "stays R (\<lambda>s. (Inr (), s\<lparr>sess := x\<rparr>))" for x by (simp add: stays_def R_sess)
  then show ?thesis
    unfolding establish_def
    by (intro stays_intros allI) (auto split: sum.split intro!: stays_bindE stays_frame stays_converse assms)
qed

lemma stays_handle_socket:
  assumes "list_all expected as"
  shows "stays R (handle_socket lib cfg user sk as)"
proof -
  obtain nxt rest where nxt: "next_client_frame lib as = (nxt, rest)" by fastforce
  have "stays R (arrive a) \<and> list_all expected rest" if "nxt = Some (a, x)" for a x
    using R_arrive next_client_frame_set [OF nxt [unfolded that]] assms by (auto simp: list_all_iff)
  then show ?thesis
    unfolding handle_socket_def Let_def nxt
    by (intro stays_bindE stays_frame)
      (auto split: option.split sum.split client_frame.split intro!: stays_intros stays_frame stays_establish)
qed

end

interpretation requests: primitive_order
  "\<lambda>s t. \<exists>rs. forwarded t = forwarded s @ rs \<and> list_all request_ok rs" lib cfg "\<lambda>_. True" for lib cfg
  by unfold_locales
    (auto simp: stays_def forward_def count_def arrive_def session_active_def admit_def send_out_def
      split: prod.splits option.splits nat.splits)

abbreviation gauges :: "chat_world \<Rightarrow> i64 \<times> u64" where
  "gauges w \<equiv> (ws_sessions_active (w_metrics w), ws_sessions_total (w_metrics w))"

interpretation gauges: primitive_order
  "\<lambda>s t. gauges (world t) = gauges (world s)" lib cfg "\<lambda>a. \<forall>w. gauges (others a w) = gauges w" for lib cfg
  by unfold_locales
    (auto simp: stays_def forward_def count_def arrive_def session_active_def admit_def send_out_def
      split: prod.splits option.splits nat.splits)

text \<open>
  What the other tasks add to the gauge and to the total while an arrival is awaited, and the
  amounts by which a run has moved them.
\<close>

definition adds :: "(arrival \<Rightarrow> i64) \<Rightarrow> (arrival \<Rightarrow> u64) \<Rightarrow> arrival \<Rightarrow> bool" where
  "adds d e a \<longleftrightarrow> (\<forall>w. gauges (others a w) =
     (ws_sessions_active (w_metrics w) + d a, ws_sessions_total (w_metrics w) + e a))"

definition gauge_moved :: "(arrival \<Rightarrow> i64) \<Rightarrow> (arrival \<Rightarrow> u64) \<Rightarrow> arrival list \<Rightarrow> conn \<Rightarrow> conn \<Rightarrow> bool" where
  "gauge_moved d e bs s t \<longleftrightarrow> gauges (world t) =
     (ws_sessions_active (w_metrics (world s)) + sum_list (map d bs),
      ws_sessions_total (w_metrics (world s)) + sum_list (map e bs))"

definition moves :: "(arrival \<Rightarrow> i64) \<Rightarrow> (arrival \<Rightarrow> u64) \<Rightarrow> arrival list \<Rightarrow> 'a chat \<Rightarrow> bool" where
  "moves d e as m \<longleftrightarrow> (\<forall>s. \<exists>bs. subseq bs as \<and> gauge_moved d e bs s (snd (m s)))"

lemma gauge_moved_trans: "gauge_moved d e bs s t \<Longrightarrow> gauge_moved d e cs t u \<Longrightarrow> gauge_moved d e (bs @ cs) s u"
  by (simp add: gauge_moved_def add.assoc)

lemma gauge_moved_arrive:
  "adds d e a \<Longrightarrow> gauges (world t) = gauges (others a (world s)) \<Longrightarrow> gauge_moved d e [a] s t"
  by (simp add: adds_def gauge_moved_def)

lemma gauge_moved_same: "gauges (world t) = gauges (world s) \<Longrightarrow> gauge_moved d e bs t u = gauge_moved d e bs s u"
  by (simp add: gauge_moved_def)

lemma movesI: "(\<And>s. \<exists>bs. subseq bs as \<and> gauge_moved d e bs s (snd (m s))) \<Longrightarrow> moves d e as m"
  by (simp add: moves_def)

lemma moves_quiet: "stays (\<lambda>s t. gauges (world t) = gauges (world s)) m \<Longrightarrow> moves d e as m"
  by (rule movesI, rule exI [of _ "[]"]) (simp add: gauge_moved_def stays_def)

lemma moves_bindE_quiet:
  assumes "stays (\<lambda>s t. gauges (world t) = gauges (world s)) m" and "\<And>x. moves d e as (f x)"
  shows "moves d e as (bindE m f)"
proof (rule movesI)
  fix s
  obtain r t where run: "m s = (r, t)" by fastforce
  then have same: "gauges (world t) = gauges (world s)" using staysD [OF assms(1), of s] by simp
  show "\<exists>bs. subseq bs as \<and> gauge_moved d e bs s (snd (bindE m f s))"
  proof (cases r)
    case (Inl z)
    with run same show ?thesis by (intro exI [of _ "[]"]) (simp add: bindE_def gauge_moved_def)
  next
    case (Inr x)
    obtain bs where "subseq bs as" "gauge_moved d e bs t (snd (f x t))"
      using assms(2) [of x] unfolding moves_def by blast
    with Inr run gauge_moved_same [OF same] show ?thesis by (auto simp: bindE_def)
  qed
qed

lemma moves_then_quiet:
  assumes "moves d e as m" and "\<And>x. stays (\<lambda>s t. gauges (world t) = gauges (world s)) (f x)"
  shows "moves d e as (bindE m f)"
proof (rule movesI)
  fix s
  obtain r t where run: "m s = (r, t)" by fastforce
  then obtain bs where bs: "subseq bs as" "gauge_moved d e bs s t" using assms(1) unfolding moves_def by (metis snd_conv)
  have "gauges (world (snd (bindE m f s))) = gauges (world t)"
    using run staysD [OF assms(2)] by (cases r) (simp_all add: bindE_def)
  with bs show "\<exists>bs. subseq bs as \<and> gauge_moved d e bs s (snd (bindE m f s))"
    unfolding gauge_moved_def by metis
qed

lemma on_frame_others: "on_frame lib cfg user (a\<lparr>others := g\<rparr>) f = on_frame lib cfg user a f"
  unfolding on_frame_def on_prompt_def answer_def handle_prompt_def await_response_def
  by (cases a) (simp only: arrival.simps)

lemma frame_gauge:
  assumes "bindE (arrive a) (\<lambda>_. on_frame lib cfg user a f) s = (r, t)"
  shows "gauges (world t) = gauges (others a (world s))"
  using staysD [OF gauges.answers.loop.stays_on_frame [of "a\<lparr>others := \<lambda>w. w\<rparr>" lib cfg user f],
      of "snd (arrive a s)"] assms
  by (simp add: on_frame_others bindE_def arrive_def)

lemma next_client_frame_split:
  "next_client_frame lib as = (Some (a, x), rest) \<Longrightarrow> \<exists>pre. as = pre @ a # rest"
proof (induction as)
  case (Cons b as)
  consider "b = a" "rest = as" | "next_client_frame lib as = (Some (a, x), rest)"
    using Cons.prems by (auto split: ws_item.splits ws_message.splits if_splits option.splits)
  then show ?case
  proof cases
    case 1
    then show ?thesis by (intro exI [of _ "[]"]) simp
  next
    case 2
    then obtain pre where "as = pre @ a # rest" using Cons.IH by blast
    then show ?thesis by (intro exI [of _ "b # pre"]) simp
  qed
qed simp

lemma next_frame_subseq:
  "next_client_frame lib as = (Some (a, x), rest) \<Longrightarrow> subseq bs rest \<Longrightarrow> subseq (a # bs) as"
  using next_client_frame_split [of lib as a x rest] by (auto intro: list_emb_append2)

lemma loop_moves:
  "list_all (adds d e) as \<longrightarrow>
     (\<exists>bs. subseq bs as \<and> gauge_moved d e bs s (snd (prompt_loop lib cfg user deadline as s)))"
proof (rule prompt_loop_run [where P = "\<lambda>as s x. list_all (adds d e) as \<longrightarrow>
    (\<exists>bs. subseq bs as \<and> gauge_moved d e bs s (snd x))"])
  fix as s
  show "list_all (adds d e) as \<longrightarrow> (\<exists>bs. subseq bs as \<and> gauge_moved d e bs s
      (snd (ignoring (send_frame (Error_frame ''session_expired'' ''access token expired; reconnect''))
        (s\<lparr>clock := max (clock s) deadline\<rparr>))))"
    using staysD [OF gauges.stays_frame] by (intro impI exI [of _ "[]"]) (simp add: gauge_moved_def)
next
  fix as :: "arrival list" and s a and r :: "chat_stop + unit"
  assume "a \<in> set as"
  then show "list_all (adds d e) as \<longrightarrow> (\<exists>bs. subseq bs as \<and> gauge_moved d e bs s (snd (r, snd (arrive a s))))"
    by (intro impI exI [of _ "[a]"])
      (auto simp: list_all_iff arrive_def subseq_singleton_left intro!: gauge_moved_arrive)
next
  fix as s a f rest r t
  assume nxt: "next_client_frame lib as = (Some (a, Inr (Some f)), rest)"
    and run: "bindE (arrive a) (\<lambda>_. on_frame lib cfg user a f) s = (r, t)"
  show "list_all (adds d e) as \<longrightarrow>
      (\<exists>bs. subseq bs as \<and> gauge_moved d e bs s (snd (bindR r (\<lambda>_. Inr ()) :: chat_stop + unit, t)))"
    using next_frame_subseq [OF nxt] next_client_frame_set [OF nxt] frame_gauge [OF run]
    by (intro impI exI [of _ "[a]"]) (auto simp: list_all_iff intro!: gauge_moved_arrive)
next
  fix as s a f rest t and u :: "(chat_stop + unit) \<times> conn"
  assume nxt: "next_client_frame lib as = (Some (a, Inr (Some f)), rest)"
    and run: "bindE (arrive a) (\<lambda>_. on_frame lib cfg user a f) s = (Inr True, t)"
    and IH: "list_all (adds d e) rest \<longrightarrow>
      (\<exists>bs. subseq bs rest \<and> gauge_moved d e bs (t\<lparr>clock := clock t + busy a\<rparr>) (snd u))"
  show "list_all (adds d e) as \<longrightarrow> (\<exists>bs. subseq bs as \<and> gauge_moved d e bs s (snd u))"
  proof
    assume all: "list_all (adds d e) as"
    then have a: "adds d e a" "list_all (adds d e) rest"
      using next_client_frame_set [OF nxt] by (auto simp: list_all_iff)
    then obtain bs where bs: "subseq bs rest" "gauge_moved d e bs t (snd u)"
      using IH by (auto simp: gauge_moved_def)
    have "gauge_moved d e ([a] @ bs) s (snd u)"
      by (rule gauge_moved_trans [OF gauge_moved_arrive [OF a(1) frame_gauge [OF run]] bs(2)])
    with next_frame_subseq [OF nxt bs(1)] show "\<exists>bs. subseq bs as \<and> gauge_moved d e bs s (snd u)" by auto
  qed
qed

lemma establish_moves:
  assumes "list_all (adds d e) as"
  shows "moves d e as (establish lib cfg user h pk as)"
proof -
  have "moves d e as (prompt_loop lib cfg user dl as)" for dl
    unfolding moves_def using loop_moves assms by blast
  then have "moves d e as (bindE (prompt_loop lib cfg user dl as) (\<lambda>_. ignoring (send_out Out_close)))" for dl
    by (rule moves_then_quiet) (rule stays_ignoring [OF gauges.R_send])
  moreover have "moves d e as (ignoring (send_out Out_close))" by (rule moves_quiet [OF stays_ignoring [OF gauges.R_send]])
  ultimately have "moves d e as (converse lib cfg user as)"
    by (simp add: moves_def converse_def Let_def)
  then have "moves d e as (bindE (\<lambda>s. (Inr (), s\<lparr>sess := x\<rparr>)) (\<lambda>_. converse lib cfg user as))" for x
    by (intro moves_bindE_quiet) (simp_all add: stays_def)
  moreover have "moves d e as (send_frame f)" for f by (rule moves_quiet [OF gauges.stays_frame])
  ultimately show ?thesis
    unfolding establish_def by (intro moves_bindE_quiet gauges.stays_intros) (simp split: sum.split)
qed

lemma arrive_moves:
  assumes "next_client_frame lib as = (Some (a, x), rest)" and "adds d e a" and "moves d e rest m"
  shows "moves d e as (bindE (arrive a) (\<lambda>_. m))"
proof (rule movesI)
  fix s
  let ?t = "snd (arrive a s)"
  obtain bs where bs: "subseq bs rest" "gauge_moved d e bs ?t (snd (m ?t))" using assms(3) by (auto simp: moves_def)
  have "gauge_moved d e [a] s ?t" by (rule gauge_moved_arrive [OF assms(2)]) (simp add: arrive_def)
  from gauge_moved_trans [OF this bs(2)] next_frame_subseq [OF assms(1) bs(1)]
  show "\<exists>bs. subseq bs as \<and> gauge_moved d e bs s (snd (bindE (arrive a) (\<lambda>_. m) s))"
    by (auto simp: bindE_def arrive_def)
qed

lemma handle_socket_gauge:
  assumes "list_all (adds d e) as"
  shows "moves d e as (handle_socket lib cfg user sk as)"
proof -
  obtain nxt rest where nxt: "next_client_frame lib as = (nxt, rest)" by fastforce
  show ?thesis
  proof (cases nxt)
    case None
    then show ?thesis unfolding handle_socket_def Let_def nxt
      by (auto intro!: moves_bindE_quiet moves_quiet gauges.stays_frame gauges.stays_intros)
  next
    case (Some p)
    obtain a x where p: "p = (a, x)" by fastforce
    note nxt = nxt [unfolded Some p]
    have a: "adds d e a" "list_all (adds d e) rest"
      using assms next_client_frame_set [OF nxt] by (auto simp: list_all_iff)
    have last: "arrive a = bindE (arrive a) (\<lambda>_. okE ())" by (rule ext) (simp add: bindE_def arrive_def)
    have arrives: "moves d e as (arrive a)"
      by (subst last) (intro arrive_moves [OF nxt a(1)] moves_quiet gauges.stays_intros)
    show ?thesis unfolding handle_socket_def Let_def nxt
      by (rule moves_bindE_quiet [OF gauges.stays_frame])
        (auto split: sum.split option.split client_frame.split
          intro!: arrives arrive_moves [OF nxt a(1)] establish_moves [OF a(2)]
          intro: moves_quiet gauges.stays_frame gauges.stays_intros)
  qed
qed

definition one_more :: "chat_world \<Rightarrow> chat_world" where
  "one_more w = w\<lparr>w_metrics := (w_metrics w)\<lparr>ws_sessions_total := ws_sessions_total (w_metrics w) + 1,
     ws_sessions_active := ws_sessions_active (w_metrics w) + 1\<rparr>\<rparr>"

subsection \<open>What a client sees\<close>

text \<open>A turn: chunks, closed by the end of the answer or by an error.\<close>

fun is_chunk :: "server_frame \<Rightarrow> bool" where
  "is_chunk (Chunk _ _) = True"
| "is_chunk _ = False"

fun is_hello :: "server_frame \<Rightarrow> bool" where
  "is_hello (ServerHello _) = True"
| "is_hello _ = False"

definition turn :: "server_frame list \<Rightarrow> bool" where
  "turn fs \<longleftrightarrow> fs \<noteq> [] \<and> list_all is_chunk (butlast fs) \<and> \<not> is_chunk (last fs) \<and> \<not> is_hello (last fs)"

definition sends_list :: "(server_frame list \<Rightarrow> bool) \<Rightarrow> conn \<Rightarrow> conn \<Rightarrow> bool" where
  "sends_list P s t \<longleftrightarrow> (sends_left s = None \<longrightarrow>
     sends_left t = None \<and> (\<exists>fs. P fs \<and> outbox t = outbox s @ map Out_frame fs))"

lemma sends_list_silent: "P [] \<Longrightarrow> sends_left t = sends_left s \<Longrightarrow> outbox t = outbox s \<Longrightarrow> sends_list P s t"
  unfolding sends_list_def by (metis append.right_neutral list.simps(8))

lemma sends_list_trans:
  assumes "sends_list P s t" and "sends_list Q t u" and "\<And>fs gs. P fs \<Longrightarrow> Q gs \<Longrightarrow> U (fs @ gs)"
  shows "sends_list U s u"
  unfolding sends_list_def
proof (intro impI conjI)
  assume s: "sends_left s = None"
  obtain fs where t: "sends_left t = None" and fs: "P fs" "outbox t = outbox s @ map Out_frame fs"
    using assms(1) s by (auto simp: sends_list_def)
  obtain gs where u: "sends_left u = None" and gs: "Q gs" "outbox u = outbox t @ map Out_frame gs"
    using assms(2) t by (auto simp: sends_list_def)
  show "sends_left u = None" by (fact u)
  show "\<exists>fs. U fs \<and> outbox u = outbox s @ map Out_frame fs"
    using assms(3) [OF fs(1) gs(1)] fs(2) gs(2) by (metis append.assoc map_append)
qed

lemma sends_list_frame: "P [f] \<Longrightarrow> sends_list P s (snd (send_frame f s))"
  unfolding sends_list_def send_frame_def send_out_def
  by (intro impI conjI) (simp, rule exI [of _ "[f]"], simp)

interpretation chunks: state_order "sends_list (list_all is_chunk)"
  by unfold_locales (auto intro: sends_list_silent elim: sends_list_trans)

lemma bindE_assoc: "bindE (bindE m f) g = bindE m (\<lambda>x. bindE (f x) g)"
  by (rule ext) (simp add: bindE_def split: prod.splits sum.splits)

lemma silent_steps:
  assumes "P []"
  shows "stays (sends_list P) (count f)" "stays (sends_list P) (on_session m)" "stays (sends_list P) (forward r)"
    "stays (sends_list P) (session_active i)" "stays (sends_list P) (admit k d)" "stays (sends_list P) (arrive a)"
  by (auto intro!: staysI sends_list_silent assms
      simp: count_def on_session_def forward_def session_active_def admit_def arrive_def split: prod.splits)

lemma stays_chunk: "stays (sends_list (list_all is_chunk)) (send_frame (Chunk x n))"
  by (auto intro!: staysI sends_list_frame)

lemmas chunk_intros = chunks.stays_intros stays_case_prod stays_chunk silent_steps [of "list_all is_chunk", simplified]

lemma relay_sends: "stays (sends_list (list_all is_chunk)) (relay_events lib events)"
  by (induction lib events rule: relay_events.induct)
    (simp_all only: relay_events.simps, (intro chunk_intros; assumption?)+)

text \<open>\<^verbatim>\<open>handle_prompt\<close> up to its last statement.\<close>

lemma handle_prompt_parts:
  obtains m :: "unit chat" where "handle_prompt lib cfg a ct n = bindE m (\<lambda>_. send_frame Done_frame)"
    and "stays (sends_list (list_all is_chunk)) m" and "stalls a = Steady \<Longrightarrow> lively m"
proof -
  let ?m = "bindE (liftE (map_err Failed (decode_frame lib ct n))) (\<lambda>p.
     bindE (on_session (session_decrypt (cl_aead lib) (fst p) (snd p))) (\<lambda>plaintext.
     bindE (liftE (map_err Failed (prompt_request lib cfg plaintext))) (\<lambda>request.
     bindE (count (\<lambda>m. m\<lparr>provider_requests_total := provider_requests_total m + 1\<rparr>)) (\<lambda>_.
     bindE (forward request) (\<lambda>_.
     bindE (liftE (if stalls a = Silent then Inl Waiting else Inr ())) (\<lambda>_.
     bindE (liftE (map_err (Failed \<circ> provider_error_text)
       (stream_chat (cl_json lib) (upstream a) (build_provider cfg) request))) (\<lambda>events.
     relay_events lib (awaited_events (stalls a) (events None)))))))))"
  have "handle_prompt lib cfg a ct n = bindE ?m (\<lambda>_. send_frame Done_frame)"
    unfolding handle_prompt_def await_response_def by (simp only: bindE_assoc case_prod_unfold)
  moreover have "stays (sends_list (list_all is_chunk)) ?m" by (intro chunk_intros relay_sends)
  moreover have "lively ?m" if "stalls a = Steady"
    by (intro lively_intros lively_relay) (auto simp: that)
  ultimately show thesis by (rule that)
qed

lemma sends_list_mono: "sends_list P s t \<Longrightarrow> (\<And>fs. P fs \<Longrightarrow> Q fs) \<Longrightarrow> sends_list Q s t"
  unfolding sends_list_def by blast

lemma answer_sends:
  "sends_list (\<lambda>fs. turn fs \<or> stalls a \<noteq> Steady \<and> list_all is_chunk fs) s (snd (answer lib cfg a ct n s))"
  (is "sends_list ?P s _")
proof -
  obtain m :: "unit chat" where h: "handle_prompt lib cfg a ct n = bindE m (\<lambda>_. send_frame Done_frame)"
    and m: "stays (sends_list (list_all is_chunk)) m" and live: "stalls a = Steady \<Longrightarrow> lively m"
    using handle_prompt_parts [of lib cfg a ct n] by blast
  have chunks: "sends_list (list_all is_chunk) s (snd (m s))" using m by (rule staysD)
  have close: "sends_list ?P s (snd (send_frame f t))"
    if "sends_list (list_all is_chunk) s t" "\<not> is_chunk f" "\<not> is_hello f" for f t
    using that(1) sends_list_frame [of "\<lambda>fs. fs = [f]" f t]
    by (rule sends_list_trans) (use that(2,3) in \<open>auto simp: turn_def\<close>)
  show ?thesis
  proof (cases "sends_left s")
    case None
    obtain r t where mt: "m s = (r, t)" by fastforce
    have open_t: "sends_left t = None" using chunks None mt by (simp add: sends_list_def)
    consider (waits) "r = Inl Waiting" | (fails) x where "r = Inl (Failed x)" | (goes) u where "r = Inr u"
      by (metis chat_stop.exhaust sum.exhaust)
    then show ?thesis
    proof cases
      case waits
      then have "stalls a \<noteq> Steady" using livelyD [OF live _ mt] None by (auto simp: flows_def)
      then show ?thesis
        using chunks h mt waits
        by (auto simp: answer_def or_else_def bindE_def intro: sends_list_mono [of "list_all is_chunk"])
    next
      case fails
      then have "snd (answer lib cfg a ct n s) =
        snd (send_frame (Error_frame ''stream_error'' ''failed to process the prompt'')
          (snd (count (\<lambda>m. m\<lparr>provider_errors_total := provider_errors_total m + 1\<rparr>) t)))"
        using h mt by (simp add: answer_def or_else_def bindE_def count_def)
      moreover have "sends_list (list_all is_chunk) s
        (snd (count (\<lambda>m. m\<lparr>provider_errors_total := provider_errors_total m + 1\<rparr>) t))"
        using chunks mt chunks.R_trans staysD [OF silent_steps(1)] by fastforce
      ultimately show ?thesis using close by simp
    next
      case goes
      then have "snd (answer lib cfg a ct n s) = snd (send_frame Done_frame t)"
        using h mt open_t by (simp add: answer_def or_else_def bindE_def send_frame_def send_out_def)
      then show ?thesis using close [of t Done_frame] chunks mt by simp
    qed
  qed (simp add: sends_list_def)
qed

text \<open>Whole turns and, unless no answer stalls, perhaps the chunks of one that has not come to its end.\<close>

definition turns :: "bool \<Rightarrow> server_frame list \<Rightarrow> bool" where
  "turns steady fs \<longleftrightarrow> (\<exists>ts cs. fs = concat ts @ cs \<and> list_all turn ts \<and> list_all is_chunk cs \<and> (steady \<longrightarrow> cs = []))"

lemma turns_one: "turn fs \<Longrightarrow> turns b fs"
  unfolding turns_def by (rule exI [of _ "[fs]"]) simp

lemma turns_chunks: "list_all is_chunk fs \<Longrightarrow> turns False fs"
  unfolding turns_def by (rule exI [of _ "[]"]) simp

lemma turn_prepend: "list_all is_chunk cs \<Longrightarrow> turn fs \<Longrightarrow> turn (cs @ fs)"
  by (auto simp: turn_def butlast_append)

lemma turns_append:
  assumes "turns b fs" and "turns b gs"
  shows "turns b (fs @ gs)"
proof -
  obtain ts cs where 1: "fs = concat ts @ cs" "list_all turn ts" "list_all is_chunk cs" "b \<longrightarrow> cs = []"
    using assms(1) by (auto simp: turns_def)
  obtain us ds where 2: "gs = concat us @ ds" "list_all turn us" "list_all is_chunk ds" "b \<longrightarrow> ds = []"
    using assms(2) by (auto simp: turns_def)
  show ?thesis
  proof (cases us)
    case Nil
    then show ?thesis unfolding turns_def
      using 1 2 by (intro exI [of _ ts] exI [of _ "cs @ ds"]) simp
  next
    case (Cons u vs)
    then show ?thesis unfolding turns_def
      using 1 2 turn_prepend [of cs u] by (intro exI [of _ "ts @ (cs @ u) # vs"] exI [of _ ds]) simp
  qed
qed

lemma turns_Nil: "turns b []"
  unfolding turns_def by (rule exI [of _ "[]"]) simp

lemma turns_error: "sends_list (turns b) s (snd (send_frame (Error_frame c m) s))"
  by (rule sends_list_frame) (rule turns_one, simp add: turn_def)

interpretation turns: answer_order "sends_list (turns b)" lib cfg "\<lambda>a. b \<longrightarrow> stalls a = Steady" for b lib cfg
proof unfold_locales
  show "sends_list (turns b) s u" if "sends_list (turns b) s t" "sends_list (turns b) t u" for s t u
    using that by (rule sends_list_trans) (rule turns_append)
  show "stays (sends_list (turns b)) (answer lib cfg a ct n)" if "b \<longrightarrow> stalls a = Steady" for a ct n
    by (rule staysI, rule sends_list_mono [OF answer_sends]) (use that turns_one turns_chunks in \<open>cases b; auto\<close>)
  show "stays (sends_list (turns b)) (send_frame (Error_frame c m))" for c m
    by (rule staysI, rule turns_error)
  show "sends_list (turns b) s s" "sends_list (turns b) s (s\<lparr>clock := k\<rparr>)" for s k
    by (rule sends_list_silent [where P = "turns b", OF turns_Nil]; simp)+
qed (rule silent_steps [where P = "turns b", OF turns_Nil])+

text \<open>After the hello: turns, then perhaps the close message.\<close>

definition sends_rest :: "bool \<Rightarrow> conn \<Rightarrow> conn \<Rightarrow> bool" where
  "sends_rest b s t \<longleftrightarrow> (sends_left s = None \<longrightarrow>
     (\<exists>fs tail. turns b fs \<and> outbox t = outbox s @ map Out_frame fs @ tail \<and> tail \<in> {[], [Out_close]}))"

lemma sends_restI: "sends_list (turns b) s t \<Longrightarrow> sends_rest b s t"
  unfolding sends_list_def sends_rest_def by fastforce

lemma sends_rest_close: "sends_list (turns b) s t \<Longrightarrow> sends_rest b s (snd (ignoring (send_out Out_close) t))"
  unfolding sends_list_def sends_rest_def snd_ignoring send_out_def by fastforce

lemma sends_rest_silent:
  "sends_left t = sends_left s \<Longrightarrow> outbox t = outbox s \<Longrightarrow> sends_rest b t u \<Longrightarrow> sends_rest b s u"
  unfolding sends_rest_def by simp

lemma converse_sends:
  assumes "list_all (\<lambda>a. b \<longrightarrow> stalls a = Steady) as"
  shows "sends_rest b s (snd (converse lib cfg user as s))"
proof -
  have loop: "sends_list (turns b) s (snd (prompt_loop lib cfg user d as s))" for d
    using turns.loop.stays_prompt_loop [of b as s lib cfg user d] assms by simp
  have "sends_rest b s (snd (bindE (prompt_loop lib cfg user d as) (\<lambda>_. ignoring (send_out Out_close)) s))" for d
    using sends_restI [OF loop [of d]] sends_rest_close [OF loop [of d]]
    by (cases "prompt_loop lib cfg user d as s"; cases "fst (prompt_loop lib cfg user d as s)")
      (auto simp: bindE_def)
  then show ?thesis
    using sends_rest_close [OF turns.R_refl] unfolding converse_def Let_def by auto
qed

lemma establish_sends:
  assumes "list_all (\<lambda>a. b \<longrightarrow> stalls a = Steady) as"
  shows "sends_rest b s (snd (establish lib cfg user h pk as s))"
proof -
  have "sends_rest b s (snd (converse lib cfg user as (s\<lparr>sess := x\<rparr>)))" for x
    by (rule sends_rest_silent [OF _ _ converse_sends [OF assms]]) simp_all
  then show ?thesis
    using sends_restI [OF turns_error] sends_restI [OF turns.R_refl]
    by (auto simp: establish_def bindE_def ok_or_def split: option.split sum.split)
qed

subsection \<open>The receiving side of the session\<close>

definition receives :: "conn \<Rightarrow> bytes \<times> u64 \<times> chat_request list" where
  "receives s = (recv_key (sess s), recv_counter (sess s), forwarded s)"

definition requests_of :: "('c, 'sk, 'v) chat_lib \<Rightarrow> config \<Rightarrow> bytes \<Rightarrow> chat_request list" where
  "requests_of lib cfg m = (case prompt_request lib cfg m of Inl _ \<Rightarrow> [] | Inr r \<Rightarrow> [r])"

interpretation deaf: state_order "\<lambda>s t. receives t = receives s"
  by unfold_locales simp_all

lemma deaf_steps:
  "stays (\<lambda>s t. receives t = receives s) (send_frame f)"
  "stays (\<lambda>s t. receives t = receives s) (count g)"
  "stays (\<lambda>s t. receives t = receives s) (session_active i)"
  "stays (\<lambda>s t. receives t = receives s) (admit k d)"
  "stays (\<lambda>s t. receives t = receives s) (arrive a)"
  by (auto simp: stays_def receives_def send_frame_def send_out_def count_def session_active_def admit_def arrive_def
      split: option.splits nat.splits prod.splits)

lemma deaf_encrypt: "stays (\<lambda>s t. receives t = receives s) (on_session (session_encrypt G m))"
proof (rule staysI)
  fix s :: conn
  obtain r x where run: "encrypt_frame G ''s2c'' m (sess s) = (r, x)" by fastforce
  then have "recv_key x = recv_key (sess s) \<and> recv_counter x = recv_counter (sess s)"
    by (cases r) (auto simp: encrypt_frame_ok dest: encrypt_frame_err)
  then show "receives (snd (on_session (session_encrypt G m) s)) = receives s"
    using run by (simp add: receives_def on_session_def session_encrypt_def)
qed

lemmas deaf_intros = deaf.stays_intros stays_case_prod deaf_steps deaf_encrypt

lemma relay_deaf: "stays (\<lambda>s t. receives t = receives s) (relay_events lib events)"
  by (induction lib events rule: relay_events.induct)
    (simp_all only: relay_events.simps, (intro deaf_intros; assumption?)+)

lemma or_else_receives:
  "stays (\<lambda>s t. receives t = receives s) h \<Longrightarrow> receives (snd (or_else m h s)) = receives (snd (m s))"
  by (auto simp: or_else_def stays_def split: prod.split sum.split chat_stop.split)

text \<open>Everything after the request was handed to the provider.\<close>

lemma tail_receives:
  "receives (snd (bindE (count f) (\<lambda>_. bindE (forward r) (\<lambda>_.
     bindE (liftE p) (\<lambda>_. bindE (liftE q) (\<lambda>events.
     bindE (relay_events lib (awaited_events st (events None))) (\<lambda>_. send_frame g))))) s)) =
   (recv_key (sess s), recv_counter (sess s), forwarded s @ [r])"
proof -
  have "stays (\<lambda>s t. receives t = receives s)
    (bindE (liftE p) (\<lambda>_. bindE (liftE q) (\<lambda>events.
      bindE (relay_events lib (awaited_events st (events None))) (\<lambda>_. send_frame g))))"
    by (intro deaf_intros relay_deaf)
  from staysD [OF this] show ?thesis
    by (simp add: bindE_run(2) [where m = "count f"] count_def bindE_run(2) [where m = "forward r"] forward_def receives_def)
qed

lemma answer_receives:
  "receives (snd (answer lib cfg a ct n s)) =
     (case decode_frame lib ct n of
        Inl _ \<Rightarrow> receives s
      | Inr (x, nn) \<Rightarrow>
          (case session_decrypt (cl_aead lib) x nn (sess s) of
             (Inl _, _) \<Rightarrow> receives s
           | (Inr m, r) \<Rightarrow> (recv_key r, recv_counter r, forwarded s @ requests_of lib cfg m)))"
proof -
  have answer: "receives (snd (answer lib cfg a ct n s)) = receives (snd (handle_prompt lib cfg a ct n s))"
    unfolding answer_def by (intro or_else_receives deaf_intros)
  show ?thesis
  proof (cases "decode_frame lib ct n")
    case (Inl e)
    then show ?thesis unfolding answer by (simp add: handle_prompt_def bindE_def)
  next
    case (Inr p)
    then obtain x nn where p: "decode_frame lib ct n = Inr (x, nn)" by (cases p) simp
    obtain r y where run: "session_decrypt (cl_aead lib) x nn (sess s) = (r, y)" by fastforce
    show ?thesis
    proof (cases r)
      case (Inl e)
      then have "y = sess s" using run by (auto simp: session_decrypt_def dest: decrypt_frame_err)
      then show ?thesis unfolding answer
        using p run Inl by (simp add: handle_prompt_def bindE_def on_session_def)
    next
      case (Inr m)
      show ?thesis
      proof (cases "prompt_request lib cfg m")
        case (Inl e)
        then show ?thesis unfolding answer
          using p run Inr by (simp add: handle_prompt_def bindE_def on_session_def receives_def requests_of_def)
      next
        case (Inr request)
        then show ?thesis unfolding answer
          using p run \<open>r = Inr m\<close>
          by (simp add: handle_prompt_def bindE_run(2) [where m = "on_session z" for z] bindE_run(2) [where m = "liftE z" for z]
              on_session_def requests_of_def await_response_def tail_receives del: if_split)
      qed
    qed
  qed
qed

text \<open>A prompt is turned away, which the session does not notice, or answered.\<close>

lemma on_prompt_cases:
  obtains (refused) "receives (snd (on_prompt lib cfg user a ct n s)) = receives s"
  | (answered) u where "sess u = sess s" and "forwarded u = forwarded s"
      and "snd (on_prompt lib cfg user a ct n s) = snd (answer lib cfg a ct n u)"
proof -
  obtain b s1 where act: "session_active (au_session_id user) s = (Inr b, s1)"
    and s1: "sess s1 = sess s" "forwarded s1 = forwarded s"
    by (cases "is_active (au_session_id user) (w_store (world s))") (auto simp: session_active_def)
  obtain c s2 where adm: "admit (''ws-prompt:'' @ uuid_text lib (au_user_id user)) (lag a) s1 = (Inr c, s2)"
    and s2: "sess s2 = sess s" "forwarded s2 = forwarded s"
    using s1 by (cases "check (''ws-prompt:'' @ uuid_text lib (au_user_id user)) (clock s1) (clock s1 + lag a)
      (w_limiter (world s1))") (auto simp: admit_def)
  show thesis
  proof (cases "b \<and> c")
    case True
    then have "snd (on_prompt lib cfg user a ct n s) = snd (answer lib cfg a ct n s2)"
      using act adm by (simp add: on_prompt_def bindE_def split: prod.split sum.split)
    with s2 show ?thesis by (rule answered)
  next
    case False
    then show ?thesis
      using act adm s1 s2 staysD [OF deaf_steps(1)] staysD [OF deaf_steps(2)]
      by (intro refused) (auto simp: on_prompt_def bindE_def ignoring_def count_def receives_def send_frame_def
          send_out_def split: option.split nat.split)
  qed
qed


text \<open>A frame is either not noticed or a prompt that the session decrypts.\<close>

lemma frame_effect:
  assumes "bindE (arrive a) (\<lambda>_. on_frame lib cfg user a f) s = (r, t)"
  obtains (deaf) "receives t = receives s"
  | (heard) ct n x nn m y where "f = Prompt ct n" and "decode_frame lib ct n = Inr (x, nn)"
      and "session_decrypt (cl_aead lib) x nn (sess s) = (Inr m, y)"
      and "receives t = (recv_key y, recv_counter y, forwarded s @ requests_of lib cfg m)"
proof -
  let ?u = "s\<lparr>world := others a (world s), clock := max (clock s) (arrives a)\<rparr>"
  have t: "t = snd (on_frame lib cfg user a f ?u)" using assms by (simp add: bindE_def arrive_def)
  have u: "receives ?u = receives s" by (simp add: receives_def)
  show thesis
  proof (cases f)
    case (Prompt ct n)
    then have t: "t = snd (on_prompt lib cfg user a ct n ?u)" using t by (simp add: on_frame_def)
    show ?thesis
    proof (cases rule: on_prompt_cases [of lib cfg user a ct n ?u])
      case refused
      then show ?thesis using t u by (intro deaf) simp
    next
      case (answered v)
      then have "receives v = receives s" by (simp add: receives_def)
      then show ?thesis
        using answer_receives [of lib cfg a ct n v] answered t Prompt
        by (auto split: sum.splits prod.splits intro: deaf heard)
    qed
  next
    case (ClientHello pk)
    then show ?thesis
      using t u by (intro deaf) (auto simp: on_frame_def bindE_def receives_def send_frame_def send_out_def
          split: option.split nat.split)
  qed (use t u deaf in \<open>simp add: on_frame_def\<close>)
qed

text \<open>
  The prompts among the arrivals are frames of the client, which anyone may have delayed, repeated
  or dropped, or forgeries, which do not open under the client's key.
\<close>

definition from_client :: "('c, 'sk, 'v) chat_lib \<Rightarrow> bytes \<Rightarrow> (bytes \<times> bytes) list \<Rightarrow> arrival \<Rightarrow> bool" where
  "from_client lib key fs a = (case item a of
       Received (Text text) \<Rightarrow>
         (case client_frame_of lib text of
            Some (Prompt ct n) \<Rightarrow> (case decode_frame lib ct n of
                Inl _ \<Rightarrow> True | Inr p \<Rightarrow> p \<in> set fs \<or> \<not> frame_opens (cl_aead lib) ''c2s'' key p)
          | _ \<Rightarrow> True)
     | _ \<Rightarrow> True)"

lemma next_frame_from_client:
  assumes "next_client_frame lib as = (Some (a, Inr (Some (Prompt ct n))), rest)"
    and "list_all (from_client lib key fs) as" and "decode_frame lib ct n = Inr p"
  shows "p \<in> set fs \<or> \<not> frame_opens (cl_aead lib) ''c2s'' key p"
  using assms
proof (induction as)
  case (Cons b as)
  then show ?case
    by (auto simp: from_client_def split: ws_item.splits ws_message.splits if_splits option.splits)
qed simp

lemma heard_from_client:
  assumes "next_client_frame lib as = (Some (a, Inr (Some (Prompt ct n))), rest)"
    and "list_all (from_client lib (recv_key (sess s)) fs) as" and "decode_frame lib ct n = Inr (x, nn)"
    and "session_decrypt (cl_aead lib) x nn (sess s) = (Inr m, y)"
  shows "(x, nn) \<in> set fs"
  using next_frame_from_client [OF assms(1-3)] c2s.recv_opens [of "cl_aead lib" "(x, nn)" "sess s" m y] assms(4) by simp

lemma list_all_rest:
  "next_client_frame lib as = (Some x, rest) \<Longrightarrow> list_all P as \<Longrightarrow> list_all P rest"
  using next_client_frame_set [of lib as "fst x" "snd x" rest] by (auto simp: list_all_iff)


text \<open>From position \<open>k\<close> of the client's messages on, a prefix of them is forwarded.\<close>

lemma heard_next:
  assumes run: "run_oks (encrypt_client (cl_aead lib)) ms cli = (fs, cli')" "length fs = length ms"
    and inv: "key_linked (cl_aead lib) cli (sess s)" "unat (recv_counter (sess s)) = unat (send_counter cli) + k"
    and "session_decrypt (cl_aead lib) x nn (sess s) = (Inr m, y)" and "(x, nn) \<in> set fs"
  shows "k < length ms \<and> m = ms ! k \<and> unat (recv_counter y) = unat (send_counter cli) + Suc k
    \<and> key_linked (cl_aead lib) cli y"
  using c2s.run_frame_accepted [OF inv(1) run assms(6) _ inv(2), of m y] assms(5) by simp

lemma loop_prefix:
  assumes run: "run_oks (encrypt_client (cl_aead lib)) ms cli = (fs, cli')" "length fs = length ms"
    and "list_all (from_client lib (send_key cli) fs) as" and "key_linked (cl_aead lib) cli (sess s)"
    and "unat (recv_counter (sess s)) = unat (send_counter cli) + k" and "k \<le> length ms"
  shows "\<exists>n. forwarded (snd (prompt_loop lib cfg user deadline as s)) =
    forwarded s @ concat (map (requests_of lib cfg) (take n (drop k ms)))"
proof -
  let ?at = "\<lambda>k s. key_linked (cl_aead lib) cli (sess s) \<and>
    unat (recv_counter (sess s)) = unat (send_counter cli) + k \<and> k \<le> length ms"
  let ?P = "\<lambda>as s x. \<forall>k. list_all (from_client lib (send_key cli) fs) as \<longrightarrow> ?at k s \<longrightarrow>
    (\<exists>n. forwarded (snd x) = forwarded s @ concat (map (requests_of lib cfg) (take n (drop k ms))))"
  have none: "\<exists>n. forwarded s = forwarded s @ concat (map (requests_of lib cfg) (take n (drop k ms)))" for s :: conn and k
    by (rule exI [of _ 0]) simp
  have step: "\<exists>j. ?at (k + j) t \<and>
      forwarded t = forwarded s @ concat (map (requests_of lib cfg) (take j (drop k ms)))"
    if nxt: "next_client_frame lib as = (Some (a, Inr (Some f)), rest)"
      and frame: "bindE (arrive a) (\<lambda>_. on_frame lib cfg user a f) s = (r, t)"
      and inv: "list_all (from_client lib (send_key cli) fs) as" "?at k s" for as a f rest s r t k
    using frame
  proof (cases rule: frame_effect)
    case deaf
    then show ?thesis using inv(2) by (intro exI [of _ 0]) (simp add: receives_def key_linked_def)
  next
    case (heard ct n x nn m y)
    then have "(x, nn) \<in> set fs"
      using heard_from_client [of lib as a ct n rest s fs x nn m y] nxt inv by (simp add: key_linked_def)
    from heard_next [OF run _ _ heard(3) this] inv(2)
    have "k < length ms" "m = ms ! k" "unat (recv_counter y) = unat (send_counter cli) + Suc k"
      "key_linked (cl_aead lib) cli y" by blast+
    then show ?thesis using heard(4) 
      by (intro exI [of _ 1]) (simp add: receives_def key_linked_def take_Suc hd_drop_conv_nth)
  qed
  have "?P as s (prompt_loop lib cfg user deadline as s)"
  proof (rule prompt_loop_run [where P = ?P])
    fix as s a f rest t and u :: "(chat_stop + unit) \<times> conn"
    assume nxt: "next_client_frame lib as = (Some (a, Inr (Some f)), rest)"
      and frame: "bindE (arrive a) (\<lambda>_. on_frame lib cfg user a f) s = (Inr True, t)"
      and IH: "?P rest (t\<lparr>clock := clock t + busy a\<rparr>) u"
    show "?P as s u"
    proof (intro allI impI)
      fix k assume inv: "list_all (from_client lib (send_key cli) fs) as" "?at k s"
      obtain j where j: "?at (k + j) t"
        "forwarded t = forwarded s @ concat (map (requests_of lib cfg) (take j (drop k ms)))"
        using step [OF nxt frame inv] by blast
      obtain n where "forwarded (snd u) = forwarded t @ concat (map (requests_of lib cfg) (take n (drop (k + j) ms)))"
        using IH list_all_rest [OF nxt inv(1)] j(1) by fastforce
      then show "\<exists>n. forwarded (snd u) = forwarded s @ concat (map (requests_of lib cfg) (take n (drop k ms)))"
        using j(2) by (intro exI [of _ "j + n"]) (simp add: take_add add.commute)
    qed
  next
    fix as s a f rest t and r :: "chat_stop + bool"
    assume "next_client_frame lib as = (Some (a, Inr (Some f)), rest)"
      and "bindE (arrive a) (\<lambda>_. on_frame lib cfg user a f) s = (r, t)"
    then show "?P as s (bindR r (\<lambda>_. Inr ()), t)" using step by fastforce
  qed (use none in \<open>auto simp: arrive_def ignoring_def send_frame_def send_out_def split: option.splits nat.splits\<close>)
  then show ?thesis using assms(3-6) by simp
qed

subsection \<open>The sending side of the session\<close>

definition chunk_frame :: "('c, 'sk, 'v) chat_lib \<Rightarrow> bytes \<times> bytes \<Rightarrow> ws_out" where
  "chunk_frame lib p = Out_frame (Chunk (cl_encode lib (fst p)) (cl_encode lib (snd p)))"

lemma send_out_ok: "send_out m s = (Inr (), t) \<Longrightarrow> outbox t = outbox s @ [m] \<and> sess t = sess s"
  by (auto simp: send_out_def split: option.splits nat.splits)

text \<open>When all events were relayed, the chunks sent are the encrypted deltas, in order.\<close>

lemma relay_ok:
  assumes "relay_events lib events s = (Inr (), t)"
  shows "\<exists>ds rest fs. events = map (Next \<circ> Inr \<circ> Delta) ds @ rest \<and> (rest = [] \<or> hd rest = Next (Inr Done)) \<and>
    run_oks (session_encrypt (cl_aead lib)) (map as_bytes ds) (sess s) = (fs, sess t) \<and>
    length fs = length ds \<and> outbox t = outbox s @ map (chunk_frame lib) fs"
  using assms
proof (induction lib events arbitrary: s rule: relay_events.induct)
  case (1 lib)
  then show ?case by (intro exI [of _ "[]"]) simp
next
  case (4 lib events)
  then show ?case by (rule_tac exI [of _ "[]"], rule_tac exI [of _ "Next (Inr Done) # events"]) simp
next
  case (5 lib delta events)
  define s1 where "s1 = snd (count (\<lambda>m. m\<lparr>provider_chunks_total := provider_chunks_total m + 1\<rparr>) s)"
  have s1: "sess s1 = sess s" "outbox s1 = outbox s" by (simp_all add: s1_def count_def)
  have 6: "bindE (on_session (session_encrypt (cl_aead lib) (as_bytes delta))) (\<lambda>(x, n).
      bindE (send_frame (Chunk (cl_encode lib x) (cl_encode lib n))) (\<lambda>_. relay_events lib events)) s1 = (Inr (), t)"
    using 5(2) by (simp add: bindE_run(2) [where m = "count f" for f] count_def s1_def)
  obtain x n y where enc: "session_encrypt (cl_aead lib) (as_bytes delta) (sess s) = (Inr (x, n), y)"
    and 7: "bindE (send_frame (Chunk (cl_encode lib x) (cl_encode lib n))) (\<lambda>_. relay_events lib events)
      (s1\<lparr>sess := y\<rparr>) = (Inr (), t)"
    using 6 s1 by (auto simp: bindE_eq_Inr on_session_def split: prod.splits)
  obtain s2 where s2: "send_frame (Chunk (cl_encode lib x) (cl_encode lib n)) (s1\<lparr>sess := y\<rparr>) = (Inr (), s2)"
    and rel: "relay_events lib events s2 = (Inr (), t)"
    using 7 by (auto simp: bindE_eq_Inr)
  have out: "outbox s2 = outbox s @ [chunk_frame lib (x, n)]" "sess s2 = y"
    using send_out_ok [OF s2 [unfolded send_frame_def]] s1 by (simp_all add: chunk_frame_def)
  obtain ds rest fs where IH: "events = map (Next \<circ> Inr \<circ> Delta) ds @ rest" "rest = [] \<or> hd rest = Next (Inr Done)"
    "run_oks (session_encrypt (cl_aead lib)) (map as_bytes ds) y = (fs, sess t)" "length fs = length ds"
    "outbox t = outbox s2 @ map (chunk_frame lib) fs"
    using 5(1) [OF rel] out(2) by metis
  then show ?case
    using enc out(1) by (intro exI [of _ "delta # ds"] exI [of _ rest] exI [of _ "(x, n) # fs"]) simp
qed simp_all

text \<open>The steps of a prompt that was answered in full.\<close>

lemma handle_prompt_ok:
  assumes "handle_prompt lib cfg a ct n s = (Inr (), t)"
  obtains x nn m y request events s1 u where "decode_frame lib ct n = Inr (x, nn)"
    and "session_decrypt (cl_aead lib) x nn (sess s) = (Inr m, y)"
    and "prompt_request lib cfg m = Inr request"
    and "stream_chat (cl_json lib) (upstream a) (build_provider cfg) request = Inr events"
    and "relay_events lib (awaited_events (stalls a) (events None)) s1 = (Inr (), u)" and "send_frame Done_frame u = (Inr (), t)"
    and "sess s1 = y" and "outbox s1 = outbox s"
proof -
  obtain x nn where 1: "decode_frame lib ct n = Inr (x, nn)"
    and 2: "bindE (on_session (session_decrypt (cl_aead lib) x nn)) (\<lambda>plaintext.
     bindE (liftE (map_err Failed (prompt_request lib cfg plaintext))) (\<lambda>request.
     bindE (count (\<lambda>m. m\<lparr>provider_requests_total := provider_requests_total m + 1\<rparr>)) (\<lambda>_.
     bindE (forward request) (\<lambda>_.
     bindE (await_response a) (\<lambda>_.
     bindE (liftE (map_err (Failed \<circ> provider_error_text)
       (stream_chat (cl_json lib) (upstream a) (build_provider cfg) request))) (\<lambda>events.
     bindE (relay_events lib (awaited_events (stalls a) (events None))) (\<lambda>_.
     send_frame Done_frame))))))) s = (Inr (), t)"
    using assms by (auto simp: handle_prompt_def bindE_eq_Inr)
  then show thesis
    by (auto simp: bindE_eq_Inr on_session_def count_def forward_def await_response_def split: prod.splits if_splits
        intro!: that [OF 1])
qed

lemma stream_chat_terminal: "stream_chat js http p r = Inr events \<Longrightarrow> one_terminal (events None)"
  using configured.patient_consumer by (auto simp: stream_chat_def bindR_eq_Inr split: if_splits)

lemma one_terminal_done:
  assumes "one_terminal evs" and "evs = map (Inr \<circ> Delta) ds @ Inr Done # r"
  shows "r = []"
  using assms by (cases r) (auto simp: one_terminal_def butlast_append)

lemma not_only_deltas: "\<not> one_terminal (map (Inr \<circ> Delta) ds)"
  by (cases "ds = []") (simp_all add: one_terminal_def last_map)

text \<open>What was awaited is the whole transcript when it led to the end of the answer.\<close>

lemma awaited_split:
  obtains es' tl where "awaited_events st es = map Next es' @ tl" and "es' = take (length es') es"
    and "tl = [Never] \<or> tl = [] \<and> es' = es"
proof (cases st)
  case Steady
  then show thesis using that [of es "[]"] by simp
next
  case Silent
  then show thesis using that [of "[]" "[Never]"] by simp
next
  case (Stuck n)
  then show thesis using that [of "take n es" "[Never]"] by (simp add: min_def)
qed

lemma map_Next_inject [simp]: "map Next xs = map Next ys \<longleftrightarrow> xs = ys"
  by (rule inj_map_eq_map) (simp add: inj_def)

lemma awaited_done:
  assumes "awaited_events st es = map (Next \<circ> Inr \<circ> Delta) ds @ rest"
    and "rest = [] \<or> hd rest = Next (Inr Done)" and "one_terminal es"
  shows "es = map (Inr \<circ> Delta) ds @ [Inr Done]"
proof -
  obtain es' tl where es': "awaited_events st es = map Next es' @ tl" "es' = take (length es') es"
    "tl = [Never] \<or> tl = [] \<and> es' = es" by (rule awaited_split)
  have split: "map Next es' @ tl = map Next (map (Inr \<circ> Delta) ds) @ rest"
    using assms(1) es'(1) by (simp add: comp_assoc)
  obtain us where us: "es' = map (Inr \<circ> Delta) ds @ us" "map Next us @ tl = rest"
  proof -
    from split consider us where "map Next es' = map Next (map (Inr \<circ> Delta) ds) @ us" "us @ tl = rest"
      | us where "map Next es' @ us = map Next (map (Inr \<circ> Delta) ds)" "tl = us @ rest"
      by (auto simp: append_eq_append_conv2)
    then show thesis
    proof cases
      case 1
      then obtain vs where "us = map Next vs" "es' = map (Inr \<circ> Delta) ds @ vs"
        by (auto simp: map_eq_append_conv simp del: map_map)
      with 1 that show ?thesis by simp
    next
      case (2 us)
      have "us = []"
      proof (rule ccontr)
        assume "us \<noteq> []"
        then have "tl = [Never]" "us = [Never]" using 2(2) es'(3) by (auto simp: Cons_eq_append_conv append_eq_Cons_conv)
        then have "Never \<in> set (map Next (map (Inr \<circ> Delta) ds))" using 2(1) by (metis in_set_conv_decomp)
        then show False by auto
      qed
      then have "es' = map (Inr \<circ> Delta) ds" using 2(1) by (simp del: map_map)
      with 2 \<open>us = []\<close> that [of "[]"] show ?thesis by simp
    qed
  qed
  show ?thesis
  proof (cases us)
    case Nil
    then have "rest \<noteq> [Never]" "es' = map (Inr \<circ> Delta) ds" using us assms(2) by auto
    then have "es = map (Inr \<circ> Delta) ds" using us(2) Nil es'(3) by auto
    then show ?thesis using assms(3) not_only_deltas by blast
  next
    case (Cons v vs)
    then have "v = Inr Done" using us(2) assms(2) by auto
    then have "es = map (Inr \<circ> Delta) ds @ Inr Done # vs @ drop (length es') es"
      using us(1) Cons es'(2) by (metis append.assoc append_Cons append_take_drop_id)
    with one_terminal_done [OF assms(3) this] show ?thesis by simp
  qed
qed

subsection \<open>Revoked sessions\<close>

fun is_error :: "server_frame \<Rightarrow> bool" where
  "is_error (Error_frame _ _) = True"
| "is_error _ = False"

definition cut_off :: "uuid \<Rightarrow> conn \<Rightarrow> bool" where
  "cut_off i s \<longleftrightarrow> revoked i (w_store (world s)) \<and> db_ok (w_store (world s))"

text \<open>What a connection can be held to: the limiter and the counters it shares with other tasks.\<close>

abbreviation shared :: "chat_world \<Rightarrow> rate_limiter \<times> metrics" where
  "shared w \<equiv> (w_limiter w, w_metrics w)"

definition others_step :: "arrival list \<Rightarrow> rate_limiter \<times> metrics \<Rightarrow> rate_limiter \<times> metrics \<Rightarrow> bool" where
  "others_step as x y \<longleftrightarrow> (\<exists>a \<in> set as. \<exists>w. x = shared w \<and> y = shared (others a w))"

definition only_errors ::
  "(rate_limiter \<times> metrics \<Rightarrow> rate_limiter \<times> metrics \<Rightarrow> bool) \<Rightarrow> uuid \<Rightarrow> conn \<Rightarrow> conn \<Rightarrow> bool" where
  "only_errors Q i s t \<longleftrightarrow> (cut_off i s \<longrightarrow> cut_off i t \<and> forwarded t = forwarded s \<and> sess t = sess s \<and>
     Q\<^sup>*\<^sup>* (shared (world s)) (shared (world t)) \<and>
     (\<exists>es. outbox t = outbox s @ map Out_frame es \<and> list_all is_error es))"

text \<open>Other tasks leave the database well-formed and revoke for good, as every request does.\<close>

definition lawful_others :: "arrival \<Rightarrow> bool" where
  "lawful_others a \<longleftrightarrow> (\<forall>w. history (w_store w) (w_store (others a w)) \<and>
     (db_ok (w_store w) \<longrightarrow> db_ok (w_store (others a w))))"

lemma only_errors_trans: "only_errors Q i s t \<Longrightarrow> only_errors Q i t u \<Longrightarrow> only_errors Q i s u"
  unfolding only_errors_def
  by (metis (no_types, lifting) append.assoc list_all_append map_append rtranclp_trans)

lemma only_errors_same:
  "w_store (world t) = w_store (world s) \<Longrightarrow> shared (world t) = shared (world s) \<Longrightarrow> sess t = sess s \<Longrightarrow>
     forwarded t = forwarded s \<Longrightarrow> outbox t = outbox s \<Longrightarrow> only_errors Q i s t"
  unfolding only_errors_def cut_off_def by (auto intro!: exI [of _ "[]"])

lemma only_errors_error: "only_errors Q i s (snd (send_frame (Error_frame c m) s))"
proof -
  have "\<exists>es. outbox (snd (send_frame (Error_frame c m) s)) = outbox s @ map Out_frame es \<and> list_all is_error es"
    by (cases "sends_left s"; cases "the (sends_left s)")
      (auto simp: send_frame_def send_out_def intro: exI [of _ "[]"] exI [of _ "[Error_frame c m]"])
  then show ?thesis
    by (auto simp: only_errors_def cut_off_def send_frame_def send_out_def split: option.split nat.split)
qed

lemma only_errors_prompt: "only_errors Q (au_session_id user) s (snd (on_prompt lib cfg user a ct n s))"
proof (cases "cut_off (au_session_id user) s")
  case True
  let ?i = "au_session_id user"
  let ?m = "send_frame (Error_frame ''session_revoked'' ''session is no longer active'')"
  obtain r st where act: "is_active ?i (w_store (world s)) = (r, st)" by fastforce
  let ?s = "s\<lparr>world := (world s)\<lparr>w_store := st\<rparr>\<rparr>"
  have "r \<noteq> Inr True"
    using is_active_sound [of ?i "w_store (world s)" True st] act True
    by (auto simp: cut_off_def db_def)
  then have "session_active ?i s = (Inr False, ?s)"
    using act by (auto simp: session_active_def split: sum.splits)
  moreover obtain e t where "ignoring ?m ?s = (e, t)" by fastforce
  then have "ignoring ?m ?s = (e, snd (?m ?s))" by (metis snd_conv snd_ignoring)
  ultimately have "snd (on_prompt lib cfg user a ct n s) = snd (?m ?s)"
    by (cases e) (simp_all add: on_prompt_def bindE_def)
  moreover have "only_errors Q ?i s ?s"
  proof -
    have "revoked ?i st" "db_ok st"
      using staysD [OF hist.stays_reads(3), of "w_store (world s)" ?i]
        staysD [OF wf.stays_reads(3), of "w_store (world s)" ?i] history_revoked act True
      by (auto simp: cut_off_def)
    then show ?thesis by (simp add: only_errors_def cut_off_def)
  qed
  ultimately show ?thesis using only_errors_trans only_errors_error by simp
qed (simp add: only_errors_def)

interpretation revoked_loop: loop_order "only_errors Q (au_session_id user)" lib cfg user
  "\<lambda>a. lawful_others a \<and> (\<forall>w. Q (shared w) (shared (others a w)))" for Q lib cfg user
proof unfold_locales
  show "stays (only_errors Q (au_session_id user)) (arrive a)"
    if "lawful_others a \<and> (\<forall>w. Q (shared w) (shared (others a w)))" for a
    using that history_revoked
    by (auto simp: stays_def arrive_def lawful_others_def only_errors_def cut_off_def)
  show "only_errors Q (au_session_id user) s u"
    if "only_errors Q (au_session_id user) s t" "only_errors Q (au_session_id user) t u" for s t u
    using that by (rule only_errors_trans)
qed (auto intro: staysI only_errors_prompt only_errors_error only_errors_same)

subsection \<open>The concrete connection at work\<close>

lemma demo_openai:
  "upstream a = demo_upstream \<Longrightarrow> stream_chat demo_json (upstream a) (build_provider (demo_config\<lparr>provider := OpenAi\<rparr>)) r =
     Inr (\<lambda>pat. delivered (openai_task demo_json [Inr (as_bytes (''data: hi'' @ [CHR 0x0A] @ ''data: [DONE]'' @ [CHR 0x0A]))]
       (channel_new pat)))"
  "delivered (openai_task demo_json [Inr (as_bytes (''data: hi'' @ [CHR 0x0A] @ ''data: [DONE]'' @ [CHR 0x0A]))]
     (channel_new None)) = [Inr (Delta ''hi''), Inr Done]"
proof -
  show "stream_chat demo_json (upstream a) (build_provider (demo_config\<lparr>provider := OpenAi\<rparr>)) r =
     Inr (\<lambda>pat. delivered (openai_task demo_json [Inr (as_bytes (''data: hi'' @ [CHR 0x0A] @ ''data: [DONE]'' @ [CHR 0x0A]))]
       (channel_new pat)))" if "upstream a = demo_upstream"
    using that by (simp add: stream_chat_def demo_upstream_def build_provider_def demo_config_def)
  have lines: "drain_lines (as_bytes (''data: hi'' @ [CHR 0x0A] @ ''data: [DONE]'' @ [CHR 0x0A])) =
      ([''data: hi'', ''data: [DONE]''], [])"
    and parse: "openai_parse_line demo_json ''data: hi'' = Some (Inr (Delta ''hi''))"
      "openai_parse_line demo_json ''data: [DONE]'' = Some (Inr Done)"
    by code_simp+
  show "delivered (openai_task demo_json [Inr (as_bytes (''data: hi'' @ [CHR 0x0A] @ ''data: [DONE]'' @ [CHR 0x0A]))]
     (channel_new None)) = [Inr (Delta ''hi''), Inr Done]"
    unfolding openai_task_def sse_task.simps push_def line_buffer_new_def
    by (simp add: lines [simplified] parse send_def channel_new_def)
qed

lemma demo_decode:
  "decode_frame demo_chat (map chr ([1] @ replicate 16 7)) (map chr (counter_nonce 0)) =
     Inr ([1] @ replicate 16 7, counter_nonce 0)"
  by code_simp

lemma one_chunk_answered:
  assumes "decode_frame lib ct n = Inr (x, nn)" and "session_decrypt (cl_aead lib) x nn (sess s) = (Inr m, y)"
    and "prompt_request lib cfg m = Inr r" and "stream_chat (cl_json lib) (upstream a) (build_provider cfg) r = Inr events"
    and "events None = [Inr (Delta d), Inr Done]" and "session_encrypt (cl_aead lib) (as_bytes d) y = (Inr p, z)"
    and "sends_left s = None" and "stalls a = Steady"
  shows "fst (handle_prompt lib cfg a ct n s) = Inr ()"
  using assms by (cases p) (simp add: handle_prompt_def await_response_def bindE_def on_session_def count_def forward_def send_frame_def send_out_def)

lemma demo_answered:
  "fst (handle_prompt demo_chat (demo_config\<lparr>provider := OpenAi\<rparr>) ((demo_arrival Hangup 0)\<lparr>upstream := demo_upstream\<rparr>)
     (map chr ([1] @ replicate 16 7)) (map chr (counter_nonce 0)) demo_conn) = Inr ()"
proof -
  have lib: "cl_aead demo_chat = demo_aead" "cl_json demo_chat = demo_json" "sess demo_conn = demo_server"
    "sends_left demo_conn = None" by (simp_all add: demo_chat_def demo_conn_def)
  have dec: "session_decrypt demo_aead ([1] @ replicate 16 7) (counter_nonce 0) demo_server =
    (Inr [1], demo_server\<lparr>recv_counter := 1\<rparr>)"
    by (simp add: session_decrypt_def decrypt_frame_ok aead_decrypt_def demo_aead_def demo_server_def)
  obtain p t where enc: "session_encrypt demo_aead (as_bytes ''hi'') (demo_server\<lparr>recv_counter := 1\<rparr>) = (Inr p, t)"
    by (simp add: session_encrypt_def encrypt_frame_def encrypt_with_nonce_def demo_aead_def demo_server_def
        checked_add_u64_def Let_def)
  obtain r where req: "prompt_request demo_chat (demo_config\<lparr>provider := OpenAi\<rparr>) [1] = Inr r"
    by (simp add: prompt_request_def demo_chat_def MAX_PROMPT_BYTES_def MAX_PROMPT_MESSAGES_def)
  have "upstream ((demo_arrival Hangup 0)\<lparr>upstream := demo_upstream\<rparr>) = demo_upstream" by simp
  note ev = demo_openai(1) [OF this, of r]
  show ?thesis
    by (rule one_chunk_answered [where lib = demo_chat and s = demo_conn, unfolded lib,
          OF demo_decode dec req ev demo_openai(2) enc refl]) (simp add: demo_arrival_def)
qed

section \<open>Properties\<close>



text \<open>
  C31. The gauge of open connections is balanced: whatever other tasks add to the gauge and to the
  total while it lives (\<open>d\<close> and \<open>e\<close>, per arrival; connections that open and close), a connection
  adds one to the total and, as long as it is open, one to the gauge, and nothing to the gauge
  once it has ended, in whatever way: no change of another task is lost.
\<close>

theorem session_gauge_balanced:
  assumes "list_all (adds d e) as"
  shows "\<exists>bs. subseq bs as \<and>
    ws_sessions_active (w_metrics (world (snd (upgraded lib cfg user sk as s)))) =
      ws_sessions_active (w_metrics (world s)) + sum_list (map d bs) +
        (if fst (upgraded lib cfg user sk as s) = Inl Waiting then 1 else 0) \<and>
    ws_sessions_total (w_metrics (world (snd (upgraded lib cfg user sk as s)))) =
      ws_sessions_total (w_metrics (world s)) + sum_list (map e bs) + 1"
proof -
  let ?n = "\<lambda>m. m\<lparr>ws_sessions_total := ws_sessions_total m + 1, ws_sessions_active := ws_sessions_active m + 1\<rparr>"
  let ?s = "s\<lparr>world := (world s)\<lparr>w_metrics := ?n (w_metrics (world s))\<rparr>\<rparr>"
  obtain r t where run: "handle_socket lib cfg user sk as ?s = (r, t)" by fastforce
  obtain bs where "subseq bs as" "gauge_moved d e bs ?s t"
    using handle_socket_gauge [OF assms, of lib cfg user sk] run unfolding moves_def by (metis snd_conv)
  then show ?thesis
    using run by (intro exI [of _ bs])
      (auto simp: upgraded_def bindE_def count_def gauge_moved_def split: sum.split chat_stop.split)
qed

text \<open>A peer that hangs up, while another connection is opened.\<close>

theorem session_gauge_balanced_witness:
  "\<exists>bs. subseq bs [(demo_arrival Hangup 5)\<lparr>others := one_more\<rparr>] \<and>
    ws_sessions_active (w_metrics (world (snd (upgraded demo_chat demo_config demo_user (demo_key 9)
      [(demo_arrival Hangup 5)\<lparr>others := one_more\<rparr>] demo_conn)))) = sum_list (map (\<lambda>_. 1) bs)"
proof -
  let ?a = "(demo_arrival Hangup 5)\<lparr>others := one_more\<rparr>"
  have "fst (upgraded demo_chat demo_config demo_user (demo_key 9) [?a] demo_conn) \<noteq> Inl Waiting"
    by (simp add: upgraded_def bindE_def count_def split: sum.split chat_stop.split)
      (auto simp: handle_socket_def bindE_def Let_def send_frame_def send_out_def demo_conn_def demo_arrival_def
        arrive_def count_def)
  moreover have "list_all (adds (\<lambda>_. 1) (\<lambda>_. 1)) [?a]" by (simp add: adds_def one_more_def)
  moreover have "ws_sessions_active (w_metrics (world demo_conn)) = 0"
    by (simp add: demo_conn_def metrics_default_def)
  ultimately show ?thesis
    using session_gauge_balanced [of "\<lambda>_. 1" "\<lambda>_. 1" "[?a]" demo_chat demo_config demo_user "demo_key 9" demo_conn]
    by auto
qed



text \<open>
  What \<open>stalls a = Steady\<close> excludes: a provider that takes the connection and never answers. The
  timer is not polled while a prompt is answered, so that whatever the deadline the handler waits,
  and the connection stays open and counted, long after the token has expired.
\<close>

lemma silent_provider_holds_connection:
  assumes "next_client_frame lib as = (Some (a, Inr (Some (Prompt ct n))), rest)"
    and "\<not> sleep_wins deadline (clock s) (Some (a, Inr (Some (Prompt ct n)) :: string + client_frame option))"
    and "session_active (au_session_id user) (snd (arrive a s)) = (Inr True, s1)"
    and "admit (''ws-prompt:'' @ uuid_text lib (au_user_id user)) (lag a) s1 = (Inr True, s2)"
    and "decode_frame lib ct n = Inr (x, nn)" and "session_decrypt (cl_aead lib) x nn (sess s2) = (Inr m, y)"
    and "prompt_request lib cfg m = Inr r" and "stalls a = Silent"
  shows "fst (prompt_loop lib cfg user deadline as s) = Inl Waiting"
proof -
  have "fst (answer lib cfg a ct n s2) = Inl Waiting"
    using assms(5-8) by (simp add: answer_def or_else_def handle_prompt_def bindE_def on_session_def count_def
        forward_def await_response_def)
  then have "fst (bindE (arrive a) (\<lambda>_. on_frame lib cfg user a (Prompt ct n)) s) = Inl Waiting"
    using assms(3,4) by (cases "answer lib cfg a ct n s2")
      (simp add: bindE_def arrive_def on_frame_def on_prompt_def)
  then show ?thesis
    using assms(1,2) by (cases "bindE (arrive a) (\<lambda>_. on_frame lib cfg user a (Prompt ct n)) s")
      (simp add: prompt_loop.simps)
qed

text \<open>
  C30. Whatever a client sends, every request the server forwards to the AI provider has between
  one and a hundred messages, only the three known roles, and a token budget of at most 8192.
\<close>

theorem forwarded_requests_valid:
  "\<exists>rs. forwarded (snd (handle_socket lib cfg user sk as s)) = forwarded s @ rs \<and> list_all request_ok rs"
  using staysD [OF requests.stays_handle_socket, of as lib cfg user sk s] by (simp add: list_all_iff)

text \<open>
  C10. The frame protocol: while the socket can be written to, a connection sends the server's
  hello, then whole turns (any number of chunks closed by \<^verbatim>\<open>done\<close> or by one error), and at most
  one close message, at the very end. Only a provider that stalls leaves the chunks of a last turn
  without their end.
\<close>

theorem frame_protocol:
  assumes "sends_left s = None"
  shows "\<exists>k ts cs tail. outbox (snd (handle_socket lib cfg user sk as s)) =
      outbox s @ Out_frame (ServerHello k) # map Out_frame (concat ts @ cs) @ tail \<and>
    list_all turn ts \<and> tail \<in> {[], [Out_close]} \<and>
    list_all is_chunk cs \<and> (list_all (\<lambda>a. stalls a = Steady) as \<longrightarrow> cs = [])"
proof -
  let ?b = "list_all (\<lambda>a. stalls a = Steady) as"
  let ?h = "handshake_new (cl_kex lib) sk"
  define t where "t = s\<lparr>outbox := outbox s @ [Out_frame (ServerHello (cl_encode lib (public_key_bytes ?h)))]\<rparr>"
  define u where "u a = snd (arrive a t)" for a
  obtain nxt rest where nxt: "next_client_frame lib as = (nxt, rest)" by fastforce
  have hello: "send_frame (ServerHello (cl_encode lib (public_key_bytes ?h))) s = (Inr (), t)"
    using assms by (simp add: send_frame_def send_out_def t_def)
  have arrive: "arrive a t = (Inr (), u a)" for a by (simp add: u_def arrive_def)
  have rest: "list_all (\<lambda>a. ?b \<longrightarrow> stalls a = Steady) rest" if "nxt = Some p" for p
    using next_client_frame_set [of lib as "fst p" "snd p" rest] nxt that by (auto simp: list_all_iff)
  have silent: "sends_rest ?b t v" if "sends_rest ?b (u a) v" for a v
    using that by (rule sends_rest_silent [rotated 2]) (simp_all add: u_def arrive_def)
  have "sends_rest ?b t (snd (handle_socket lib cfg user sk as s))"
    using silent [OF establish_sends] rest silent [OF sends_restI [OF turns_error]] silent [OF sends_restI [OF turns.R_refl]]
      sends_restI [OF turns.R_refl, of ?b t]
    by (auto simp: handle_socket_def Let_def nxt bindE_def hello arrive
        split: option.split sum.split client_frame.split)
  moreover have "sends_left t = None" using assms by (simp add: t_def)
  ultimately obtain fs tail where fs: "turns ?b fs" "tail \<in> {[], [Out_close]}"
    "outbox (snd (handle_socket lib cfg user sk as s)) = outbox t @ map Out_frame fs @ tail"
    unfolding sends_rest_def by blast
  then obtain ts cs where "fs = concat ts @ cs" "list_all turn ts" "list_all is_chunk cs" "?b \<longrightarrow> cs = []"
    unfolding turns_def by blast
  with fs(2,3) show ?thesis
    by (intro exI [of _ "cl_encode lib (public_key_bytes ?h)"] exI [of _ ts] exI [of _ cs] exI [of _ tail])
      (simp add: t_def)
qed

text \<open>A peer that hangs up at once.\<close>

theorem frame_protocol_witness:
  "\<exists>k ts tail. outbox (snd (handle_socket demo_chat demo_config demo_user (demo_key 9)
      [demo_arrival Hangup 5] demo_conn)) =
    Out_frame (ServerHello k) # map Out_frame (concat ts) @ tail \<and> list_all turn ts \<and> tail \<in> {[], [Out_close]}"
proof -
  have "sends_left demo_conn = None" "outbox demo_conn = []" by (simp_all add: demo_conn_def)
  moreover have "list_all (\<lambda>a. stalls a = Steady) [demo_arrival Hangup 5]" by (simp add: demo_arrival_def)
  ultimately show ?thesis
    using frame_protocol [of demo_conn demo_chat demo_config demo_user "demo_key 9" "[demo_arrival Hangup 5]"]
    by fastforce
qed

text \<open>
  C2. End to end, client to provider: when client and server complete the handshake with each
  other, whatever arrives then, frames of the client delayed, repeated or dropped at will and
  prompts that an attacker made up or tampered with (which do not open under the client's key),
  what the server forwards to the provider is a prefix of the client's prompts, in order, each at
  most once, less those that are not valid prompts.
\<close>

theorem only_sent_prompts_forwarded:
  assumes "kex_lawful (cl_kex lib)" and "aead_lawful (cl_aead lib)"
    and "cl_decode lib pk = Some (public_from (cl_kex lib) csk)"
    and "client_side (cl_kex lib) csk (public_from (cl_kex lib) csk)
      (public_key_bytes (handshake_new (cl_kex lib) sk)) = Inr cli"
    and "run_oks (encrypt_client (cl_aead lib)) ms cli = (fs, cli')" and "length fs = length ms"
    and "list_all (from_client lib (send_key cli) fs) as"
  shows "\<exists>n. forwarded (snd (establish lib cfg user (handshake_new (cl_kex lib) sk) pk as s)) =
    forwarded s @ concat (map (requests_of lib cfg) (take n ms))"
proof (cases "complete (cl_kex lib) (handshake_new (cl_kex lib) sk) (public_from (cl_kex lib) csk)")
  case (Inl e)
  then have "forwarded (snd (establish lib cfg user (handshake_new (cl_kex lib) sk) pk as s)) = forwarded s"
    using assms(3) by (simp add: establish_def bindE_def send_frame_def send_out_def split: option.split nat.split)
  then show ?thesis by (intro exI [of _ 0]) simp
next
  case (Inr srv)
  let ?s = "s\<lparr>sess := srv\<rparr>"
  have link: "key_linked (cl_aead lib) cli srv" "send_counter cli = 0" "recv_counter srv = 0"
    using handshake_linked [OF assms(1,2) Inr assms(4)] by simp_all
  have loop: "\<exists>n. forwarded (snd (prompt_loop lib cfg user d as ?s)) =
      forwarded s @ concat (map (requests_of lib cfg) (take n ms))" for d
    using loop_prefix [OF assms(5-7), of ?s 0 cfg user d] link by simp
  have close: "forwarded (snd (ignoring (send_out Out_close) t)) = forwarded t" for t
    by (simp add: ignoring_def send_out_def split: option.split nat.split)
  have "forwarded (snd (bindE (prompt_loop lib cfg user d as) (\<lambda>_. ignoring (send_out Out_close)) ?s)) =
      forwarded (snd (prompt_loop lib cfg user d as ?s))" for d
    using close by (simp add: bindE_def split: prod.split sum.split)
  then have "\<exists>n. forwarded (snd (converse lib cfg user as ?s)) =
      forwarded s @ concat (map (requests_of lib cfg) (take n ms))"
    using loop close [of ?s] exI [of "\<lambda>n. forwarded s = forwarded s @ concat (map (requests_of lib cfg) (take n ms))" 0]
    by (simp add: converse_def Let_def)
  then show ?thesis using assms(3) Inr by (simp add: establish_def bindE_def)
qed

text \<open>Of the client's two prompts the first arrives, twice, after a copy with another tag.\<close>

theorem only_sent_prompts_forwarded_witness:
  "\<exists>n. forwarded (snd (establish demo_chat demo_config demo_user (handshake_new demo_kex (demo_key 9))
      (map chr (demo_key 20))
      [demo_arrival (demo_prompt ([1] @ replicate 16 8, counter_nonce 0)) 2,
       demo_arrival (demo_prompt ([1] @ replicate 16 7, counter_nonce 0)) 3,
       demo_arrival (demo_prompt ([1] @ replicate 16 7, counter_nonce 0)) 4] demo_conn)) =
    concat (map (requests_of demo_chat demo_config) (take n [[1], [2]]))"
proof -
  have lib: "cl_aead demo_chat = demo_aead" "cl_kex demo_chat = demo_kex" by (simp_all add: demo_chat_def)
  have pk: "cl_decode demo_chat (map chr (demo_key 20)) = Some (public_from demo_kex (demo_key 20))" by code_simp
  have genuine: "list_all (from_client demo_chat (send_key demo_client)
      [([1] @ replicate 16 7, counter_nonce 0), ([2] @ replicate 16 7, counter_nonce 1)])
    [demo_arrival (demo_prompt ([1] @ replicate 16 8, counter_nonce 0)) 2,
     demo_arrival (demo_prompt ([1] @ replicate 16 7, counter_nonce 0)) 3,
     demo_arrival (demo_prompt ([1] @ replicate 16 7, counter_nonce 0)) 4]" by code_simp
  have start: "forwarded demo_conn = []" by (simp add: demo_conn_def)
  show ?thesis
    using only_sent_prompts_forwarded [where lib = demo_chat and s = demo_conn and cfg = demo_config and user = demo_user,
        unfolded lib, OF demo_kex_lawful demo_aead_lawful pk demo_handshake(2) demo_run_client _ genuine]
    unfolding start by simp
qed


text \<open>
  C8. End to end, provider to client: when a prompt is answered in full, the frames sent are
  chunks and the end marker, the provider's transcript was text and a clean end, and a client in
  step with the session decrypts the chunks to exactly that text, in order.
\<close>

theorem answer_readable:
  assumes "handle_prompt lib cfg a ct n s = (Inr (), t)"
    and "key_linked (cl_aead lib) (sess s) cli" and "unat (recv_counter cli) = unat (send_counter (sess s))"
  shows "\<exists>request events ds fs. forwarded t = forwarded s @ [request] \<and>
    stream_chat (cl_json lib) (upstream a) (build_provider cfg) request = Inr events \<and>
    events None = map (Inr \<circ> Delta) ds @ [Inr Done] \<and>
    outbox t = outbox s @ map (chunk_frame lib) fs @ [Out_frame Done_frame] \<and>
    fst (run_oks (\<lambda>(x, n). decrypt_client (cl_aead lib) x n) fs cli) = map as_bytes ds"
proof -
  obtain x nn m y request events s1 u where dec: "decode_frame lib ct n = Inr (x, nn)"
    "session_decrypt (cl_aead lib) x nn (sess s) = (Inr m, y)" and req: "prompt_request lib cfg m = Inr request"
    and ev: "stream_chat (cl_json lib) (upstream a) (build_provider cfg) request = Inr events"
    and relay: "relay_events lib (awaited_events (stalls a) (events None)) s1 = (Inr (), u)" and finish: "send_frame Done_frame u = (Inr (), t)"
    and s1: "sess s1 = y" "outbox s1 = outbox s"
    using assms(1) by (rule handle_prompt_ok)
  have "forwarded t = forwarded s @ [request]"
    using answer_receives [of lib cfg a ct n s] dec req assms(1)
    by (simp add: answer_def or_else_def receives_def requests_of_def)
  moreover obtain ds rest fs where
    rest: "awaited_events (stalls a) (events None) = map (Next \<circ> Inr \<circ> Delta) ds @ rest" "rest = [] \<or> hd rest = Next (Inr Done)"
    and run: "run_oks (session_encrypt (cl_aead lib)) (map as_bytes ds) y = (fs, sess u)" "length fs = length ds"
    and out: "outbox u = outbox s @ map (chunk_frame lib) fs"
    using relay_ok [OF relay] s1 by auto
  moreover have "events None = map (Inr \<circ> Delta) ds @ [Inr Done]"
    using rest stream_chat_terminal [OF ev] by (rule awaited_done)
  moreover have "outbox t = outbox u @ [Out_frame Done_frame]"
    using send_out_ok [OF finish [unfolded send_frame_def]] by simp
  moreover have "fst (run_oks (\<lambda>(x, n). decrypt_client (cl_aead lib) x n) fs cli) = map as_bytes ds"
  proof (rule s2c.delivered_in_order [OF _ run(1)])
    have "send_key y = send_key (sess s) \<and> send_counter y = send_counter (sess s)"
      using dec(2) by (auto simp: session_decrypt_def decrypt_frame_ok)
    then show "key_linked (cl_aead lib) y cli" "unat (recv_counter cli) = unat (send_counter y)"
      using assms(2,3) by (simp_all add: key_linked_def)
  qed (use run(2) in simp)
  ultimately show ?thesis using ev by auto
qed

text \<open>One prompt, answered with one chunk.\<close>

theorem answer_readable_witness:
  "\<exists>t fs ds. handle_prompt demo_chat (demo_config\<lparr>provider := OpenAi\<rparr>) ((demo_arrival Hangup 0)\<lparr>upstream := demo_upstream\<rparr>)
     (map chr ([1] @ replicate 16 7)) (map chr (counter_nonce 0)) demo_conn = (Inr (), t) \<and>
   fst (run_oks (\<lambda>(x, n). decrypt_client demo_aead x n) fs demo_client) = map as_bytes ds"
proof -
  obtain t where t: "handle_prompt demo_chat (demo_config\<lparr>provider := OpenAi\<rparr>)
      ((demo_arrival Hangup 0)\<lparr>upstream := demo_upstream\<rparr>)
      (map chr ([1] @ replicate 16 7)) (map chr (counter_nonce 0)) demo_conn = (Inr (), t)"
    using demo_answered by (metis prod.collapse)
  have "key_linked (cl_aead demo_chat) (sess demo_conn) demo_client"
    "unat (recv_counter demo_client) = unat (send_counter (sess demo_conn))"
    using demo_aead_lawful by (simp_all add: demo_chat_def demo_conn_def key_linked_def demo_client_def demo_server_def)
  from answer_readable [OF t this] t show ?thesis by (auto simp: demo_chat_def)
qed


text \<open>
  C9. Revocation reaches open connections: from the moment a session is revoked, whatever
  other requests do and whatever the client sends, no prompt is decrypted (keys and counters of
  the session stay as they are), counted or forwarded any more and the client gets nothing but
  error frames. The connection itself touches neither limiter nor metrics: what happens to them
  is a sequence of steps of the other tasks, so that they are unchanged when no other task runs.
\<close>

theorem revoked_session_cut_off:
  assumes "revoked (au_session_id user) (w_store (world s))" and "db_ok (w_store (world s))"
    and "list_all lawful_others as" and "prompt_loop lib cfg user deadline as s = (r, t)"
  shows "forwarded t = forwarded s \<and> sess t = sess s \<and>
    (others_step as)\<^sup>*\<^sup>* (w_limiter (world s), w_metrics (world s)) (w_limiter (world t), w_metrics (world t)) \<and>
    (\<exists>es. outbox t = outbox s @ map Out_frame es \<and> list_all is_error es)"
proof -
  have "others_step as (shared w) (shared (others a w))" if "a \<in> set as" for a w
    using that by (auto simp: others_step_def)
  then have "only_errors (others_step as) (au_session_id user) s t"
    using revoked_loop.stays_prompt_loop [of "others_step as" as user s lib cfg deadline] assms(3,4)
    by (auto simp: list_all_iff)
  then show ?thesis using assms(1,2) by (simp add: only_errors_def cut_off_def)
qed

text \<open>The session of the demonstration store, revoked.\<close>

theorem revoked_session_cut_off_witness:
  "\<exists>r t. prompt_loop demo_chat demo_config demo_user 9
     [demo_arrival (demo_prompt ([1] @ replicate 16 7, counter_nonce 0)) 3]
     (demo_conn\<lparr>world := (world demo_conn)\<lparr>w_store := snd (revoke_session 1 demo_store)\<rparr>\<rparr>) = (r, t) \<and>
   forwarded t = [] \<and> recv_counter (sess t) = 0 \<and> w_limiter (world t) = limiter_new 1 60"
proof -
  let ?s = "demo_conn\<lparr>world := (world demo_conn)\<lparr>w_store := snd (revoke_session 1 demo_store)\<rparr>\<rparr>"
  let ?as = "[demo_arrival (demo_prompt ([1] @ replicate 16 7, counter_nonce 0)) 3]"
  obtain r t where run: "prompt_loop demo_chat demo_config demo_user 9 ?as ?s = (r, t)" by fastforce
  have "revoked 1 (snd (revoke_session 1 demo_store))" by code_simp
  then have "revoked (au_session_id demo_user) (w_store (world ?s))" by (simp add: demo_user_def)
  moreover have "db_ok (snd (revoke_session 1 demo_store))" by code_simp
  then have "db_ok (w_store (world ?s))" by simp
  moreover have "list_all lawful_others ?as"
    by (simp add: lawful_others_def demo_arrival_def)
  moreover have "x = y" if "(others_step ?as)\<^sup>*\<^sup>* x y" for x y
    using that by induction (auto simp: others_step_def demo_arrival_def)
  ultimately show ?thesis
    using revoked_session_cut_off [OF _ _ _ run] run by (fastforce simp: demo_conn_def demo_server_def)
qed



end
