(* ===== verification/Refresh_Race.thy ===== *)
theory Refresh_Race
  imports Auth_Service
begin

text \<open>
  Concurrent exchanges of one refresh token. \<^verbatim>\<open>refresh\<close> of \<^verbatim>\<open>src/services/auth.rs\<close> is cut at its
  round trips to the database: a call is at a program point, and a step of it runs up to the
  next point, with at most one statement or transaction. Run without interruption the steps
  are \<open>refresh\<close>; interleaved, and with other requests changing the database between any two of
  them, they are the relation \<open>race\<close>.
\<close>

section \<open>Definitions\<close>

datatype point =
    Start
  | Found refresh_token
  | Checked refresh_token
  | Reused refresh_token
  | Alarm refresh_token
  | Consumed refresh_token
  | Issued refresh_token token_response
  | Finished "app_error + token_response"

definition continue_with :: "'a service \<Rightarrow> ('a \<Rightarrow> point) \<Rightarrow> store \<Rightarrow> point \<times> store" where
  "continue_with m f s = (case m s of (Inl e, t) \<Rightarrow> (Finished (Inl e), t) | (Inr x, t) \<Rightarrow> (f x, t))"

fun refresh_step :: "'h app \<Rightarrow> string \<Rightarrow> client_meta \<Rightarrow> point \<Rightarrow> store \<Rightarrow> point \<times> store" where
  "refresh_step app tok meta Start =
     continue_with (db (find_refresh_token (hash_token (token_lib app) tok)))
       (\<lambda>found. case found of None \<Rightarrow> Finished (Inl Unauthorized) | Some r \<Rightarrow> Found r)"
| "refresh_step app tok meta (Found r) =
     continue_with (token_stale r) (\<lambda>stale. if stale then Finished (Inl Unauthorized) else Checked r)"
| "refresh_step app tok meta (Checked r) =
     continue_with (token_reused r) (\<lambda>reused. if reused then Reused r else Consumed r)"
| "refresh_step app tok meta (Reused r) =
     continue_with (db (revoke_session (rt_session_id r))) (\<lambda>_. Alarm r)"
| "refresh_step app tok meta (Alarm r) =
     continue_with (audit_record (Some (rt_user_id r)) ''auth.refresh_token_reuse_detected''
       [(''session_id'', M_uuid (rt_session_id r))] (ip_address meta)) (\<lambda>_. Finished (Inl Unauthorized))"
| "refresh_step app tok meta (Consumed r) =
     continue_with (issue_tokens app (rt_user_id r) (rt_session_id r)) (Issued r)"
| "refresh_step app tok meta (Issued r response) =
     continue_with (audit_record (Some (rt_user_id r)) ''auth.token_refreshed''
       [(''session_id'', M_uuid (rt_session_id r))] (ip_address meta)) (\<lambda>_. Finished (Inr response))"
| "refresh_step app tok meta (Finished result) = (\<lambda>s. (Finished result, s))"

fun refresh_steps_of :: "nat \<Rightarrow> 'h app \<Rightarrow> string \<Rightarrow> client_meta \<Rightarrow> point \<Rightarrow> store \<Rightarrow> point \<times> store" where
  "refresh_steps_of 0 app tok meta p s = (p, s)"
| "refresh_steps_of (Suc n) app tok meta p s =
     (case refresh_step app tok meta p s of (q, t) \<Rightarrow> refresh_steps_of n app tok meta q t)"

text \<open>
  Calls in flight, each with the metadata of its client, over a shared database that other
  requests change as requests do.
\<close>

inductive race :: "'h app \<Rightarrow> string \<Rightarrow> (nat \<Rightarrow> client_meta) \<Rightarrow> point list \<times> store \<Rightarrow> point list \<times> store \<Rightarrow> bool"
  for app tok metas where
  call: "i < length ps \<Longrightarrow> refresh_step app tok (metas i) (ps ! i) s = (p, t) \<Longrightarrow>
    race app tok metas (ps, s) (ps[i := p], t)"
| other: "history s t \<Longrightarrow> db_ok t \<Longrightarrow> race app tok metas (ps, s) (ps, t)"

inductive_cases raceE: "race app tok metas (ps, s) x"

fun row_of :: "point \<Rightarrow> refresh_token option" where
  "row_of (Found r) = Some r"
| "row_of (Checked r) = Some r"
| "row_of (Reused r) = Some r"
| "row_of (Alarm r) = Some r"
| "row_of (Consumed r) = Some r"
| "row_of (Issued r _) = Some r"
| "row_of _ = None"

fun won :: "point \<Rightarrow> bool" where
  "won (Consumed _) = True"
| "won (Issued _ _) = True"
| "won (Finished (Inr _)) = True"
| "won _ = False"

text \<open>The row a call holds is a past version of the token's row.\<close>

definition holds_row :: "string \<Rightarrow> store \<Rightarrow> point \<Rightarrow> bool" where
  "holds_row h s p \<longleftrightarrow> (case row_of p of None \<Rightarrow> True
     | Some r \<Rightarrow> rt_token_hash r = h \<and> list_ex (token_later r) (refresh_tokens s))"

definition race_ok :: "string \<Rightarrow> point list \<times> store \<Rightarrow> bool" where
  "race_ok h = (\<lambda>(ps, s). db_ok s \<and> list_all (holds_row h s) ps \<and>
     (list_ex won ps \<longrightarrow> rotated h s) \<and> length (filter won ps) \<le> 1)"

section \<open>Lemmas\<close>

lemma token_later_refl: "token_later r r"
  by (simp add: token_later_def final_def)

lemma holds_row_history: "history s t \<Longrightarrow> holds_row h s p \<Longrightarrow> holds_row h t p"
  unfolding holds_row_def history_def evolve_def list_ex_iff
  by (auto split: option.splits) (meson later_trans)

lemma filter_won_update:
  assumes "i < length ps"
  shows "length (filter won (ps[i := p])) =
    length (filter won ps) - (if won (ps ! i) then 1 else 0) + (if won p then 1 else 0)"
  using assms
proof (induction ps arbitrary: i)
  case (Cons q ps)
  then show ?case
  proof (cases i)
    case (Suc j)
    have "won (ps ! j) \<Longrightarrow> length (filter won ps) > 0" if "j < length ps" for j
      using that by (auto simp: filter_empty_conv)
    with Cons Suc show ?thesis by (auto simp: Suc_diff_le)
  qed auto
qed simp

lemma snd_continue_with [simp]: "snd (continue_with m f s) = snd (m s)"
  by (simp add: continue_with_def split: prod.split sum.split)

lemma fst_continue_with:
  "fst (continue_with m f s) = (case fst (m s) of Inl e \<Rightarrow> Finished (Inl e) | Inr x \<Rightarrow> f x)"
  by (simp add: continue_with_def split: prod.split sum.split)

lemma history_step: "history s (snd (refresh_step app tok meta p s))"
proof -
  have "stays history (db (find_refresh_token h))" for h by (intro stays_db hist.stays_reads)
  moreover have "stays history (token_reused r)" for r by (intro hist_service.stays_token_reused history_updates)
  moreover have "stays history (db (revoke_session i))" for i by (intro stays_db history_revoke)
  moreover have "stays history (audit_record u ty me ip)" for u ty me ip by (intro stays_audit history_inserts)
  ultimately show ?thesis
    using hist_service.stays_token_stale
    by (cases p) (simp_all add: staysD history_auth(6) [THEN staysD])
qed

lemma held_row:
  assumes "holds_row h s p" and "row_of p = Some r"
  obtains y where "y \<in> set (refresh_tokens s)" and "token_later r y" and "rt_token_hash y = h" and "rt_token_hash r = h"
  using assms by (auto simp: holds_row_def list_ex_iff token_later_def)

lemma db_ok_step:
  assumes "db_ok s" and "holds_row h s p"
  shows "db_ok (snd (refresh_step app tok meta p s))"
proof (cases "\<exists>r. p = Consumed r")
  case True
  then obtain r where p: "p = Consumed r" by blast
  obtain y where "y \<in> set (refresh_tokens s)" "token_later r y"
    using held_row [OF assms(2), of r] p by auto
  then have "session_owned (rt_session_id r) (rt_user_id r) s"
    using token_session_owned [OF assms(1)] by (fastforce simp: token_later_def)
  then show ?thesis
    using owned_wfD [OF owned_service.stays_issue_tokens [OF wf_insert_refresh_token] assms(1)] p by simp
next
  case False
  have "stays (\<lambda>s t. db_ok s \<longrightarrow> db_ok t) (db (find_refresh_token h))" for h by (intro stays_db wf.stays_reads)
  moreover have "stays (\<lambda>s t. db_ok s \<longrightarrow> db_ok t) (token_reused r)" for r
    by (intro wf_service.stays_token_reused wf_updates)
  moreover have "stays (\<lambda>s t. db_ok s \<longrightarrow> db_ok t) (db (revoke_session i))" for i by (intro stays_db wf_revoke)
  moreover have "stays (\<lambda>s t. db_ok s \<longrightarrow> db_ok t) (audit_record u ty me ip)" for u ty me ip
    by (intro stays_audit wf_inserts)
  ultimately show ?thesis
    using False assms(1) wf_service.stays_token_stale unfolding stays_def by (cases p) simp_all
qed

lemma holds_row_step:
  assumes "db_ok s" and "holds_row (hash_token (token_lib app) tok) s p"
  shows "holds_row (hash_token (token_lib app) tok) (snd (refresh_step app tok meta p s)) (fst (refresh_step app tok meta p s))"
proof (cases "p = Start")
  case True
  show ?thesis
  proof (cases "db (find_refresh_token (hash_token (token_lib app) tok)) s")
    case (Pair r t)
    then show ?thesis
      using True found_token_owned [OF _ assms(1)]
      by (auto simp: continue_with_def holds_row_def list_ex_iff split: sum.splits option.splits
          intro: token_later_refl)
  qed
next
  case False
  then have "row_of (fst (refresh_step app tok meta p s)) \<in> {None, row_of p}"
    by (cases p) (auto simp: fst_continue_with split: sum.split)
  then have "holds_row (hash_token (token_lib app) tok) s (fst (refresh_step app tok meta p s))"
    using assms(2) by (auto simp: holds_row_def)
  then show ?thesis by (rule holds_row_history [OF history_step])
qed

text \<open>The token is won only by the call whose update finds it unrotated.\<close>

lemma mark_rotated_unrotated:
  assumes "db (mark_rotated i) s = (Inr True, t)"
  obtains z where "z \<in> set (refresh_tokens s)" and "rt_id z = i" and "rt_rotated_at z = None"
  using assms unfolding db_ok_Inr mark_rotated_def by (auto simp: Let_def list_ex_iff elim!: sql_ok)

lemma won_step:
  assumes "db_ok s" and "holds_row h s p" and "\<not> won p" and "won (fst (refresh_step app tok meta p s))"
  shows "\<not> rotated h s \<and> rotated h (snd (refresh_step app tok meta p s))"
proof -
  obtain r where p: "p = Checked r" and "fst (token_reused r s) = Inr False"
    using assms(3,4) by (cases p) (auto simp: fst_continue_with split: sum.splits option.splits if_splits)
  then obtain t where t: "token_reused r s = (Inr False, t)" by (cases "token_reused r s") simp
  have mark: "db (mark_rotated (rt_id r)) s = (Inr True, t)" using token_reused_False [OF t] by simp
  obtain y where y: "y \<in> set (refresh_tokens s)" "token_later r y" "rt_token_hash y = h"
    using held_row [OF assms(2), of r] p by auto
  obtain z where z: "z \<in> set (refresh_tokens s)" "rt_id z = rt_id r" "rt_rotated_at z = None"
    using mark by (rule mark_rotated_unrotated)
  have "z = y" using token_unique [OF assms(1) z(1) y(1)] z(2) y(2) by (simp add: token_later_def)
  have "rt_rotated_at x = None" if "x \<in> set (refresh_tokens s)" "rt_token_hash x = h" for x
    using token_unique [OF assms(1) that(1) y(1)] that(2) y(3) z(3) \<open>z = y\<close> by simp
  then have "\<not> rotated h s" by (auto simp: rotated_def list_ex_iff)
  moreover have "rotated h t" using mark_rotated_rotates [OF mark y(1)] y(2,3) by (simp add: token_later_def)
  ultimately show ?thesis using p t by simp
qed

lemma race_ok_step:
  assumes "race app tok metas x y" and "race_ok (hash_token (token_lib app) tok) x"
  shows "race_ok (hash_token (token_lib app) tok) y"
  using assms
proof cases
  case (call i ps s p t)
  let ?h = "hash_token (token_lib app) tok"
  have inv: "db_ok s" "list_all (holds_row ?h s) ps" "list_ex won ps \<longrightarrow> rotated ?h s" "length (filter won ps) \<le> 1"
    using assms(2) call(1) by (simp_all add: race_ok_def)
  have row: "holds_row ?h s (ps ! i)" using inv(2) call(3) by (simp add: list_all_length)
  have h: "history s t" using history_step [of s app tok "metas i" "ps ! i"] call(4) by simp
  have "db_ok t" using db_ok_step [OF inv(1) row, of app tok "metas i"] call(4) by simp
  moreover have "list_all (holds_row ?h t) (ps[i := p])"
    using holds_row_step [OF inv(1) row, of "metas i"] call(4) inv(2) holds_row_history [OF h]
      set_update_subset_insert [of ps i p] by (auto simp: list_all_iff)
  moreover have "(list_ex won (ps[i := p]) \<longrightarrow> rotated ?h t) \<and> length (filter won (ps[i := p])) \<le> 1"
  proof (cases "won p \<and> \<not> won (ps ! i)")
    case True
    then have fresh: "\<not> rotated ?h s" "rotated ?h t" using won_step [OF inv(1) row, of app tok "metas i"] call(4) by simp_all
    then have "filter won ps = []" using inv(3) by (auto simp: filter_empty_conv list_ex_iff)
    then show ?thesis using fresh(2) filter_won_update [OF call(3), of p] by simp
  next
    case False
    have "list_ex won (ps[i := p]) \<Longrightarrow> list_ex won ps"
      using False call(3) by (auto simp: list_ex_length nth_list_update split: if_splits)
    then show ?thesis
      using inv(3,4) history_rotated [OF h] filter_won_update [OF call(3), of p] False
      by (auto split: if_splits)
  qed
  ultimately show ?thesis using call(2) by (simp add: race_ok_def)
next
  case (other s t ps)
  then show ?thesis
    using assms(2) holds_row_history [OF other(3)] history_rotated [OF other(3)]
    by (auto simp: race_ok_def list_all_iff)
qed

lemma race_ok_reachable:
  assumes "(race app tok metas)\<^sup>*\<^sup>* x y" and "race_ok (hash_token (token_lib app) tok) x"
  shows "race_ok (hash_token (token_lib app) tok) y"
  using assms by (induction rule: rtranclp_induct) (auto dest: race_ok_step)

lemma two_winners: "i < length ps \<Longrightarrow> j < length ps \<Longrightarrow> i < j \<Longrightarrow> won (ps ! i) \<Longrightarrow> won (ps ! j) \<Longrightarrow> 2 \<le> length (filter won ps)"
proof (induction ps arbitrary: i j)
  case (Cons p ps)
  obtain k where j: "j = Suc k" using Cons.prems(3) by (cases j) simp_all
  show ?case
  proof (cases i)
    case 0
    then have "ps ! k \<in> set (filter won ps)" and "won p" using Cons.prems j by simp_all
    then show ?thesis by (cases "filter won ps") simp_all
  next
    case (Suc i')
    then show ?thesis using Cons.IH [of i' k] Cons.prems j by simp
  qed
qed simp

text \<open>A call that runs alone is a run of the race.\<close>

lemma race_run:
  "i < length ps \<Longrightarrow> refresh_steps_of n app tok (metas i) (ps ! i) s = (p, t) \<Longrightarrow>
     (race app tok metas)\<^sup>*\<^sup>* (ps, s) (ps[i := p], t)"
proof (induction n arbitrary: ps s)
  case (Suc n)
  obtain q u where step: "refresh_step app tok (metas i) (ps ! i) s = (q, u)" by fastforce
  have "race app tok metas (ps, s) (ps[i := q], u)" using Suc.prems(1) step by (rule race.call)
  moreover have "(race app tok metas)\<^sup>*\<^sup>* (ps[i := q], u) (ps[i := p], t)"
    using Suc.IH [of "ps[i := q]" u] Suc.prems step by simp
  ultimately show ?case by (rule converse_rtranclp_into_rtranclp)
qed (auto simp: list_update_same_conv)

lemma race_ok_start: "db_ok s \<Longrightarrow> race_ok h (replicate n Start, s)"
  by (auto simp: race_ok_def holds_row_def list_all_iff list_ex_iff)

lemma race_one_winner:
  assumes "race_ok h (ps, s)" and "i < length ps" and "j < length ps" and "won (ps ! i)" and "won (ps ! j)"
  shows "i = j"
  using two_winners [of i ps j] two_winners [of j ps i] assms
  by (cases i j rule: linorder_cases) (auto simp: race_ok_def)

lemma refresh_steps_all:
  "refresh_steps_of 6 app tok meta Start s = (Finished (fst (refresh app tok meta s)), snd (refresh app tok meta s))"
  by (simp add: numeral_eq_Suc refresh_def continue_with_def bindE_def Let_def split: prod.split sum.split option.split)

lemma refresh_steps_add:
  "refresh_steps_of (m + n) app tok meta p s =
     (case refresh_steps_of m app tok meta p s of (q, t) \<Rightarrow> refresh_steps_of n app tok meta q t)"
  by (induction m arbitrary: p s) (simp_all split: prod.split)

lemma refresh_steps_finished: "refresh_steps_of n app tok meta (Finished x) s = (Finished x, s)"
  by (induction n) simp_all

section \<open>Properties\<close>

text \<open>
  The steps are the service: a call that is not interrupted is finished after at most six
  of them, with the result and the database of \<open>refresh\<close>.
\<close>

lemma refresh_steps_compose:
  "refresh_steps_of (6 + n) app tok meta Start s =
     (Finished (fst (refresh app tok meta s)), snd (refresh app tok meta s))"
  by (simp add: refresh_steps_add refresh_steps_all refresh_steps_finished)

end
