(* ===== verification/Startup.thy ===== *)
theory Startup
  imports Http_Api
begin

text \<open>
  \<^verbatim>\<open>src/main.rs\<close> up to the point where the server serves, and \<^verbatim>\<open>cors_layer\<close> of
  \<^verbatim>\<open>src/api/router.rs\<close>. What the process asks of its surroundings (the database, the migrations,
  the address parser, the certificate files, the socket) is the record \<open>host\<close>; the log is the
  list of the effects, in order. An \<^verbatim>\<open>anyhow\<close> error is its chain of messages, outermost first.
  Tracing and the signal handlers have no effect on this path.
\<close>

section \<open>Definitions\<close>

record 'addr host =
  h_connect :: "string \<Rightarrow> u32 \<Rightarrow> string + store"
  h_migrate :: "store \<Rightarrow> string + store"
  h_parse_addr :: "string \<Rightarrow> string + 'addr"
  h_load_pem :: "string \<Rightarrow> string \<Rightarrow> string + unit"
  h_bind :: "'addr \<Rightarrow> string + unit"
  h_serve :: "'addr \<Rightarrow> server \<Rightarrow> string + unit"

datatype 'addr effect =
    Connected | Migrated | Sweeping | Tls_loaded | Bound | Serving bool 'addr server

type_synonym ('addr, 'a) startup = "('addr effect list, string list, 'a) action"

definition with_context :: "string \<Rightarrow> string + 'a \<Rightarrow> ('addr, 'a) startup" where
  "with_context msg r = liftE (map_err (\<lambda>e. [msg, e]) r)"

definition log_effect :: "'addr effect \<Rightarrow> ('addr, unit) startup" where
  "log_effect e log = (Inr (), log @ [e])"

definition tls_paths :: "config \<Rightarrow> (string \<times> string) option" where
  "tls_paths c = (case (tls_cert_path c, tls_key_path c) of
       (Some cert, Some key) \<Rightarrow> Some (cert, key)
     | _ \<Rightarrow> None)"

definition listen :: "'addr host \<Rightarrow> (string \<times> string) option \<Rightarrow> 'addr \<Rightarrow> server \<Rightarrow> ('addr, unit) startup" where
  "listen host tls addr sv = (case tls of
       Some (cert, key) \<Rightarrow>
         bindE (with_context ''failed to load TLS certificate/key'' (h_load_pem host cert key)) (\<lambda>_.
         bindE (log_effect Tls_loaded) (\<lambda>_.
         bindE (log_effect (Serving True addr sv)) (\<lambda>_.
         with_context ''server error'' (h_serve host addr sv))))
     | None \<Rightarrow>
         bindE (with_context ''failed to bind listener'' (h_bind host addr)) (\<lambda>_.
         bindE (log_effect Bound) (\<lambda>_.
         bindE (log_effect (Serving False addr sv)) (\<lambda>_.
         with_context ''server error'' (h_serve host addr sv)))))"

definition main :: "'h app \<Rightarrow> 'addr host \<Rightarrow> vars \<Rightarrow> ('addr, unit) startup" where
  "main libs host vars =
     bindE (with_context ''failed to load configuration'' (from_map vars)) (\<lambda>c.
     bindE (with_context ''failed to connect to PostgreSQL''
       (h_connect host (database_url c) (database_max_connections c))) (\<lambda>pool.
     bindE (log_effect Connected) (\<lambda>_.
     bindE (with_context ''failed to run database migrations'' (h_migrate host pool)) (\<lambda>migrated.
     bindE (log_effect Migrated) (\<lambda>_.
     bindE (with_context ''BIND_ADDR must be host:port'' (h_parse_addr host (bind_addr c))) (\<lambda>addr.
     let (app, sv) = app_state_new libs c migrated in
     bindE (log_effect Sweeping) (\<lambda>_.
     listen host (tls_paths c) addr sv)))))))"

subsection \<open>Cross-origin access\<close>

record 'v cors_policy =
  allow_origin :: "'v list"
  allow_methods :: "string list"
  allow_headers :: "string list"
  max_age_secs :: nat

text \<open>\<^verbatim>\<open>origin.parse()\<close> makes a header value of the text, or fails; such an origin is left out.\<close>

definition cors_layer :: "(string \<Rightarrow> 'v option) \<Rightarrow> config \<Rightarrow> 'v cors_policy" where
  "cors_layer parse c =
     (let origins = List.map_filter parse (cors_allowed_origins c)
      in \<lparr>allow_origin = if origins = [] then [] else origins,
          allow_methods = [''GET'', ''POST'', ''PUT'', ''DELETE''],
          allow_headers = [''authorization'', ''content-type''],
          max_age_secs = 3600\<rparr>)"

definition demo_host :: "string host" where
  "demo_host = \<lparr>h_connect = \<lambda>url n. Inr (store_empty 0 []), h_migrate = Inr, h_parse_addr = Inr,
     h_load_pem = \<lambda>cert key. Inl ''no such file'', h_bind = \<lambda>addr. Inr (), h_serve = \<lambda>addr sv. Inr ()\<rparr>"

section \<open>Lemmas\<close>

lemma bind_with_context:
  "bindE (with_context msg r) f s = (case r of Inl e \<Rightarrow> (Inl [msg, e], s) | Inr x \<Rightarrow> f x s)"
  by (simp add: with_context_def bindE_def liftE_def map_err_def split: sum.split)

lemma bind_log_effect: "bindE (log_effect e) f log = f () (log @ [e])"
  by (simp add: log_effect_def bindE_def)

lemma snd_with_context [simp]: "snd (with_context msg r s) = s"
  by (simp add: with_context_def liftE_def)

lemmas startup_simps = bind_with_context bind_log_effect

text \<open>The log of a start: it is cut short where a step fails.\<close>

lemma listen_log:
  "snd (listen host tls addr sv log) = log @ (case tls of
       Some (cert, key) \<Rightarrow> (case h_load_pem host cert key of Inl _ \<Rightarrow> [] | Inr _ \<Rightarrow> [Tls_loaded, Serving True addr sv])
     | None \<Rightarrow> (case h_bind host addr of Inl _ \<Rightarrow> [] | Inr _ \<Rightarrow> [Bound, Serving False addr sv]))"
  by (simp add: listen_def startup_simps split: option.split sum.split prod.split)

lemma main_serving:
  assumes "Serving tls addr sv \<in> set (snd (main libs host vars []))"
  obtains c pool migrated where "from_map vars = Inr c"
    and "h_connect host (database_url c) (database_max_connections c) = Inr pool"
    and "h_migrate host pool = Inr migrated" and "h_parse_addr host (bind_addr c) = Inr addr"
    and "sv = snd (app_state_new libs c migrated)" and "tls \<longleftrightarrow> tls_paths c \<noteq> None"
    and "snd (main libs host vars []) =
      [Connected, Migrated, Sweeping, if tls then Tls_loaded else Bound, Serving tls addr sv]"
proof -
  obtain c pool migrated addr' where steps: "from_map vars = Inr c"
    "h_connect host (database_url c) (database_max_connections c) = Inr pool"
    "h_migrate host pool = Inr migrated" "h_parse_addr host (bind_addr c) = Inr addr'"
    using assms by (auto simp: main_def startup_simps split: sum.splits)
  let ?sv = "snd (app_state_new libs c migrated)"
  have log: "snd (main libs host vars []) = snd (listen host (tls_paths c) addr' ?sv [Connected, Migrated, Sweeping])"
    by (simp add: main_def startup_simps steps case_prod_beta)
  with assms have "addr' = addr \<and> sv = ?sv \<and> (tls \<longleftrightarrow> tls_paths c \<noteq> None) \<and> snd (main libs host vars []) =
      [Connected, Migrated, Sweeping, if tls then Tls_loaded else Bound, Serving tls addr sv]"
    by (cases "tls_paths c") (auto simp: listen_log split: sum.splits)
  with steps show ?thesis by (intro that) auto
qed

text \<open>
  Which origins a browser may use the API from: the entries of the comma-separated variable that
  are not blank and parse, and none when the variable is not set.
\<close>

lemma cors_origins_configured:
  assumes "from_map vars = Inr c"
  shows "set (allow_origin (cors_layer parse c)) =
    {v. \<exists>o' \<in> set (split_on (CHR '','') (get_or vars ''CORS_ALLOWED_ORIGINS'' [])).
       trim o' \<noteq> [] \<and> parse (trim o') = Some v}"
proof -
  have "set (List.map_filter parse (cors_allowed_origins c)) = {v. \<exists>x \<in> set (cors_allowed_origins c). parse x = Some v}"
    by (force simp: List.map_filter_def image_iff)
  then show ?thesis
    using from_map_fields [OF assms] by (auto simp: cors_layer_def Let_def origins_def)
qed

section \<open>Properties\<close>

text \<open>
  C39. The server starts to serve only after everything it depends on: the configuration was
  accepted, the database was reached and then migrated, the address parsed, and the certificate
  loaded or the socket bound, in this order; it serves over TLS exactly when a certificate is
  configured, with the state that configuration and database give, and never with a short secret
  or, in production, a published one.
\<close>

theorem serving_only_when_ready:
  assumes "Serving tls addr sv \<in> set (snd (main libs host vars []))"
  shows "\<exists>c pool migrated. from_map vars = Inr c \<and>
    h_connect host (database_url c) (database_max_connections c) = Inr pool \<and>
    h_migrate host pool = Inr migrated \<and> h_parse_addr host (bind_addr c) = Inr addr \<and>
    sv = snd (app_state_new libs c migrated) \<and> (tls \<longleftrightarrow> tls_cert_path c \<noteq> None) \<and>
    32 \<le> length (jwt_secret c) \<and>
    \<not> (environment c = Production \<and> list_ex (\<lambda>weak. contains_str weak (jwt_secret c)) WEAK_SECRETS) \<and>
    snd (main libs host vars []) =
      [Connected, Migrated, Sweeping, if tls then Tls_loaded else Bound, Serving tls addr sv]"
proof -
  obtain c pool migrated where main: "from_map vars = Inr c"
    "h_connect host (database_url c) (database_max_connections c) = Inr pool"
    "h_migrate host pool = Inr migrated" "h_parse_addr host (bind_addr c) = Inr addr"
    "sv = snd (app_state_new libs c migrated)" "tls \<longleftrightarrow> tls_paths c \<noteq> None"
    "snd (main libs host vars []) =
      [Connected, Migrated, Sweeping, if tls then Tls_loaded else Bound, Serving tls addr sv]"
    using assms by (rule main_serving)
  have "tls_paths c \<noteq> None \<longleftrightarrow> tls_cert_path c \<noteq> None"
    using from_map_fields [OF main(1)] by (auto simp: tls_paths_def split: option.split)
  moreover have "32 \<le> length (jwt_secret c) \<and>
    \<not> (environment c = Production \<and> list_ex (\<lambda>weak. contains_str weak (jwt_secret c)) WEAK_SECRETS)"
    using from_map_fields [OF main(1)]
    by (auto simp: check_secret_def is_production_def split: if_splits)
  ultimately show ?thesis using main by blast
qed

text \<open>The development defaults start without TLS.\<close>

theorem serving_only_when_ready_witness:
  "\<exists>addr sv. snd (main demo_app demo_host demo_vars []) =
     [Connected, Migrated, Sweeping, Bound, Serving False addr sv]"
proof -
  obtain c where c: "from_map demo_vars = Inr c" using demo_config by blast
  have "tls_paths c = None"
    using from_map_fields [OF c] by (simp add: tls_paths_def demo_get)
  then obtain addr sv where "Serving False addr sv \<in> set (snd (main demo_app demo_host demo_vars []))"
    by (simp add: main_def startup_simps listen_log c demo_host_def case_prod_beta)
  from serving_only_when_ready [OF this] show ?thesis by auto
qed

end
