(* ===== verification/Api_Doc.thy ===== *)
theory Api_Doc
  imports Http_Api
begin

text \<open>
  The OpenAPI document against the server: the annotations \<^verbatim>\<open>#[utoipa::path(...)]\<close> of the handlers
  in \<^verbatim>\<open>src/api/*.rs\<close>, the document that \<^verbatim>\<open>src/api/openapi.rs\<close> collects from them, the route table
  of \<^verbatim>\<open>src/api/router.rs\<close>, and the program \<^verbatim>\<open>src/bin/gen_openapi.rs\<close> that writes the document to
  disk. Of an annotation the method, path, tag, security, request body and responses are kept;
  descriptions are left out. The texts of the document (JSON, YAML) are made by utoipa and are
  parameters.
\<close>

section \<open>Definitions\<close>

datatype http_method = GET | POST | PUT | DELETE

datatype operation =
    Op_register | Op_login | Op_refresh | Op_logout | Op_me
  | Op_list_conversations | Op_create_conversation | Op_update_conversation | Op_delete_conversation
  | Op_list_messages | Op_create_message | Op_delete_message
  | Op_list_keys | Op_create_key
  | Op_chat_stream | Op_health | Op_metrics | Op_openapi_json | Op_docs_ui

record path_item =
  pi_method :: http_method
  pi_path :: string
  pi_tag :: string
  pi_security :: "string list"
  pi_request :: "string option"
  pi_responses :: "(nat \<times> string option) list"

definition envelope :: "nat \<Rightarrow> nat \<times> string option" where
  "envelope status = (status, Some ''ApiError'')"

subsection \<open>The annotations\<close>

definition path_register :: path_item where
  "path_register = \<lparr>pi_method = POST, pi_path = ''/register'', pi_tag = ''auth'', pi_security = [],
     pi_request = Some ''RegisterRequest'',
     pi_responses = [(201, Some ''RegisterResponse''), envelope 400, envelope 409, envelope 429]\<rparr>"

definition path_login :: path_item where
  "path_login = \<lparr>pi_method = POST, pi_path = ''/login'', pi_tag = ''auth'', pi_security = [],
     pi_request = Some ''LoginRequest'',
     pi_responses = [(200, Some ''TokenResponse''), envelope 400, envelope 401, envelope 429]\<rparr>"

definition path_refresh :: path_item where
  "path_refresh = \<lparr>pi_method = POST, pi_path = ''/refresh'', pi_tag = ''auth'', pi_security = [],
     pi_request = Some ''RefreshRequest'',
     pi_responses = [(200, Some ''TokenResponse''), envelope 401, envelope 429]\<rparr>"

definition path_logout :: path_item where
  "path_logout = \<lparr>pi_method = POST, pi_path = ''/logout'', pi_tag = ''auth'', pi_security = [''bearerAuth''],
     pi_request = None, pi_responses = [(204, None), envelope 401]\<rparr>"

definition path_me :: path_item where
  "path_me = \<lparr>pi_method = GET, pi_path = ''/me'', pi_tag = ''auth'', pi_security = [''bearerAuth''],
     pi_request = None, pi_responses = [(200, Some ''MeResponse''), envelope 401]\<rparr>"

definition path_list_conversations :: path_item where
  "path_list_conversations = \<lparr>pi_method = GET, pi_path = ''/conversations'', pi_tag = ''conversations'',
     pi_security = [''bearerAuth''], pi_request = None,
     pi_responses = [(200, Some ''Vec<ConversationResponse>''), envelope 401]\<rparr>"

definition path_create_conversation :: path_item where
  "path_create_conversation = \<lparr>pi_method = POST, pi_path = ''/conversations'', pi_tag = ''conversations'',
     pi_security = [''bearerAuth''], pi_request = Some ''CreateConversationRequest'',
     pi_responses = [(201, Some ''ConversationResponse''), envelope 400, envelope 401]\<rparr>"

definition path_update_conversation :: path_item where
  "path_update_conversation = \<lparr>pi_method = PUT, pi_path = ''/conversations/{id}'', pi_tag = ''conversations'',
     pi_security = [''bearerAuth''], pi_request = Some ''UpdateConversationRequest'',
     pi_responses = [(200, Some ''ConversationResponse''), envelope 400, envelope 401, envelope 404]\<rparr>"

definition path_delete_conversation :: path_item where
  "path_delete_conversation = \<lparr>pi_method = DELETE, pi_path = ''/conversations/{id}'', pi_tag = ''conversations'',
     pi_security = [''bearerAuth''], pi_request = None,
     pi_responses = [(204, None), envelope 401, envelope 404]\<rparr>"

definition path_list_messages :: path_item where
  "path_list_messages = \<lparr>pi_method = GET, pi_path = ''/messages'', pi_tag = ''messages'',
     pi_security = [''bearerAuth''], pi_request = None,
     pi_responses = [(200, Some ''Vec<MessageResponse>''), envelope 401, envelope 404]\<rparr>"

definition path_create_message :: path_item where
  "path_create_message = \<lparr>pi_method = POST, pi_path = ''/messages'', pi_tag = ''messages'',
     pi_security = [''bearerAuth''], pi_request = Some ''CreateMessageRequest'',
     pi_responses = [(201, Some ''MessageResponse''), envelope 400, envelope 401, envelope 404]\<rparr>"

definition path_delete_message :: path_item where
  "path_delete_message = \<lparr>pi_method = DELETE, pi_path = ''/messages/{id}'', pi_tag = ''messages'',
     pi_security = [''bearerAuth''], pi_request = None,
     pi_responses = [(204, None), envelope 401, envelope 404]\<rparr>"

definition path_list_keys :: path_item where
  "path_list_keys = \<lparr>pi_method = GET, pi_path = ''/keys'', pi_tag = ''keys'',
     pi_security = [''bearerAuth''], pi_request = None,
     pi_responses = [(200, Some ''Vec<KeyResponse>''), envelope 401]\<rparr>"

definition path_create_key :: path_item where
  "path_create_key = \<lparr>pi_method = POST, pi_path = ''/keys'', pi_tag = ''keys'',
     pi_security = [''bearerAuth''], pi_request = Some ''CreateKeyRequest'',
     pi_responses = [(201, Some ''KeyResponse''), envelope 400, envelope 401, envelope 409]\<rparr>"

definition path_chat_stream :: path_item where
  "path_chat_stream = \<lparr>pi_method = GET, pi_path = ''/chat/stream'', pi_tag = ''chat'',
     pi_security = [], pi_request = None, pi_responses = [(101, None), envelope 401]\<rparr>"

definition path_health :: path_item where
  "path_health = \<lparr>pi_method = GET, pi_path = ''/health'', pi_tag = ''system'',
     pi_security = [], pi_request = None,
     pi_responses = [(200, Some ''HealthResponse''), (503, Some ''HealthResponse'')]\<rparr>"

definition path_metrics :: path_item where
  "path_metrics = \<lparr>pi_method = GET, pi_path = ''/metrics'', pi_tag = ''system'',
     pi_security = [''bearerAuth''], pi_request = None, pi_responses = [(200, None), envelope 401]\<rparr>"

subsection \<open>The document\<close>

record openapi =
  oa_title :: string
  oa_paths :: "(operation \<times> path_item) list"
  oa_schemas :: "string list"
  oa_security_schemes :: "(string \<times> string) list"
  oa_tags :: "string list"

text \<open>\<^verbatim>\<open>SecurityAddon\<close>: the scheme is kept as its kind and format.\<close>

definition modify :: "openapi \<Rightarrow> openapi" where
  "modify d = d\<lparr>oa_security_schemes := AList.update ''bearerAuth'' ''http bearer JWT'' (oa_security_schemes d)\<rparr>"

definition ApiDoc :: openapi where
  "ApiDoc = modify \<lparr>oa_title = ''Encryptr Server API'',
     oa_paths =
       [(Op_register, path_register), (Op_login, path_login), (Op_refresh, path_refresh),
        (Op_logout, path_logout), (Op_me, path_me),
        (Op_list_conversations, path_list_conversations), (Op_create_conversation, path_create_conversation),
        (Op_update_conversation, path_update_conversation), (Op_delete_conversation, path_delete_conversation),
        (Op_list_messages, path_list_messages), (Op_create_message, path_create_message),
        (Op_delete_message, path_delete_message),
        (Op_list_keys, path_list_keys), (Op_create_key, path_create_key),
        (Op_chat_stream, path_chat_stream), (Op_health, path_health), (Op_metrics, path_metrics)],
     oa_schemas = [''ApiError'', ''ApiErrorDetail''],
     oa_security_schemes = [],
     oa_tags = [''auth'', ''conversations'', ''messages'', ''keys'', ''chat'', ''system'']\<rparr>"

subsection \<open>The route table\<close>

definition auth_routes :: "(string \<times> (http_method \<times> operation) list) list" where
  "auth_routes =
     [(''/register'', [(POST, Op_register)]), (''/login'', [(POST, Op_login)]), (''/refresh'', [(POST, Op_refresh)])]"

definition timed_routes :: "(string \<times> (http_method \<times> operation) list) list" where
  "timed_routes = auth_routes @
     [(''/logout'', [(POST, Op_logout)]),
      (''/me'', [(GET, Op_me)]),
      (''/conversations'', [(GET, Op_list_conversations), (POST, Op_create_conversation)]),
      (''/conversations/{id}'', [(PUT, Op_update_conversation), (DELETE, Op_delete_conversation)]),
      (''/messages'', [(GET, Op_list_messages), (POST, Op_create_message)]),
      (''/messages/{id}'', [(DELETE, Op_delete_message)]),
      (''/keys'', [(GET, Op_list_keys), (POST, Op_create_key)]),
      (''/health'', [(GET, Op_health)]),
      (''/metrics'', [(GET, Op_metrics)]),
      (''/openapi.json'', [(GET, Op_openapi_json)]),
      (''/docs'', [(GET, Op_docs_ui)])]"

definition stream_routes :: "(string \<times> (http_method \<times> operation) list) list" where
  "stream_routes = [(''/chat/stream'', [(GET, Op_chat_stream)])]"

definition ops_of :: "(string \<times> (http_method \<times> operation) list) list \<Rightarrow> operation list" where
  "ops_of table = map snd (concat (map snd table))"

definition mounted :: "(string \<times> http_method \<times> operation) list" where
  "mounted = concat (map (\<lambda>(path, ms). map (Pair path) ms) (timed_routes @ stream_routes))"

text \<open>The handler an endpoint of theory \<^verbatim>\<open>Http_Api\<close> stands for, and the status of an extractor's rejection.\<close>

fun operation_of :: "endpoint \<Rightarrow> operation option" where
  "operation_of (Register _) = Some Op_register"
| "operation_of (Login _) = Some Op_login"
| "operation_of (Refresh _) = Some Op_refresh"
| "operation_of Logout = Some Op_logout"
| "operation_of Me = Some Op_me"
| "operation_of Get_conversations = Some Op_list_conversations"
| "operation_of (Post_conversation _) = Some Op_create_conversation"
| "operation_of (Put_conversation _) = Some Op_update_conversation"
| "operation_of (Delete_conversation_at _) = Some Op_delete_conversation"
| "operation_of (Get_messages _) = Some Op_list_messages"
| "operation_of (Post_message _) = Some Op_create_message"
| "operation_of (Delete_message_at _) = Some Op_delete_message"
| "operation_of Get_keys = Some Op_list_keys"
| "operation_of (Post_key _) = Some Op_create_key"
| "operation_of Get_health = Some Op_health"
| "operation_of Get_metrics = Some Op_metrics"
| "operation_of (Get_stream _) = Some Op_chat_stream"
| "operation_of Get_openapi_json = Some Op_openapi_json"
| "operation_of Get_docs = Some Op_docs_ui"
| "operation_of (Unrouted _) = None"

definition rejected :: "'a extracted \<Rightarrow> nat set" where
  "rejected x = (case x of Inl status \<Rightarrow> {status} | Inr _ \<Rightarrow> {})"

fun rejection :: "endpoint \<Rightarrow> nat set" where
  "rejection (Register x) = rejected x"
| "rejection (Login x) = rejected x"
| "rejection (Refresh x) = rejected x"
| "rejection (Post_conversation x) = rejected x"
| "rejection (Put_conversation x) = rejected x"
| "rejection (Delete_conversation_at x) = rejected x"
| "rejection (Get_messages x) = rejected x"
| "rejection (Post_message x) = rejected x"
| "rejection (Delete_message_at x) = rejected x"
| "rejection (Post_key x) = rejected x"
| "rejection (Get_stream x) = rejected x"
| "rejection _ = {}"

subsection \<open>Writing the document\<close>

text \<open>
  \<^verbatim>\<open>gen_openapi\<close>: the state is the files with their contents; a file operation may fail, and a
  failed write may leave something else in the file.
\<close>

record file_api =
  create_dir_all :: "string \<Rightarrow> string + unit"
  write_file :: "string \<Rightarrow> string \<Rightarrow> (string \<times> string option) + unit"

definition write_to :: "file_api \<Rightarrow> string \<Rightarrow> string \<Rightarrow> ((string \<times> string) list, string, unit) action" where
  "write_to fs path contents files = (case write_file fs path contents of
       Inl (e, left) \<Rightarrow> (Inl e, case left of None \<Rightarrow> files | Some x \<Rightarrow> AList.update path x files)
     | Inr _ \<Rightarrow> (Inr (), AList.update path contents files))"

definition gen_openapi :: "file_api \<Rightarrow> string \<Rightarrow> string \<Rightarrow> string \<Rightarrow> ((string \<times> string) list, string, unit) action" where
  "gen_openapi fs manifest_dir yaml json =
     (let docs = manifest_dir @ ''/docs'' in
     bindE (liftE (create_dir_all fs docs)) (\<lambda>_.
     bindE (write_to fs (docs @ ''/openapi.yaml'') yaml) (\<lambda>_.
     write_to fs (docs @ ''/openapi.json'') (json @ [CHR 0x0A]))))"

section \<open>Lemmas\<close>

subsection \<open>How services fail\<close>

definition raises :: "nat set \<Rightarrow> 'a service \<Rightarrow> bool" where
  "raises S m \<longleftrightarrow> (\<forall>s e. fst (m s) = Inl e \<longrightarrow> fst (status_and_code e) \<in> S)"

definition answers :: "nat set \<Rightarrow> response service \<Rightarrow> bool" where
  "answers S m \<longleftrightarrow> (\<forall>s. rs_status (response_of (fst (m s))) \<in> S)"

definition refuses :: "nat set \<Rightarrow> app_error + 'a \<Rightarrow> bool" where
  "refuses S r \<longleftrightarrow> (\<forall>e. r = Inl e \<longrightarrow> fst (status_and_code e) \<in> S)"

lemma error_response_status: "rs_status (error_response e) = fst (status_and_code e)"
  by (simp add: error_response_def into_response_def reply_def split: prod.split)

lemma raises_ok: "raises S (okE x)"
  by (simp add: raises_def)

lemma raises_fail: "fst (status_and_code e) \<in> S \<Longrightarrow> raises S (failE e)"
  by (simp add: raises_def)

lemma raises_lift: "refuses S r \<Longrightarrow> raises S (liftE r)"
  by (simp add: raises_def refuses_def liftE_def)

lemma raises_bind: "raises S m \<Longrightarrow> (\<And>x. raises S (f x)) \<Longrightarrow> raises S (bindE m f)"
  unfolding raises_def bindE_def by (auto split: prod.splits sum.splits) (metis fst_conv)+

lemma raises_if: "raises S m \<Longrightarrow> raises S n \<Longrightarrow> raises S (if b then m else n)"
  by simp

lemma raises_option: "raises S m \<Longrightarrow> (\<And>x. raises S (f x)) \<Longrightarrow> raises S (case o' of None \<Rightarrow> m | Some x \<Rightarrow> f x)"
  by (cases o') simp_all

lemma raises_db: "500 \<in> S \<Longrightarrow> raises S (db m)"
  by (auto simp: raises_def db_def map_errE_def split: prod.splits sum.splits)

lemma raises_supplies: "raises S (draw app)" "raises S new_v4" "raises S utc_now" "raises S (audit_record a b c d)"
  by (simp_all add: raises_def draw_def new_v4_def utc_now_def audit_record_def)

lemma refuses_intros:
  "fst (status_and_code e) \<in> S \<Longrightarrow> refuses S (ok_or e m)"
  "(\<And>e. fst (status_and_code (g e)) \<in> S) \<Longrightarrow> refuses S (map_err g r0)"
  "refuses S (Inr x)"
  "fst (status_and_code e) \<in> S \<Longrightarrow> refuses S (Inl e)"
  "(\<And>x. refuses S (f x)) \<Longrightarrow> refuses S (transposeR f m)"
  "refuses S r \<Longrightarrow> (\<And>x. refuses S (h x)) \<Longrightarrow> refuses S (bindR r h)"
  "refuses S a \<Longrightarrow> refuses S b \<Longrightarrow> refuses S (if q then a else b)"
  "refuses S a \<Longrightarrow> (\<And>x. refuses S (h x)) \<Longrightarrow> refuses S (case m of None \<Rightarrow> a | Some x \<Rightarrow> h x)"
  by (auto simp: refuses_def ok_or_def map_err_def transposeR_def bindR_def split: option.splits sum.splits)

lemma refuses_validators:
  assumes "400 \<in> S"
  shows "refuses S (validate_email x)" "refuses S (validate_password x)" "refuses S (validate_title x)"
    "refuses S (validate_label x)" "refuses S (validate_model x)" "refuses S (validate_algorithm x)"
    "refuses S (message_role x)" "refuses S (base64_field dec x field n)"
  using assms
  by (auto simp: refuses_def validate_email_def validate_password_def validate_title_def validate_label_def
      validate_model_def validate_algorithm_def message_role_def base64_field_def Let_def bindR_def ok_or_def
      split: if_splits option.splits sum.splits)

lemma refuses_expiry: "500 \<in> S \<Longrightarrow> refuses S (expiry t n)"
  by (auto simp: refuses_def expiry_def split: if_splits)

lemma raises_keys_insert: "500 \<in> S \<Longrightarrow> 409 \<in> S \<Longrightarrow> raises S (map_errE (key_insert_error l) m)"
  by (auto simp: raises_def map_errE_def key_insert_error_def split: prod.splits sum.splits sqlx_error.splits)

lemmas raise_intros = raises_bind raises_ok raises_fail raises_lift raises_if raises_option raises_db raises_supplies
  refuses_intros refuses_validators refuses_expiry raises_keys_insert

lemma raises_authenticate: "{401, 500} \<subseteq> S \<Longrightarrow> raises S (authenticate app token)"
  unfolding authenticate_def by (intro raise_intros) auto

lemma raises_from_request_parts: "{401, 500} \<subseteq> S \<Longrightarrow> raises S (from_request_parts app to_str hs)"
  unfolding from_request_parts_def by (intro raise_intros raises_authenticate) auto

lemma raises_issue_tokens: "500 \<in> S \<Longrightarrow> raises S (issue_tokens app u i)"
  unfolding issue_tokens_def Let_def by (intro raise_intros) auto

lemma raises_register: "{400, 409, 500} \<subseteq> S \<Longrightarrow> raises S (register app r meta)"
  unfolding register_def by (intro raise_intros) auto

lemma raises_login: "{400, 401, 500} \<subseteq> S \<Longrightarrow> raises S (login app e p meta)"
  unfolding login_def Let_def case_prod_beta by (intro raise_intros raises_issue_tokens) auto

lemma raises_refresh: "{401, 500} \<subseteq> S \<Longrightarrow> raises S (refresh app tok meta)"
  unfolding refresh_def Let_def token_stale_def token_reused_def
  by (intro raise_intros raises_issue_tokens) auto

lemma raises_logout: "500 \<in> S \<Longrightarrow> raises S (logout u i meta)"
  unfolding logout_def by (intro raise_intros) auto

lemma raises_assert_owned: "{404, 500} \<subseteq> S \<Longrightarrow> raises S (assert_owned u i)"
  unfolding assert_owned_def by (intro raise_intros) auto

lemma raises_conversations:
  "{400, 500} \<subseteq> S \<Longrightarrow> raises S (conversations_create u r)"
  "500 \<in> S \<Longrightarrow> raises S (conversations_list u)"
  "{400, 404, 500} \<subseteq> S \<Longrightarrow> raises S (conversations_change u i r)"
  "{404, 500} \<subseteq> S \<Longrightarrow> raises S (conversations_delete u i)"
  unfolding conversations_create_def conversations_list_def conversations_change_def conversations_delete_def
  by (intro raise_intros; auto)+

lemma raises_messages:
  "{400, 404, 500} \<subseteq> S \<Longrightarrow> raises S (messages_create lib u mr)"
  "{404, 500} \<subseteq> S \<Longrightarrow> raises S (messages_list u q)"
  "{404, 500} \<subseteq> S \<Longrightarrow> raises S (messages_delete u i)"
  unfolding messages_create_def messages_list_def messages_delete_def checked_message_def check_key_id_def case_prod_beta
  by (intro raise_intros raises_assert_owned; auto)+

lemma raises_keys:
  "{400, 409, 500} \<subseteq> S \<Longrightarrow> raises S (keys_upload lib u kr)"
  "500 \<in> S \<Longrightarrow> raises S (keys_list u)"
  unfolding keys_upload_def keys_list_def by (intro raise_intros; auto)+

subsection \<open>What the handlers answer\<close>

lemma answers_ok: "rs_status r \<in> S \<Longrightarrow> answers S (okE r)"
  by (simp add: answers_def response_of_def)

lemma answers_bind:
  assumes "raises S m" and "\<And>x. answers S (f x)"
  shows "answers S (bindE m f)"
  unfolding answers_def
proof
  fix s
  show "rs_status (response_of (fst (bindE m f s))) \<in> S"
  proof (cases "m s")
    case (Pair r t)
    show ?thesis
    proof (cases r)
      case (Inl e)
      then have "fst (m s) = Inl e" using Pair by simp
      then have "fst (status_and_code e) \<in> S" using assms(1) unfolding raises_def by blast
      then show ?thesis using Inl Pair by (simp add: bindE_def response_of_def error_response_status)
    next
      case (Inr x)
      then show ?thesis using Pair assms(2) [of x] by (simp add: bindE_def answers_def)
    qed
  qed
qed

lemma answers_extracted: "rejected x \<subseteq> S \<Longrightarrow> (\<And>a. answers S (f a)) \<Longrightarrow> answers S (with_extracted x f)"
  by (cases x) (simp_all add: with_extracted_def rejected_def answers_ok reply_def)

lemma answers_signed_in: "{401, 500} \<subseteq> S \<Longrightarrow> (\<And>u. answers S (f u)) \<Longrightarrow> answers S (signed_in site rq f)"
  unfolding signed_in_def by (intro answers_bind raises_from_request_parts)

lemma answers_pair: "(\<And>x y. answers S (f x y)) \<Longrightarrow> answers S (case p of (x, y) \<Rightarrow> f x y)"
  by (cases p) simp

lemma answers_health: "{200, 503} \<subseteq> S \<Longrightarrow> answers S api_health"
  by (auto simp: answers_def api_health_def response_of_def reply_def Let_def case_prod_beta)

definition documented :: "endpoint \<Rightarrow> nat set" where
  "documented ep = (case Option.bind (operation_of ep) (map_of (oa_paths ApiDoc)) of
       Some item \<Rightarrow> fst ` set (pi_responses item)
     | None \<Rightarrow> {})"

lemmas path_defs = path_register_def path_login_def path_refresh_def path_logout_def path_me_def
  path_list_conversations_def path_create_conversation_def path_update_conversation_def path_delete_conversation_def
  path_list_messages_def path_create_message_def path_delete_message_def path_list_keys_def path_create_key_def
  path_chat_stream_def path_health_def path_metrics_def envelope_def

lemma oa_paths_ApiDoc:
  "oa_paths ApiDoc =
     [(Op_register, path_register), (Op_login, path_login), (Op_refresh, path_refresh),
      (Op_logout, path_logout), (Op_me, path_me),
      (Op_list_conversations, path_list_conversations), (Op_create_conversation, path_create_conversation),
      (Op_update_conversation, path_update_conversation), (Op_delete_conversation, path_delete_conversation),
      (Op_list_messages, path_list_messages), (Op_create_message, path_create_message),
      (Op_delete_message, path_delete_message),
      (Op_list_keys, path_list_keys), (Op_create_key, path_create_key),
      (Op_chat_stream, path_chat_stream), (Op_health, path_health), (Op_metrics, path_metrics)]"
  by (simp add: ApiDoc_def modify_def)

lemma oa_security_ApiDoc: "oa_security_schemes ApiDoc = [(''bearerAuth'', ''http bearer JWT'')]"
  by (simp add: ApiDoc_def modify_def)

lemma documented_statuses:
  "documented (Register rx) = {201, 400, 409, 429}"
  "documented (Login lx) = {200, 400, 401, 429}"
  "documented (Refresh fx) = {200, 401, 429}"
  "documented Logout = {204, 401}"
  "documented Me = {200, 401}"
  "documented Get_conversations = {200, 401}"
  "documented (Post_conversation cx) = {201, 400, 401}"
  "documented (Put_conversation ux) = {200, 400, 401, 404}"
  "documented (Delete_conversation_at dx) = {204, 401, 404}"
  "documented (Get_messages mx) = {200, 401, 404}"
  "documented (Post_message px) = {201, 400, 401, 404}"
  "documented (Delete_message_at dx) = {204, 401, 404}"
  "documented Get_keys = {200, 401}"
  "documented (Post_key kx) = {201, 400, 401, 409}"
  "documented Get_health = {200, 503}"
  "documented Get_metrics = {200, 401}"
  "documented (Get_stream sx) = {101, 401}"
  "documented Get_openapi_json = {}" "documented Get_docs = {}" "documented (Unrouted n) = {}"
  by (simp_all add: documented_def oa_paths_ApiDoc path_defs insert_commute)

lemma answers_handler:
  assumes "documented ep \<noteq> {}"
  shows "answers (documented ep \<union> {500} \<union> rejection ep) (handler site rq m ep)"
  using assms
  by (cases ep)
    (simp_all only: documented_statuses handler_defs rejection.simps,
     (intro answers_signed_in answers_extracted answers_pair answers_bind answers_ok answers_health
        raises_register raises_login raises_refresh raises_logout raises_conversations raises_messages raises_keys
        raises_authenticate raises_db raises_lift refuses_intros; auto simp: reply_def)+)

lemma documented_routes:
  "set (map (\<lambda>(op, item). (pi_path item, pi_method item, op)) (oa_paths ApiDoc)) =
     set mounted - {(''/openapi.json'', GET, Op_openapi_json), (''/docs'', GET, Op_docs_ui)}"
  "distinct (map (\<lambda>(path, method, op). (path, method)) mounted)"
  by code_simp+

lemma documented_item:
  "map_of (oa_paths ApiDoc) op = Some item \<Longrightarrow> item = (case op of
       Op_register \<Rightarrow> path_register | Op_login \<Rightarrow> path_login | Op_refresh \<Rightarrow> path_refresh
     | Op_logout \<Rightarrow> path_logout | Op_me \<Rightarrow> path_me
     | Op_list_conversations \<Rightarrow> path_list_conversations | Op_create_conversation \<Rightarrow> path_create_conversation
     | Op_update_conversation \<Rightarrow> path_update_conversation | Op_delete_conversation \<Rightarrow> path_delete_conversation
     | Op_list_messages \<Rightarrow> path_list_messages | Op_create_message \<Rightarrow> path_create_message
     | Op_delete_message \<Rightarrow> path_delete_message | Op_list_keys \<Rightarrow> path_list_keys
     | Op_create_key \<Rightarrow> path_create_key | Op_chat_stream \<Rightarrow> path_chat_stream
     | Op_health \<Rightarrow> path_health | Op_metrics \<Rightarrow> path_metrics) \<and> op \<notin> {Op_openapi_json, Op_docs_ui}"
  unfolding oa_paths_ApiDoc by (cases op) simp_all

lemma documented_security:
  assumes "operation_of ep = Some op" and "map_of (oa_paths ApiDoc) op = Some item"
  shows "pi_security item = [''bearerAuth''] \<Longrightarrow>
      access_check site rq ep = Some (from_request_parts (st_app site) (st_to_str site) (rq_headers rq))"
    and "pi_security item \<noteq> [''bearerAuth''] \<Longrightarrow> pi_security item = [] \<and>
      (\<forall>auth. access_check site rq ep = Some auth \<longrightarrow> (\<exists>token. ep = Get_stream (Inr token)))"
    and "set (pi_security item) \<subseteq> fst ` set (oa_security_schemes ApiDoc)"
  using assms(1) documented_item [OF assms(2)]
  by (cases ep; auto simp: path_defs oa_security_ApiDoc split: sum.splits)+

lemma routed_layers:
  "operation_of ep = Some op \<Longrightarrow> op \<in> set (ops_of auth_routes) \<longleftrightarrow> is_credential ep"
  "operation_of ep = Some op \<Longrightarrow> op \<in> set (ops_of timed_routes) \<longleftrightarrow> is_timed ep"
  by (cases ep; auto simp: ops_of_def auth_routes_def timed_routes_def)+

lemma documented_response:
  assumes "operation_of (rq_endpoint rq) = Some op" and "map_of (oa_paths ApiDoc) op = Some item"
  shows "rs_status (fst (serve site rq sv)) \<in>
    fst ` set (pi_responses item) \<union> {408, 429, 500} \<union> rejection (rq_endpoint rq)"
proof (cases rule: global_rate_limit_cases [of site rq sv])
  case limited
  then show ?thesis by (simp add: serve_eq limited_status)
next
  case handled
  have doc: "documented (rq_endpoint rq) = fst ` set (pi_responses item)" using assms by (simp add: documented_def)
  moreover have "documented (rq_endpoint rq) \<noteq> {}"
    using assms by (cases "rq_endpoint rq") (simp_all add: documented_statuses oa_paths_ApiDoc)
  ultimately have "rs_status (response_of (fst (handler site rq (sv_metrics sv) (rq_endpoint rq) (sv_store sv)))) \<in>
      fst ` set (pi_responses item) \<union> {500} \<union> rejection (rq_endpoint rq)"
    using answers_handler [of "rq_endpoint rq" site rq "sv_metrics sv"] by (simp add: answers_def)
  then show ?thesis
    using handled
    by (cases rule: handled_cases [of site rq "sv_metrics sv" "sv_store sv"]) (auto simp: serve_eq reply_def)
qed

text \<open>What the generator leaves on disk when it succeeds.\<close>

lemma write_to_ok: "write_to fs path x files = (Inr (), files') \<Longrightarrow> files' = AList.update path x files"
  by (auto simp: write_to_def split: sum.splits prod.splits)

lemma gen_openapi_files:
  assumes "gen_openapi fs dir yaml json files = (Inr (), files')"
  shows "map_of files' (dir @ ''/docs/openapi.yaml'') = Some yaml"
    and "map_of files' (dir @ ''/docs/openapi.json'') = Some (json @ [CHR 0x0A])"
  using assms
  by (auto simp: gen_openapi_def Let_def bindE_eq_Inr liftE_def update_conv' dest!: write_to_ok)

text \<open>
  The documentation page loads a script, and is served with the policy that forbids all scripts: a
  browser shows an empty page.
\<close>

lemma docs_page_blocked:
  assumes "rq_endpoint rq = Get_docs" and "rs_status (fst (serve site rq sv)) = 200"
  shows "rs_body (fst (serve site rq sv)) = Html REDOC_HTML" and "contains_str ''<script src='' REDOC_HTML"
    and "values_of ''content-security-policy'' (rs_headers (fst (serve site rq sv))) =
      [concat [''default-src '', quoted ''none'', ''; frame-ancestors '', quoted ''none'']]"
proof -
  show "rs_body (fst (serve site rq sv)) = Html REDOC_HTML"
  proof (cases rule: global_rate_limit_cases [of site rq sv])
    case limited
    then show ?thesis using assms(2) by (simp add: serve_eq limited_status)
  next
    case handled
    then show ?thesis
      using assms
      by (cases rule: handled_cases [of site rq "sv_metrics sv" "sv_store sv"])
        (auto simp: serve_eq docs_ui_def response_of_def reply_def)
  qed
  show "contains_str ''<script src='' REDOC_HTML" by code_simp
qed (simp add: serve_eq security_headers_def HARDENING_def HSTS_def quoted_def)

section \<open>Properties\<close>

text \<open>
  C38. The document agrees with the server. The mounted routes are documented, all but the two that
  serve the documentation, each under its path and method and once, and the route table puts
  behind the credential limiter and the timeout exactly the endpoints that the model of the server
  puts there. An operation that the document marks with the bearer scheme, which it registers,
  refuses every request whose \<^verbatim>\<open>Authorization\<close> header does not authenticate, and changes nothing; an
  operation without the mark never looks at that header (the stream takes its token from the
  query). And every response of a documented operation has one of its documented statuses, but for
  408 (timeout), 429 (the limiter in front of every route), 500 (database and internal errors) and
  the rejection of a malformed input by an extractor.
\<close>

theorem api_doc_faithful:
  "set (map (\<lambda>(op, item). (pi_path item, pi_method item, op)) (oa_paths ApiDoc)) =
     set mounted - {(''/openapi.json'', GET, Op_openapi_json), (''/docs'', GET, Op_docs_ui)} \<and>
   distinct (map (\<lambda>(path, method, op). (path, method)) mounted) \<and>
   (\<forall>op item. operation_of (rq_endpoint rq) = Some op \<and> map_of (oa_paths ApiDoc) op = Some item \<longrightarrow>
      (op \<in> set (ops_of auth_routes) \<longleftrightarrow> is_credential (rq_endpoint rq)) \<and>
      (op \<in> set (ops_of timed_routes) \<longleftrightarrow> is_timed (rq_endpoint rq)) \<and>
      (if pi_security item = [''bearerAuth'']
       then \<not> is_ok (fst (from_request_parts (st_app site) (st_to_str site) (rq_headers rq) (sv_store sv))) \<longrightarrow>
         rs_status (fst (serve site rq sv)) \<in> {401, 408, 429, 500} \<and>
         quiet_step (sv_store sv) (sv_store (snd (serve site rq sv)))
       else pi_security item = [] \<and> serve site (without_authorization rq) sv = serve site rq sv) \<and>
      set (pi_security item) \<subseteq> fst ` set (oa_security_schemes ApiDoc) \<and>
      rs_status (fst (serve site rq sv)) \<in>
        fst ` set (pi_responses item) \<union> {408, 429, 500} \<union> rejection (rq_endpoint rq))"
proof (intro conjI allI impI documented_routes; elim conjE)
  fix op item
  assume doc: "operation_of (rq_endpoint rq) = Some op" "map_of (oa_paths ApiDoc) op = Some item"
  show "if pi_security item = [''bearerAuth'']
       then \<not> is_ok (fst (from_request_parts (st_app site) (st_to_str site) (rq_headers rq) (sv_store sv))) \<longrightarrow>
         rs_status (fst (serve site rq sv)) \<in> {401, 408, 429, 500} \<and>
         quiet_step (sv_store sv) (sv_store (snd (serve site rq sv)))
       else pi_security item = [] \<and> serve site (without_authorization rq) sv = serve site rq sv"
    using refused_without_access [OF documented_security(1) [OF doc], of site sv]
      documented_security(2) [OF doc, of site rq] serve_without_authorization [of site rq sv] by simp
qed (use routed_layers documented_security(3) documented_response in blast)+

text \<open>A message posted with a malformed body.\<close>

theorem api_doc_faithful_witness:
  "rs_status (fst (serve demo_site (demo_request (Post_message (Inl 422)) [] 7) demo_state)) \<in>
     {201, 400, 401, 404} \<union> {408, 429, 500} \<union> {422}"
proof -
  let ?rq = "demo_request (Post_message (Inl 422)) [] 7"
  have "operation_of (rq_endpoint ?rq) = Some Op_create_message"
    "map_of (oa_paths ApiDoc) Op_create_message = Some path_create_message"
    by (simp_all add: demo_request_def oa_paths_ApiDoc)
  with api_doc_faithful [of ?rq demo_site demo_state]
  have "rs_status (fst (serve demo_site ?rq demo_state)) \<in>
      fst ` set (pi_responses path_create_message) \<union> {408, 429, 500} \<union> rejection (rq_endpoint ?rq)" by blast
  then show ?thesis by (simp add: path_defs demo_request_def rejected_def)
qed

end
