(* ===== verification/Spec2Isabelle.thy ===== *)
theory Spec2Isabelle
  imports Curve25519 Validate Http_Api Chat_Stream Refresh_Race Startup Source_Tests
begin

text \<open>
  Verification library of the Encryptr server (a Rust backend for encrypted conversations with
  AI providers; paths below are relative to \<^verbatim>\<open>src/src/\<close> unless they start with \<^verbatim>\<open>migrations\<close>).

  \<^bold>\<open>The program.\<close> Clients register and log in over HTTP, get a short-lived access token and an
  opaque refresh token that is rotated at each use, store conversations whose messages are
  ciphertext made by the client, upload public keys, and chat with an AI provider over a
  WebSocket on which a fresh X25519 handshake gives each direction its own key. Requests pass the
  middleware (metrics, hardening headers, rate limiting, authentication), then a handler, then a
  service, then the repositories and PostgreSQL. The WebSocket handler decrypts a prompt in
  memory, asks the configured provider and relays its answer as encrypted chunks.

  \<^bold>\<open>Correspondence.\<close> One theory per component; definitions have the names of the source, with a
  prefix where two files use the same name (\<open>users_insert\<close>, \<open>keys_insert\<close>, \<open>api_login\<close>).

    \<^item> \<^verbatim>\<open>Prelude\<close>: results (\<open>bindR\<close>, and \<open>bindE\<close> for fallible code that changes a state), Rust's
      integer operations, and the locale \<open>state_order\<close> of relations kept by every such action.
    \<^item> \<^verbatim>\<open>Rust_Text\<close>: the operations of \<^verbatim>\<open>str\<close> and \<^verbatim>\<open>char\<close> the code calls, on UTF-8 bytes.
    \<^item> \<^verbatim>\<open>App_Error\<close>: \<^verbatim>\<open>error.rs\<close>. \<^verbatim>\<open>Validate\<close>: \<^verbatim>\<open>domain/validate.rs\<close>; a validator that
      normalises is an instance of the locale \<open>normaliser\<close>.
    \<^item> \<^verbatim>\<open>Config\<close>: \<^verbatim>\<open>config.rs\<close>. \<^verbatim>\<open>Metrics\<close>: \<^verbatim>\<open>middleware/metrics.rs\<close>.
      \<^verbatim>\<open>Rate_Limit\<close>: \<^verbatim>\<open>middleware/rate_limit.rs\<close>.
    \<^item> \<^verbatim>\<open>Crypto_Keys\<close>: \<^verbatim>\<open>crypto/keys.rs\<close>. \<^verbatim>\<open>Curve25519\<close> relates its blocklist to the doubling
      formula of the curve, over \<^verbatim>\<open>Field25519\<close>, \<^verbatim>\<open>Prime25519\<close> and \<^verbatim>\<open>Primality\<close>, which prove that
      \<open>2 ^ 255 - 19\<close> is prime and that 2 is no square modulo it. \<^verbatim>\<open>Crypto_Tokens\<close>:
      \<^verbatim>\<open>crypto/{tokens,password,jwt}.rs\<close>.
    \<^item> \<^verbatim>\<open>Channel\<close>: the contract of a sequenced channel. \<^verbatim>\<open>Stream_Session\<close>: \<^verbatim>\<open>crypto/aead.rs\<close> and
      \<^verbatim>\<open>crypto/stream_session.rs\<close>, whose two directions are instances of it.
    \<^item> \<^verbatim>\<open>Sse\<close>, \<^verbatim>\<open>Providers\<close>: \<^verbatim>\<open>providers/*.rs\<close>; each streaming task is an instance of the
      locale \<open>event_source\<close>.
    \<^item> \<^verbatim>\<open>Store\<close>: \<^verbatim>\<open>domain/models.rs\<close>, \<^verbatim>\<open>migrations/0001_init.sql\<close> and \<^verbatim>\<open>repositories/*.rs\<close>.
      The locale \<open>store_order\<close> says what is kept by every statement.
    \<^item> \<^verbatim>\<open>Auth_Service\<close>: \<^verbatim>\<open>services/{auth,audit}.rs\<close> and \<^verbatim>\<open>middleware/auth.rs\<close> (\<open>service_order\<close>
      lifts \<open>store_order\<close> to services). \<^verbatim>\<open>Refresh_Race\<close>: the rotation of a refresh token cut at its
      round trips to the database. \<^verbatim>\<open>Data_Services\<close>: \<^verbatim>\<open>services/{conversations,messages,keys}.rs\<close>
      with the types of \<^verbatim>\<open>domain/dto.rs\<close>.
    \<^item> \<^verbatim>\<open>Http_Api\<close>: \<^verbatim>\<open>state.rs\<close>, the handlers of \<^verbatim>\<open>api/*.rs\<close>, \<^verbatim>\<open>api/router.rs\<close> and
      \<^verbatim>\<open>middleware/security_headers.rs\<close>; \<open>serve\<close> is one request through the whole server and
      \<open>server_step\<close> adds the sweeping task of \<^verbatim>\<open>main.rs\<close> (\<open>api_order\<close> lifts \<open>service_order\<close>).
      \<open>timeout_layer\<close> may cut a handler off between any two of its statements.
    \<^item> \<^verbatim>\<open>Api_Doc\<close>: the annotations of the handlers, \<^verbatim>\<open>api/openapi.rs\<close>, the route table of
      \<^verbatim>\<open>api/router.rs\<close> and \<^verbatim>\<open>bin/gen_openapi.rs\<close>.
    \<^item> \<^verbatim>\<open>Chat_Stream\<close>: \<^verbatim>\<open>api/chat_stream.rs\<close>; the locales \<open>loop_order\<close>, \<open>answer_order\<close> and
      \<open>primitive_order\<close> carry relations from the primitives to a whole connection.
    \<^item> \<^verbatim>\<open>Startup\<close>: \<^verbatim>\<open>main.rs\<close> up to serving, and \<^verbatim>\<open>cors_layer\<close>.
    \<^item> \<^verbatim>\<open>Source_Tests\<close>: the unit tests of the source, evaluated on the definitions.
    \<^item> This theory: the properties that need the server and the race together.

  \<^bold>\<open>What is shown.\<close>

    \<^item> The encrypted stream: matching keys after the handshake, no nonce used twice, acceptance of
      a prefix of what was sent whatever an attacker replays, reorders, drops or injects, with
      forgeries leaving no trace, and through the handler: only prompts that were sent reach the
      provider, in order, once each, within the bounds; the chunks of an answer decrypt to the
      provider's text; the order of frames; the end of a connection on which the peer completes a
      frame and nothing stalls, by the expiry of the token or with the answer in progress; a revoked
      session is cut off before a prompt is decrypted or counted; the gauge is balanced.
    \<^item> Sessions: a refresh token is used once, over any run and under any interleaving of
      concurrent exchanges; reuse revokes; logging out is final; the lifetime of access tokens;
      registration followed by login; failed logins are alike; what a rotation that times out
      costs the client.
    \<^item> Data: isolation of users, ownership errors, validity of stored rows, round trips, complete
      pagination, and an invariant of the whole server over any run.
    \<^item> Limits: the budget per window, independence of clients up to a full map, credential attempts
      over a run.
    \<^item> Providers: one terminal event, independence of how the network cuts the body, truncation
      is an error.
    \<^item> The HTTP edge and start-up: refusal without a token, hardening headers, counted requests,
      errors that do not leak, accepted configurations, serving only after every dependency, and a
      document that agrees with the routes and with the statuses of the responses.
    \<^item> X25519 keys: accepted exactly when the point is not of order dividing 8.

  \<^bold>\<open>Bounds.\<close> All definitions are total; there is no bound on inputs. The peer of a connection, the
  body of a provider and the run of the server are finite lists of arbitrary length; that a peer
  stays silent after its list, that a provider never answers or stops within its answer, and that
  a write blocks are values of the model, on which a connection is left \<open>Waiting\<close>. The
  database's script of delays and faults is any list; beyond its end statements succeed. The only
  fuel is in two places: \<open>all_pages\<close>, where one page more than there are messages suffices,
  and the lemma \<open>refresh_steps_compose\<close>, by which six steps of a rotation that nobody interrupts are
  the whole service. Counters
  and configured numbers have their machine width; instants and durations are unbounded.

  \<^bold>\<open>Parameters.\<close> AES-GCM, X25519, HKDF, SHA-256, Argon2, HS256, base64, serde's JSON, Ed25519 point
  decoding, the HTTP client, and the process's surroundings are arguments, with what their
  documentation promises as predicates named \<open>..._lawful\<close>; each has an instance in a witness.
  The law for the AEAD is functional (what was sealed opens to the plaintext, and only what
  sealing can produce opens). That an attacker cannot forge is a hypothesis of its own on what is
  delivered (\<open>unforgeable\<close>, \<open>from_client\<close>): a frame is the sender's or does not open under the key.
  The law for HS256 is about tokens that were encoded with the configured key only, and the one
  for Argon2 about verifying the password that was hashed.

  \<^bold>\<open>Timeouts.\<close> A request that runs out of time is dropped at an await point. In the model this is the
  entry \<open>Abandoned\<close> of the database's script: the statements before it have taken effect, those
  after it have none, and the response is 408. Since the theorems on services, requests and runs
  hold for every script, they hold for requests that are cut off anywhere.

  \<^bold>\<open>Not modelled.\<close> Panics as such: the one that a configured value can provoke, the overflow of an expiry
  past the year 262142, is an internal error here (\<open>expiry\<close>), while the source drops the connection
  and counts nothing. The descriptions in the document, and the texts utoipa makes of it; the layers taken
  ready-made from tower-http other than the timeout (body limit, answers to CORS requests, request
  identifiers, tracing); signals and graceful shutdown; the set-up of logging; wiping of buffers,
  which no value of the model can observe; the table \<^verbatim>\<open>api_keys\<close>, which no code uses; the matching of
  paths and methods by axum, which hands the router's choice to \<open>serve\<close> as an endpoint. Requests are
  served one after another except in \<^verbatim>\<open>Refresh_Race\<close> and in \<^verbatim>\<open>Chat_Stream\<close>, where other tasks act
  on the shared state between the arrivals. What is left of the source beyond that is its tests,
  its imports and its module declarations.
\<close>

section \<open>Definitions\<close>

text \<open>The demonstration store with a fresh refresh token of its session.\<close>

definition demo_refresh_state :: server where
  "demo_refresh_state = demo_state\<lparr>sv_store := demo_store\<lparr>refresh_tokens :=
     [\<lparr>rt_id = 2, rt_session_id = 1, rt_user_id = 0, rt_token_hash = hash_token demo_tokens ''new'',
       rt_expires_at = 99000000, rt_created_at = 0, rt_rotated_at = None, rt_revoked_at = None\<rparr>]\<rparr>\<rparr>"

text \<open>The header with an access token of the session of the demonstration store.\<close>

definition demo_bearer :: "(string \<times> bytes) list" where
  "demo_bearer = [(''authorization'', as_bytes (''Bearer '' @
     (case jwt_issue demo_jwt (jwt_new [1, 2] 3) 10 7 0 1 of Inl e \<Rightarrow> [] | Inr tok \<Rightarrow> tok)))]"

section \<open>Lemmas\<close>

lemma run_commit_ok:
  assumes "run_commit m s = (Inr x, t)"
  obtains s1 n sc where "m s = (Inr x, s1)" and "t = s1\<lparr>now := n, script := sc\<rparr>"
proof -
  obtain s1 where m: "m s = (Inr x, s1)" and t: "t = snd (tick s1)"
    using assms by (auto simp: run_commit_def split: prod.splits sum.splits fault.splits)
  then show ?thesis using that tick_cases [of s1] by metis
qed

lemma revoke_session_success:
  assumes "revoke_session i s = (Inr (), t)" and "list_ex (\<lambda>x. s_id x = i) (sessions s)"
  shows "revoked i t"
proof -
  let ?body = "\<lambda>t. bindE (sql (\<lambda>s. (Inr (), s\<lparr>sessions :=
       update_rows (\<lambda>x. s_id x = i \<and> s_revoked_at x = None)
         (\<lambda>x. x\<lparr>s_revoked_at := Some t\<rparr>) (sessions s)\<rparr>))) (\<lambda>_.
     sql (\<lambda>s. (Inr (), s\<lparr>refresh_tokens :=
       update_rows (\<lambda>r. rt_session_id r = i \<and> rt_revoked_at r = None)
         (\<lambda>r. r\<lparr>rt_revoked_at := Some t\<rparr>) (refresh_tokens s)\<rparr>)))"
  obtain s0 where s0: "sql (okE ()) s = (Inr (), s0)" and commit: "run_commit (\<lambda>s0. ?body (now s0) s0) s0 = (Inr (), t)"
    using assms(1) by (auto simp: revoke_session_def transaction_def bindE_eq_Inr Let_def)
  obtain s1 n sc where body: "?body (now s0) s0 = (Inr (), s1)" and t: "t = s1\<lparr>now := n, script := sc\<rparr>"
    using commit by (rule run_commit_ok)
  have "sessions s0 = sessions s" using s0 by (rule sql_ok) auto
  with body t have "sessions t = update_rows (\<lambda>x. s_id x = i \<and> s_revoked_at x = None)
         (\<lambda>x. x\<lparr>s_revoked_at := Some (now s0)\<rparr>) (sessions s)"
    by (auto simp: bindE_eq_Inr elim!: sql_ok)
  then show ?thesis
    unfolding revoked_def by (auto intro!: update_rows_ex [OF assms(2)])
qed

lemma refresh_succeeds:
  assumes "db_ok s" and "script s = []" and "r \<in> set (refresh_tokens s)"
    and "rt_token_hash r = hash_token (token_lib app) tok" and "rt_rotated_at r = None" and "rt_revoked_at r = None"
    and "now s \<le> rt_expires_at r" and "\<not> revoked (rt_session_id r) s"
    and "jwt_issue (jwt_lib app) (app_jwt app) (seconds (now s)) (next_id s) (rt_user_id r) (rt_session_id r) = Inr access"
    and "expiry (now s) (refresh_token_ttl (app_config app)) = Inr e"
    and "hash_token (token_lib app) (generate_token (token_lib app) (rng app (draws s)))
           \<notin> rt_token_hash ` set (refresh_tokens s)"
  shows "\<exists>resp t. refresh app tok meta s = (Inr resp, t) \<and> access_token resp = access \<and> script t = []"
proof -
  let ?i = "rt_session_id r"
  let ?hit = "\<lambda>x. rt_id x = rt_id r \<and> rt_rotated_at x = None"
  let ?s = "s\<lparr>refresh_tokens := update_rows ?hit (\<lambda>x. x\<lparr>rt_rotated_at := Some (now s)\<rparr>) (refresh_tokens s)\<rparr>"
  have owned: "session_owned ?i (rt_user_id r) s" using token_session_owned assms(1,3) by blast
  then obtain x where x: "x \<in> set (sessions s)" "s_id x = ?i" by (auto simp: session_owned_def)
  then have "s_revoked_at x = None" using assms(8) by (auto simp: revoked_def list_ex_iff)
  then have active: "is_active ?i s = (Inr True, s)"
    using x assms(2) by (auto simp: is_active_def find_None_iff)
  have found: "find (\<lambda>x. rt_token_hash x = hash_token (token_lib app) tok) (refresh_tokens s) = Some r"
    using find_by_hash [OF assms(1,3)] assms(4) by simp
  have mark: "mark_rotated (rt_id r) s = (Inr True, ?s)"
    using assms(2,3,5) by (auto simp: mark_rotated_def Let_def list_ex_iff)
  have hashes: "rt_token_hash ` set (refresh_tokens ?s) = rt_token_hash ` set (refresh_tokens s)"
  proof -
    have "map rt_token_hash (refresh_tokens ?s) = map rt_token_hash (refresh_tokens s)" by (simp add: update_rows_def)
    from arg_cong [OF this, of set] show ?thesis by simp
  qed
  have "\<exists>resp t. issue_tokens app (rt_user_id r) ?i ?s = (Inr resp, t) \<and> access_token resp = access \<and>
    sessions t = sessions ?s \<and> users t = users ?s \<and> script t = [] \<and> now t = now ?s"
    by (rule issue_tokens_quiet) (use assms owned owned_session_user [OF assms(1) owned] hashes in
        \<open>simp_all add: session_owned_def\<close>)
  then obtain resp t where "issue_tokens app (rt_user_id r) ?i ?s = (Inr resp, t)" "access_token resp = access"
    "script t = []" by blast
  then show ?thesis
    using assms(2,5-7) found active mark
    by (simp add: refresh_def bindE_def db_def map_errE_def find_refresh_token_def token_stale_def
        token_reused_def utc_now_def audit_record_def audit_insert_def Let_def)
qed

text \<open>Which responses mean that a service succeeded.\<close>

lemma serve_success:
  assumes "rs_status (fst (serve site rq sv)) < 400" and "is_timed (rq_endpoint rq)"
  obtains m x where "fst (handler site rq m (rq_endpoint rq) (sv_store sv)) = Inr x"
    and "rs_status x = rs_status (fst (serve site rq sv))"
    and "sv_store (snd (serve site rq sv)) = snd (handler site rq m (rq_endpoint rq) (sv_store sv))"
proof (cases rule: global_rate_limit_cases [of site rq sv])
  case limited
  then show ?thesis using assms by (simp add: serve_eq limited_status)
next
  case handled
  then show ?thesis
  proof (cases rule: handled_cases [of site rq "sv_metrics sv" "sv_store sv"])
    case dropped
    then show ?thesis using handled assms by (simp add: serve_eq reply_def)
  next
    case answered
    show ?thesis
    proof (cases "fst (handler site rq (sv_metrics sv) (rq_endpoint rq) (sv_store sv))")
      case (Inl e)
      then show ?thesis
        using assms(1) handled answered error_status [of e] by (simp add: serve_eq response_of_def)
    next
      case (Inr x)
      then show ?thesis
        using handled answered by (intro that [of "sv_metrics sv" x]) (simp_all add: serve_eq response_of_def)
    qed
  qed
qed

text \<open>Limiters that track nobody yet let a request through.\<close>

lemma check_fresh: "windows l = [] \<Longrightarrow> 0 < window l \<Longrightarrow> 0 < max_requests l \<Longrightarrow> \<exists>l'. check k t u l = (True, l')"
  by (auto simp: check_def check_at_def hit_def Let_def MAX_TRACKED_KEYS_def)

lemma serve_fresh:
  assumes "windows (sv_limiter sv) = []" and "0 < window (sv_limiter sv)" and "0 < max_requests (sv_limiter sv)"
    and "windows (sv_auth_limiter sv) = []" and "0 < window (sv_auth_limiter sv)" and "0 < max_requests (sv_auth_limiter sv)"
  shows "fst (serve site rq sv) =
    security_headers (app_config (st_app site)) (fst (handled site rq (sv_metrics sv) (sv_store sv)))"
proof -
  obtain l1 l2 where "check (key_of site rq) (rq_instant rq) (rq_instant rq + rq_lag rq) (sv_limiter sv) = (True, l1)"
    "check (key_of site rq) (rq_instant rq) (rq_instant rq + rq_lag rq) (sv_auth_limiter sv) = (True, l2)"
    using check_fresh assms by metis
  then show ?thesis
    by (simp add: serve_eq global_rate_limit_def limit_def enforce_def routes_def auth_rate_limit_def
        run_handler_eq response_of_def)
qed

text \<open>Every request asks the general limiter once.\<close>

lemma serve_limiter:
  "sv_limiter (snd (serve site rq sv)) = snd (check (key_of site rq) (rq_instant rq) (rq_instant rq + rq_lag rq) (sv_limiter sv))"
  by (cases rule: limit_cases [of site rq "routes site rq" "sv_limiter sv" "sv_metrics sv" "(sv_auth_limiter sv, sv_store sv)"])
    (auto simp: serve_eq global_rate_limit_def split: prod.split)

lemma limiters_run:
  "limiter_ok (sv_limiter sv) \<Longrightarrow> limiter_ok (sv_auth_limiter sv) \<Longrightarrow>
     limiter_ok (sv_limiter (snd (server_run site es sv))) \<and> limiter_ok (sv_auth_limiter (snd (server_run site es sv)))"
proof (induction es arbitrary: sv)
  case (Cons e es)
  have "limiter_ok (sv_limiter (snd (server_step site e sv))) \<and> limiter_ok (sv_auth_limiter (snd (server_step site e sv)))"
  proof (cases e)
    case (Incoming rq)
    have "limiter_ok (sv_auth_limiter (snd (serve site rq sv)))"
    proof (cases rule: serve_auth_limiter [of site rq sv k])
      case (counted ok)
      then show ?thesis using Cons.prems(2) limiter_ok_check by blast
    qed (use Cons.prems(2) in simp)
    moreover have "limiter_ok (sv_limiter (snd (serve site rq sv)))"
      using Cons.prems(1) limiter_ok_check by (metis prod.collapse serve_limiter)
    ultimately show ?thesis using Incoming by (simp add: case_prod_beta)
  next
    case (Sweep_due t u)
    then show ?thesis using Cons.prems by (simp add: limiter_ok_sweep)
  qed
  then show ?case using Cons.IH by (simp add: case_prod_beta)
qed simp

lemma refresh_served:
  assumes "rq_endpoint rq = Refresh (Inr tok)" and "rs_status (fst (serve site rq sv)) = 200"
  obtains meta resp where "refresh (st_app site) tok meta (sv_store sv) = (Inr resp, sv_store (snd (serve site rq sv)))"
proof -
  have "rs_status (fst (serve site rq sv)) < 400" using assms(2) by simp
  then obtain m x where h: "fst (handler site rq m (rq_endpoint rq) (sv_store sv)) = Inr x"
    "sv_store (snd (serve site rq sv)) = snd (handler site rq m (rq_endpoint rq) (sv_store sv))"
    by (rule serve_success) (simp_all add: assms(1))
  then show ?thesis
    using that assms(1)
    by (cases "refresh (st_app site) tok (request_meta site rq) (sv_store sv)")
      (auto simp: api_refresh_def with_extracted_def bindE_def split: sum.splits)
qed

lemma authenticated_session_exists:
  assumes "from_request_parts app to_str hs s = (Inr user, t)"
  shows "list_ex (\<lambda>x. s_id x = au_session_id user) (sessions t)"
proof -
  obtain token where "authenticate app token s = (Inr user, t)"
    using assms by (auto simp: from_request_parts_def bindE_eq_Inr)
  then obtain c :: claims and s1 :: store where
    "jwt_verify (jwt_lib app) (app_jwt app) (seconds (now s)) token = Some c"
    and "db (is_active (sid c)) s = (Inr True, t)"
    and "user = \<lparr>au_user_id = sub c, au_session_id = sid c, au_expires_at = exp c\<rparr>" by (rule authenticate_cases)
  then show ?thesis
    unfolding db_ok_Inr is_active_def
    by (auto elim!: sql_ok simp: list_ex_iff find_Some_iff2 find_None_iff)
qed

lemma logout_served:
  assumes "rq_endpoint rq = Logout" and "rs_status (fst (serve site rq sv)) < 400" and "db_ok (sv_store sv)"
  obtains user where "fst (from_request_parts (st_app site) (st_to_str site) (rq_headers rq) (sv_store sv)) = Inr user"
    and "revoked (au_session_id user) (sv_store (snd (serve site rq sv)))"
proof -
  let ?auth = "from_request_parts (st_app site) (st_to_str site) (rq_headers rq)"
  obtain m x where h: "fst (handler site rq m (rq_endpoint rq) (sv_store sv)) = Inr x"
    and store: "sv_store (snd (serve site rq sv)) = snd (handler site rq m (rq_endpoint rq) (sv_store sv))"
    using assms(2) by (rule serve_success) (simp_all add: assms(1))
  from h assms(1) obtain user s1 where user: "?auth (sv_store sv) = (Inr user, s1)"
    by (cases "?auth (sv_store sv)") (auto simp: api_logout_def signed_in_def bindE_def split: sum.splits)
  let ?i = "au_session_id user"
  from h user assms(1) obtain s2 where revoke: "revoke_session ?i s1 = (Inr (), s2)"
    by (cases "revoke_session ?i s1")
      (auto simp: api_logout_def signed_in_def logout_def bindE_def db_def map_errE_def split: sum.splits)
  have "sv_store (snd (serve site rq sv)) = snd (audit_record (Some (au_user_id user)) ''auth.logout''
      [(''session_id'', M_uuid ?i)] (ip_address (request_meta site rq)) s2)"
    using store assms(1) user revoke
    by (simp add: api_logout_def signed_in_def logout_def bindE_def db_def map_errE_def audit_record_def)
  then have "history s2 (sv_store (snd (serve site rq sv)))"
    using staysD [OF stays_audit [OF history_inserts(7)]] by simp
  moreover have "list_ex (\<lambda>x. s_id x = ?i) (sessions s1)" using user by (rule authenticated_session_exists)
  then have "revoked ?i s2" using revoke_session_success [OF revoke] by simp
  ultimately show ?thesis using that [of user] user history_revoked by simp
qed

text \<open>
  The rotation, cut off after its third statement: the token has been consumed and nothing else
  has happened.
\<close>

lemma refresh_cut_off:
  assumes "db_ok s" and "script s = [(d1, Fine), (d2, Fine), (d3, Fine), (d4, Abandoned)]"
    and "r \<in> set (refresh_tokens s)" and "rt_token_hash r = hash_token (token_lib app) tok"
    and "rt_rotated_at r = None" and "rt_revoked_at r = None" and "now s + int d1 \<le> rt_expires_at r"
    and "\<not> revoked (rt_session_id r) s"
  shows "\<exists>e t. refresh app tok meta s = (Inl e, t) \<and> script t = [(d4, Abandoned)] \<and> sessions t = sessions s \<and>
    refresh_tokens t = update_rows (\<lambda>x. rt_id x = rt_id r \<and> rt_rotated_at x = None)
      (\<lambda>x. x\<lparr>rt_rotated_at := Some (now s + int d1 + int d2 + int d3)\<rparr>) (refresh_tokens s)"
proof -
  have found: "find (\<lambda>x. rt_token_hash x = hash_token (token_lib app) tok) (refresh_tokens s) = Some r"
    using find_by_hash [OF assms(1,3)] assms(4) by simp
  have "session_owned (rt_session_id r) (rt_user_id r) s" using token_session_owned assms(1,3) by blast
  then obtain x where "x \<in> set (sessions s)" "s_id x = rt_session_id r" by (auto simp: session_owned_def)
  then have active: "find (\<lambda>x. s_id x = rt_session_id r \<and> s_revoked_at x = None) (sessions s) \<noteq> None"
    using assms(8) by (auto simp: find_None_iff revoked_def list_ex_iff)
  have hit: "list_ex (\<lambda>x. rt_id x = rt_id r \<and> rt_rotated_at x = None) (refresh_tokens s)"
    using assms(3,5) by (auto simp: list_ex_iff)
  show ?thesis
    using assms(2,5-7) found active hit
    by (simp add: refresh_def bindE_def db_def map_errE_def sql_def tick_def find_refresh_token_def token_stale_def
        is_active_def token_reused_def mark_rotated_def utc_now_def issue_tokens_def new_v4_def draw_def
        liftE_def insert_refresh_token_def map_err_def Let_def split: sum.split)
qed

lemma demo_refresh_facts:
  "script (sv_store demo_refresh_state) = []" "now (sv_store demo_refresh_state) = 10000000"
  "expiry 10000000 (refresh_token_ttl (app_config demo_app)) = Inr 86410000000"
  "generate_token (token_lib demo_app) (rng demo_app (draws (sv_store demo_refresh_state))) = []"
  "token_lib demo_app = demo_tokens" "\<not> revoked 1 (sv_store demo_refresh_state)"
  "refresh_tokens (sv_store demo_refresh_state) =
     [\<lparr>rt_id = 2, rt_session_id = 1, rt_user_id = 0, rt_token_hash = hash_token demo_tokens ''new'',
       rt_expires_at = 99000000, rt_created_at = 0, rt_rotated_at = None, rt_revoked_at = None\<rparr>]"
  by (simp_all add: demo_refresh_state_def demo_store_def store_empty_def demo_app_def demo_config_def expiry_def
      CHRONO_MAX_SECS_def UTC_MAX_SECS_def seconds_def generate_token_def demo_tokens_def revoked_def)

lemma demo_refresh_ok: "db_ok (sv_store demo_refresh_state)"
  by (simp add: db_ok_defs demo_refresh_state_def demo_store_def store_empty_def)

lemma demo_refresh: "\<exists>resp t. refresh demo_app ''new'' meta (sv_store demo_refresh_state) = (Inr resp, t) \<and> script t = []"
proof -
  let ?s = "sv_store demo_refresh_state"
  obtain access where "jwt_issue (jwt_lib demo_app) (app_jwt demo_app) (seconds (now ?s)) (next_id ?s) 0 1 = Inr access"
    by (simp add: jwt_issue_def demo_app_def demo_jwt_def)
  moreover have "hash_token demo_tokens [] \<noteq> hash_token demo_tokens ''new''" by code_simp
  ultimately show ?thesis
    using refresh_succeeds [OF demo_refresh_ok, of "hd (refresh_tokens ?s)" demo_app "''new''" access 86410000000 meta]
      demo_refresh_facts by auto
qed

lemma demo_authenticated:
  "from_request_parts demo_app (st_to_str demo_site) demo_bearer demo_store =
     (Inr \<lparr>au_user_id = 0, au_session_id = 1, au_expires_at = 13\<rparr>, demo_store)"
proof -
  obtain tok where tok: "jwt_issue demo_jwt (jwt_new [1, 2] 3) 10 7 0 1 = Inr tok"
    by (simp add: jwt_issue_def demo_jwt_def)
  have "bearer_token (st_to_str demo_site) demo_bearer = Some tok"
  proof -
    have chars: "map chr (as_bytes x) = x" for x by (induction x) (simp_all add: as_bytes_def)
    show ?thesis
      unfolding bearer_token_def demo_bearer_def tok
      by (simp add: demo_site_def chars strip_prefix_Some del: append.simps)
  qed
  moreover have "jwt_verify demo_jwt (jwt_new [1, 2] 3) 10 tok =
      Some \<lparr>sub = 0, sid = 1, jti = 7, iat = 10, exp = 13, iss = ISSUER\<rparr>"
    using jwt_issue_verify [OF demo_jwt_lawful tok, of 13 10] by (simp add: wrapping_add_i64_def as_i64_def)
  moreover have "is_active 1 demo_store = (Inr True, demo_store)" by code_simp
  ultimately show ?thesis
    by (simp add: from_request_parts_def authenticate_def bindE_def utc_now_def demo_app_def db_def map_errE_def
        seconds_def demo_store_def store_empty_def)
qed

section \<open>Properties\<close>

text \<open>
  C3. No double exchange: of any number of concurrent requests with the same refresh token, however
  their database statements interleave with each other and with other requests, at most one gets
  tokens.
\<close>

theorem refresh_race_one_winner:
  assumes "db_ok s" and "(race app tok metas)\<^sup>*\<^sup>* (replicate n Start, s) (ps, t)"
    and "i < length ps" and "j < length ps" and "ps ! i = Finished (Inr a)" and "ps ! j = Finished (Inr b)"
  shows "i = j"
  using race_one_winner [OF race_ok_reachable [OF assms(2) race_ok_start [OF assms(1)]] assms(3,4)] assms(5,6)
  by simp

text \<open>Two requests with the stored token, the first of which is served: the second gets nothing.\<close>

theorem refresh_race_one_winner_witness:
  "\<exists>a p t. (race demo_app ''new'' (\<lambda>_. \<lparr>user_agent = None, ip_address = None\<rparr>))\<^sup>*\<^sup>*
      (replicate 2 Start, sv_store demo_refresh_state) ([Finished (Inr a), p], t) \<and> (\<forall>b. p \<noteq> Finished (Inr b))"
proof -
  let ?meta = "\<lparr>user_agent = None, ip_address = None\<rparr>"
  let ?s = "sv_store demo_refresh_state"
  let ?race = "race demo_app ''new'' (\<lambda>_. ?meta)"
  obtain a t where a: "refresh demo_app ''new'' ?meta ?s = (Inr a, t)" using demo_refresh by blast
  obtain b u where b: "refresh demo_app ''new'' ?meta t = (b, u)" by fastforce
  have "?race\<^sup>*\<^sup>* ([Start, Start], ?s) ([Start, Start][0 := Finished (Inr a)], t)"
    by (rule race_run [of _ _ 6]) (simp_all add: refresh_steps_all a)
  moreover have "?race\<^sup>*\<^sup>* ([Finished (Inr a), Start], t) ([Finished (Inr a), Start][1 := Finished b], u)"
    by (rule race_run [of _ _ 6]) (simp_all add: refresh_steps_all b)
  ultimately have run: "?race\<^sup>*\<^sup>* (replicate 2 Start, ?s) ([Finished (Inr a), Finished b], u)"
    by (simp add: numeral_2_eq_2)
  have "Finished b \<noteq> Finished (Inr c)" for c
    using refresh_race_one_winner [OF demo_refresh_ok run, of 0 1 a c] by auto
  with run show ?thesis by blast
qed

text \<open>
  C4. A refresh token is good for one exchange, across the whole server: once it has been
  exchanged, then, whatever requests of whatever clients and whatever database failures come in
  between, presenting it again never yields tokens.
\<close>

theorem refresh_token_single_use:
  assumes "db_ok (sv_store sv)" and "rq_endpoint rq = Refresh (Inr tok)" and "rq_endpoint rq' = Refresh (Inr tok)"
    and "rs_status (fst (serve site rq sv)) = 200"
  shows "rs_status (fst (serve site rq' (snd (server_run site es (snd (serve site rq sv)))))) \<noteq> 200"
proof
  let ?t = "snd (serve site rq sv)"
  let ?u = "snd (server_run site es ?t)"
  assume again: "rs_status (fst (serve site rq' ?u)) = 200"
  obtain meta resp where "refresh (st_app site) tok meta (sv_store sv) = (Inr resp, sv_store ?t)"
    using assms(2,4) by (rule refresh_served)
  then have "rotated (hash_token (token_lib (st_app site)) tok) (sv_store ?t)"
    using assms(1) by (rule refresh_rotates)
  then have "rotated (hash_token (token_lib (st_app site)) tok) (sv_store ?u)"
    using history_rotated past.server_run_R by blast
  moreover have "db_ok (sv_store ?u)"
    using assms(1) tables.serve_R [of sv site rq] tables.server_run_R [of ?t site es] by blast
  ultimately have "\<not> is_ok (fst (refresh (st_app site) tok meta' (sv_store ?u)))" for meta'
    by (rule refresh_rotated_fails [rotated])
  moreover obtain meta' resp' where "refresh (st_app site) tok meta' (sv_store ?u) = (Inr resp', sv_store (snd (serve site rq' ?u)))"
    using assms(3) again by (rule refresh_served)
  ultimately show False by (metis fst_conv is_ok_simps(2))
qed

text \<open>A stored token is exchanged; whatever happens next, a second attempt fails.\<close>

theorem refresh_token_single_use_witness:
  "rs_status (fst (serve demo_site (demo_request (Refresh (Inr ''new'')) [] 9)
     (snd (server_run demo_site [Incoming (demo_request Get_health [] 8)]
       (snd (serve demo_site (demo_request (Refresh (Inr ''new'')) [] 7) demo_refresh_state)))))) \<noteq> 200"
proof (rule refresh_token_single_use [where tok = "''new''"])
  let ?rq = "demo_request (Refresh (Inr ''new'')) [] 7"
  let ?s = "sv_store demo_refresh_state"
  have site: "st_app demo_site = demo_app" by (simp add: demo_site_def)
  obtain resp t where "refresh demo_app ''new'' (request_meta demo_site ?rq) ?s = (Inr resp, t)" "script t = []"
    using demo_refresh by blast
  then have "rs_status (fst (handled demo_site ?rq m ?s)) = 200" for m
    by (simp add: handled_def timeout_layer_def response_of_def demo_request_def api_refresh_def with_extracted_def
        bindE_def site reply_def)
  then show "rs_status (fst (serve demo_site ?rq demo_refresh_state)) = 200"
    by (subst serve_fresh) (simp_all add: demo_refresh_state_def demo_state_def app_state_new_def limiter_new_def
        demo_config_def secs_def)
  show "db_ok ?s" by (fact demo_refresh_ok)
qed (simp_all add: demo_request_def)

text \<open>
  C32. A timeout can cost the session: when a rotation is cut off after the token was consumed, the
  client gets 408 and no tokens, and when it tries the same token again, which is all it has, the
  server takes that for theft and revokes the session.
\<close>

theorem cut_off_refresh_loses_session:
  assumes "db_ok s" and "script s = [(d1, Fine), (d2, Fine), (d3, Fine), (d4, Abandoned)]"
    and "r \<in> set (refresh_tokens s)" and "rt_token_hash r = hash_token (token_lib (st_app site)) tok"
    and "rt_rotated_at r = None" and "rt_revoked_at r = None" and "now s + int d1 \<le> rt_expires_at r"
    and "\<not> revoked (rt_session_id r) s" and "rq_endpoint rq = Refresh (Inr tok)"
  shows "\<exists>t u. run_handler site rq (m, s) = (reply 408 No_body, m, t) \<and> \<not> revoked (rt_session_id r) t \<and>
    refresh (st_app site) tok meta t = (Inl Unauthorized, u) \<and> revoked (rt_session_id r) u"
proof -
  let ?f = "\<lambda>x. x\<lparr>rt_rotated_at := Some (now s + int d1 + int d2 + int d3)\<rparr>"
  let ?hit = "\<lambda>x. rt_id x = rt_id r \<and> rt_rotated_at x = None"
  obtain e v where v: "refresh (st_app site) tok (request_meta site rq) s = (Inl e, v)" "script v = [(d4, Abandoned)]"
    "sessions v = sessions s" "refresh_tokens v = update_rows ?hit ?f (refresh_tokens s)"
    using refresh_cut_off [OF assms(1-8)] by blast
  let ?t = "v\<lparr>now := now v + int d4, script := []\<rparr>"
  have run: "run_handler site rq (m, s) = (reply 408 No_body, m, ?t)"
    using v(1,2) assms(9)
    by (simp add: run_handler_def timeout_layer_def api_refresh_def with_extracted_def bindE_def)
  have "db_ok v" using staysD [OF wf_refresh, of s "st_app site" tok "request_meta site rq"] v(1) assms(1) by simp
  then have ok: "db_ok ?t" using wf.quiet [of v "now v + int d4" "[]"] by simp
  have "?f r \<in> set (refresh_tokens ?t)"
    using update_rows_mem [OF assms(3), of ?hit ?f] assms(5) v(4) by simp
  from reuse_detected [OF ok _ this, of "st_app site" tok meta] assms(4)
  obtain u where "refresh (st_app site) tok meta ?t = (Inl Unauthorized, u)" "revoked (rt_session_id r) u" by auto
  moreover have "\<not> revoked (rt_session_id r) ?t" using assms(8) v(3) by (simp add: revoked_def)
  ultimately show ?thesis using run by blast
qed

text \<open>The stored token of the demonstration store.\<close>

theorem cut_off_refresh_loses_session_witness:
  "\<exists>t u. run_handler demo_site (demo_request (Refresh (Inr ''new'')) [] 7) (metrics_default,
       (sv_store demo_refresh_state)\<lparr>script := [(0, Fine), (0, Fine), (0, Fine), (5, Abandoned)]\<rparr>) =
       (reply 408 No_body, metrics_default, t) \<and>
     refresh demo_app ''new'' demo_meta t = (Inl Unauthorized, u) \<and> revoked 1 u"
proof -
  let ?s = "(sv_store demo_refresh_state)\<lparr>script := [(0, Fine), (0, Fine), (0, Fine), (5, Abandoned)]\<rparr>"
  let ?r = "hd (refresh_tokens ?s)"
  have "db_ok ?s" using demo_refresh_ok by (simp add: db_ok_defs)
  moreover have "?r \<in> set (refresh_tokens ?s)" "rt_token_hash ?r = hash_token (token_lib (st_app demo_site)) ''new''"
    "rt_rotated_at ?r = None" "rt_revoked_at ?r = None" "now ?s + int 0 \<le> rt_expires_at ?r"
    "rt_session_id ?r = 1" "\<not> revoked (rt_session_id ?r) ?s"
    using demo_refresh_facts by (simp_all add: demo_site_def revoked_def)
  ultimately show ?thesis
    using cut_off_refresh_loses_session [of ?s 0 0 0 5 ?r demo_site "''new''"
        "demo_request (Refresh (Inr ''new'')) [] 7" metrics_default demo_meta]
    by (auto simp: demo_request_def demo_site_def)
qed

text \<open>
  C5. Logging out is final: after a successful logout, whatever requests follow, no access token
  authenticates for that session any more and none of its refresh tokens yields tokens.
\<close>

theorem logout_is_final:
  assumes "db_ok (sv_store sv)" and "rq_endpoint rq = Logout" and "rs_status (fst (serve site rq sv)) < 400"
    and "fst (from_request_parts (st_app site) (st_to_str site) (rq_headers rq) (sv_store sv)) = Inr user"
    and "after = snd (server_run site es (snd (serve site rq sv)))"
  shows "(\<forall>user'. fst (from_request_parts (st_app site) (st_to_str site) hs (sv_store after)) = Inr user' \<longrightarrow>
      au_session_id user' \<noteq> au_session_id user) \<and>
    (rq_endpoint rq' = Refresh (Inr tok) \<and>
      token_of_session (hash_token (token_lib (st_app site)) tok) (au_session_id user) (sv_store after) \<longrightarrow>
      rs_status (fst (serve site rq' after)) \<noteq> 200)"
proof -
  let ?i = "au_session_id user"
  have "revoked ?i (sv_store (snd (serve site rq sv)))"
    using assms(2,3,1) by (rule logout_served) (use assms(4) in simp)
  then have rev: "revoked ?i (sv_store after)"
    using history_revoked past.server_run_R assms(5) by blast
  have ok: "db_ok (sv_store after)"
    using assms(1,5) tables.serve_R [of sv site rq] tables.server_run_R [of "snd (serve site rq sv)" site es] by blast
  show ?thesis
  proof (intro conjI allI impI)
    fix user'
    assume "fst (from_request_parts (st_app site) (st_to_str site) hs (sv_store after)) = Inr user'"
    then obtain token t where "authenticate (st_app site) token (sv_store after) = (Inr user', t)"
      by (cases "from_request_parts (st_app site) (st_to_str site) hs (sv_store after)")
        (auto simp: from_request_parts_def bindE_eq_Inr)
    then show "au_session_id user' \<noteq> ?i" using authenticate_not_revoked [OF _ ok] rev by metis
  next
    assume tok: "rq_endpoint rq' = Refresh (Inr tok) \<and>
      token_of_session (hash_token (token_lib (st_app site)) tok) ?i (sv_store after)"
    show "rs_status (fst (serve site rq' after)) \<noteq> 200"
    proof
      assume "rs_status (fst (serve site rq' after)) = 200"
      with tok obtain meta resp where "refresh (st_app site) tok meta (sv_store after) =
          (Inr resp, sv_store (snd (serve site rq' after)))" using refresh_served by metis
      with refresh_revoked_fails [OF ok _ rev, of "st_app site" tok meta] tok show False by simp
    qed
  qed
qed

text \<open>The session of the demonstration store logs out; its access token is dead.\<close>

theorem logout_is_final_witness:
  "fst (from_request_parts demo_app (st_to_str demo_site) demo_bearer (sv_store
     (snd (server_run demo_site [Incoming (demo_request Me demo_bearer 8)]
       (snd (serve demo_site (demo_request Logout demo_bearer 7) demo_state)))))) \<notin>
     Inr ` {user. au_session_id user = 1}"
proof -
  let ?rq = "demo_request Logout demo_bearer 7"
  let ?u = "\<lparr>au_user_id = 0, au_session_id = 1, au_expires_at = 13\<rparr>"
  have site: "st_app demo_site = demo_app" "sv_store demo_state = demo_store" "rq_headers ?rq = demo_bearer"
    by (simp_all add: demo_site_def demo_state_def app_state_new_def demo_request_def)
  obtain t where "revoke_session 1 demo_store = (Inr (), t)" "script t = []"
    using revoke_session_quiet [of demo_store 1] by (simp add: demo_store_def store_empty_def)
  then have "rs_status (fst (handled demo_site ?rq m demo_store)) = 204" for m
    using demo_authenticated site
    by (simp add: handled_def timeout_layer_def response_of_def api_logout_def signed_in_def logout_def bindE_def
        db_def map_errE_def audit_record_def audit_insert_def demo_request_def reply_def)
  then have "rs_status (fst (serve demo_site ?rq demo_state)) < 400"
    by (subst serve_fresh) (simp_all add: demo_state_def app_state_new_def limiter_new_def demo_config_def secs_def)
  note final = logout_is_final [OF _ _ this _ refl, where user = ?u and hs = demo_bearer
      and es = "[Incoming (demo_request Me demo_bearer 8)]", unfolded site]
  have "fst (from_request_parts demo_app (st_to_str demo_site) demo_bearer demo_store) = Inr ?u"
    using demo_authenticated by simp
  from final [OF db_ok_demo_store _ this] show ?thesis by (auto simp: demo_request_def)
qed

text \<open>
  C12. The invariant of the whole server: started on an empty database, after any requests, sweeps
  and database failures, requests cut off by the timeout included, the database satisfies its
  constraints and ownership invariant, and both limiters theirs.
\<close>

theorem server_invariant:
  "let (app, sv) = app_state_new libs c (store_empty t sc);
       sv' = snd (server_run (site\<lparr>st_app := app\<rparr>) es sv)
   in db_ok (sv_store sv') \<and> limiter_ok (sv_limiter sv') \<and> limiter_ok (sv_auth_limiter sv')"
proof -
  let ?sv = "snd (app_state_new libs c (store_empty t sc))"
  let ?site = "site\<lparr>st_app := fst (app_state_new libs c (store_empty t sc))\<rparr>"
  have "db_ok (sv_store (snd (server_run ?site es ?sv)))"
    using tables.server_run_R [of ?sv ?site es] db_ok_empty by (simp add: app_state_new_def)
  moreover have "limiter_ok (sv_limiter ?sv)" "limiter_ok (sv_auth_limiter ?sv)"
    by (simp_all add: app_state_new_def limiter_ok_new)
  note limiters_run [OF this, of ?site es]
  ultimately show ?thesis by (simp add: case_prod_beta Let_def)
qed

end
